(* ===== verification/Prelude.thy ===== *)
theory Prelude
  imports Main "HOL-Library.Word"
begin

text \<open>
  Shared vocabulary of the development.

  \<^item> The machine types of the Win32 build (\<open>src/src/GameServer.vcxproj\<close>): \<open>unsigned char\<close>,
    \<open>unsigned short\<close> and the 32-bit \<open>int\<close>/\<open>long\<close>/pointers are words of that width,
    read as signed with \<^const>\<open>sint\<close> where the C++ type is signed; memory is little-endian.
  \<^item> \<open>fault\<close>: what C++ leaves undefined (a read past an array, a null or dangling pointer,
    an unterminated string, a missing variadic argument) is a value of the result type, never
    an unspecified HOL term. A theorem that an operation returns \<^const>\<open>Inr\<close> therefore
    says that it is free of undefined behaviour.
  \<^item> \<open>('s, 'a) op\<close>: a stateful operation that may fault, with \<open>ret\<close>, \<open>bnd\<close>,
    \<open>seqM\<close> (statements in sequence) and \<open>forM_upto\<close> (a counted \<open>for\<close> loop).
  \<^item> \<open>triple\<close> and \<open>total\<close>: partial and fault-free Hoare triples over such operations,
    with one rule per combinator, collected in \<open>triple_rules\<close>.
  \<^item> \<open>keeps R m\<close> and the locale \<open>framed\<close>: every run of \<open>m\<close> relates the state before to the
    state after by the reflexive, transitive relation \<open>R\<close>, with one rule per combinator.
  \<^item> the little-endian encoding of 16-bit and 32-bit words.
\<close>

section \<open>Machine types and faults\<close>

type_synonym byte = "8 word"
type_synonym u16 = "16 word"
type_synonym u32 = "32 word"
type_synonym bytes = "nat \<Rightarrow> byte"

datatype fault =
    Null_deref
  | Dangling
  | Out_of_bounds
  | Unterminated
  | Bad_vararg
  | Uninitialised

type_synonym 'a res = "fault + 'a"
type_synonym ('s, 'a) op = "'s \<Rightarrow> fault + ('a \<times> 's)"

section \<open>Operations with state and faults\<close>

named_theorems op_defs "unfolding rules of the operation combinators"

definition ret :: "'a \<Rightarrow> ('s, 'a) op" where
  [op_defs]: "ret x = (\<lambda>s. Inr (x, s))"

definition throw :: "fault \<Rightarrow> ('s, 'a) op" where
  [op_defs]: "throw e = (\<lambda>s. Inl e)"

definition bnd :: "('s, 'a) op \<Rightarrow> ('a \<Rightarrow> ('s, 'b) op) \<Rightarrow> ('s, 'b) op" where
  "bnd m f = (\<lambda>s. case m s of Inl e \<Rightarrow> Inl e | Inr (x, s') \<Rightarrow> f x s')"

definition gets :: "('s \<Rightarrow> 'a) \<Rightarrow> ('s, 'a) op" where
  [op_defs]: "gets f = (\<lambda>s. Inr (f s, s))"

definition modify :: "('s \<Rightarrow> 's) \<Rightarrow> ('s, unit) op" where
  [op_defs]: "modify f = (\<lambda>s. Inr ((), f s))"

definition liftE :: "'a res \<Rightarrow> ('s, 'a) op" where
  [op_defs]: "liftE r = (\<lambda>s. case r of Inl e \<Rightarrow> Inl e | Inr x \<Rightarrow> Inr (x, s))"

definition whenM :: "bool \<Rightarrow> ('s, unit) op \<Rightarrow> ('s, unit) op" where
  [op_defs]: "whenM b m = (if b then m else ret ())"

fun seqM :: "('s, unit) op list \<Rightarrow> ('s, unit) op" where
  "seqM [] = ret ()"
| "seqM (m # ms) = bnd m (\<lambda>_. seqM ms)"

definition forM_upto :: "nat \<Rightarrow> (nat \<Rightarrow> ('s, unit) op) \<Rightarrow> ('s, unit) op" where
  "forM_upto n body = seqM (map body [0..<n])"

definition forM_list :: "'a list \<Rightarrow> ('a \<Rightarrow> ('s, unit) op) \<Rightarrow> ('s, unit) op" where
  "forM_list xs body = seqM (map body xs)"

lemma bnd_Inr [simp]: "m s = Inr (x, s') \<Longrightarrow> bnd m f s = f x s'"
  by (simp add: bnd_def)

lemma bnd_Inl [simp]: "m s = Inl e \<Longrightarrow> bnd m f s = Inl e"
  by (simp add: bnd_def)

lemma bnd_ret [simp]: "bnd (ret x) f = f x"
  by (simp add: bnd_def ret_def)

lemma ret_apply: "ret x w = Inr (x, w)"
  by (simp add: ret_def)

lemma bnd_pure: "bnd (\<lambda>w. Inr (x, w)) k = k x"
  by (rule ext) simp

lemma bnd_throw [simp]: "bnd (throw e) f = throw e"
  by (simp add: bnd_def throw_def)

lemma bnd_gets [simp]: "bnd (gets f) g s = g (f s) s"
  by (simp add: bnd_def gets_def)

lemma bnd_modify [simp]: "bnd (modify f) g s = g () (f s)"
  by (simp add: bnd_def modify_def)

lemma bnd_liftE: "bnd (liftE r) f s = (case r of Inl e \<Rightarrow> Inl e | Inr x \<Rightarrow> f x s)"
  by (simp add: bnd_def liftE_def split: sum.split)

lemma bnd_assoc: "bnd (bnd m f) g = bnd m (\<lambda>x. bnd (f x) g)"
  by (rule ext) (simp add: bnd_def split: sum.split)

lemma bnd_eq_Inr:
  "bnd m f s = Inr (y, t) \<longleftrightarrow> (\<exists>x s'. m s = Inr (x, s') \<and> f x s' = Inr (y, t))"
  by (auto simp: bnd_def split: sum.splits)

lemma ret_eq_Inr [simp]: "ret x s = Inr (y, t) \<longleftrightarrow> y = x \<and> t = s"
  by (auto simp: ret_def)

lemma throw_eq_Inr [simp]: "throw e s \<noteq> Inr r"
  by (simp add: throw_def)

lemma seqM_append: "seqM (xs @ ys) = bnd (seqM xs) (\<lambda>_. seqM ys)"
  by (induction xs) (simp_all add: bnd_assoc)

lemma forM_upto_0 [simp]: "forM_upto 0 body = ret ()"
  by (simp add: forM_upto_def)

lemma forM_upto_Suc: "forM_upto (Suc n) body = bnd (forM_upto n body) (\<lambda>_. body n)"
proof -
  have "seqM [body n] = body n"
    by (rule ext) (auto simp: bnd_def ret_def split: sum.split)
  then show ?thesis
    by (simp add: forM_upto_def seqM_append)
qed

lemma forM_list_simps [simp]:
  "forM_list [] body = ret ()"
  "forM_list (x # xs) body = bnd (body x) (\<lambda>_. forM_list xs body)"
  by (simp_all add: forM_list_def)

section \<open>Hoare triples\<close>

text \<open>
  \<open>triple P m Q\<close> is partial correctness: a run that does not fault ends in \<open>Q\<close>.
  \<open>total P m Q\<close> adds that no run from \<open>P\<close> faults.
\<close>

definition triple :: "('s \<Rightarrow> bool) \<Rightarrow> ('s, 'a) op \<Rightarrow> ('a \<Rightarrow> 's \<Rightarrow> bool) \<Rightarrow> bool" where
  "triple P m Q \<longleftrightarrow> (\<forall>s x t. P s \<longrightarrow> m s = Inr (x, t) \<longrightarrow> Q x t)"

definition total :: "('s \<Rightarrow> bool) \<Rightarrow> ('s, 'a) op \<Rightarrow> ('a \<Rightarrow> 's \<Rightarrow> bool) \<Rightarrow> bool" where
  "total P m Q \<longleftrightarrow> (\<forall>s. P s \<longrightarrow> (\<exists>x t. m s = Inr (x, t) \<and> Q x t))"

named_theorems triple_rules "Hoare rules of the operation combinators"

lemma tripleI: "(\<And>s x t. P s \<Longrightarrow> m s = Inr (x, t) \<Longrightarrow> Q x t) \<Longrightarrow> triple P m Q"
  by (simp add: triple_def)

lemma tripleD: "triple P m Q \<Longrightarrow> P s \<Longrightarrow> m s = Inr (x, t) \<Longrightarrow> Q x t"
  by (simp add: triple_def)

lemma totalI: "(\<And>s. P s \<Longrightarrow> \<exists>x t. m s = Inr (x, t) \<and> Q x t) \<Longrightarrow> total P m Q"
  by (simp add: total_def)

lemma totalE:
  assumes "total P m Q" and "P s"
  obtains x t where "m s = Inr (x, t)" and "Q x t"
  using assms by (auto simp: total_def)

lemma triple_bnd [triple_rules]:
  "triple P m R \<Longrightarrow> (\<And>x. triple (R x) (f x) Q) \<Longrightarrow> triple P (bnd m f) Q"
  by (fastforce simp: triple_def bnd_eq_Inr)

lemma total_bnd:
  "total P m R \<Longrightarrow> (\<And>x. total (R x) (f x) Q) \<Longrightarrow> total P (bnd m f) Q"
  by (fastforce simp: total_def bnd_def)

lemma triple_seqM:
  "(\<And>m. m \<in> set ms \<Longrightarrow> triple I m (\<lambda>_. I)) \<Longrightarrow> triple I (seqM ms) (\<lambda>_. I)"
proof (induction ms)
  case Nil
  show ?case by (simp add: triple_def)
next
  case (Cons m ms)
  have "triple I m (\<lambda>_. I)" and "triple I (seqM ms) (\<lambda>_. I)"
    using Cons by simp_all
  then show ?case by (auto intro: triple_bnd)
qed

lemma total_seqM:
  "(\<And>m. m \<in> set ms \<Longrightarrow> total I m (\<lambda>_. I)) \<Longrightarrow> total I (seqM ms) (\<lambda>_. I)"
proof (induction ms)
  case Nil
  show ?case by (simp add: total_def)
next
  case (Cons m ms)
  have "total I m (\<lambda>_. I)" and "total I (seqM ms) (\<lambda>_. I)"
    using Cons by simp_all
  then show ?case by (auto intro: total_bnd)
qed

lemma triple_forM_upto [triple_rules]:
  "(\<And>i. i < n \<Longrightarrow> triple I (body i) (\<lambda>_. I)) \<Longrightarrow> triple I (forM_upto n body) (\<lambda>_. I)"
  unfolding forM_upto_def by (rule triple_seqM) auto

lemma triple_forM_list [triple_rules]:
  "(\<And>x. x \<in> set xs \<Longrightarrow> triple I (body x) (\<lambda>_. I)) \<Longrightarrow> triple I (forM_list xs body) (\<lambda>_. I)"
  unfolding forM_list_def by (rule triple_seqM) auto

lemma total_forM_upto:
  "(\<And>i. i < n \<Longrightarrow> total I (body i) (\<lambda>_. I)) \<Longrightarrow> total I (forM_upto n body) (\<lambda>_. I)"
  unfolding forM_upto_def by (rule total_seqM) auto

lemma total_forM_list:
  "(\<And>x. x \<in> set xs \<Longrightarrow> total I (body x) (\<lambda>_. I)) \<Longrightarrow> total I (forM_list xs body) (\<lambda>_. I)"
  unfolding forM_list_def by (rule total_seqM) auto

lemma triple_ret [triple_rules]: "(\<And>s. P s \<Longrightarrow> Q x s) \<Longrightarrow> triple P (ret x) Q"
  by (simp add: triple_def)

lemma triple_throw [triple_rules]: "triple P (throw e) Q"
  by (simp add: triple_def)

lemma triple_gets [triple_rules]: "(\<And>s. P s \<Longrightarrow> Q (f s) s) \<Longrightarrow> triple P (gets f) Q"
  by (simp add: triple_def gets_def)

lemma triple_modify [triple_rules]: "(\<And>s. P s \<Longrightarrow> Q () (f s)) \<Longrightarrow> triple P (modify f) Q"
  by (simp add: triple_def modify_def)

lemma triple_liftE [triple_rules]:
  "(\<And>s x. P s \<Longrightarrow> r = Inr x \<Longrightarrow> Q x s) \<Longrightarrow> triple P (liftE r) Q"
  by (auto simp: triple_def liftE_def split: sum.splits)

lemma triple_if [triple_rules]:
  "(b \<Longrightarrow> triple P m Q) \<Longrightarrow> (\<not> b \<Longrightarrow> triple P m' Q) \<Longrightarrow> triple P (if b then m else m') Q"
  by simp

lemma triple_whenM [triple_rules]:
  "(b \<Longrightarrow> triple P m (\<lambda>_. Q)) \<Longrightarrow> (\<And>s. \<not> b \<Longrightarrow> P s \<Longrightarrow> Q s) \<Longrightarrow> triple P (whenM b m) (\<lambda>_. Q)"
  by (auto simp: whenM_def triple_def)

lemma triple_weaken:
  "triple P m Q \<Longrightarrow> (\<And>s. P' s \<Longrightarrow> P s) \<Longrightarrow> (\<And>x s. Q x s \<Longrightarrow> Q' x s) \<Longrightarrow> triple P' m Q'"
  by (fastforce simp: triple_def)

lemma total_weaken:
  "total P m Q \<Longrightarrow> (\<And>s. P' s \<Longrightarrow> P s) \<Longrightarrow> (\<And>x s. Q x s \<Longrightarrow> Q' x s) \<Longrightarrow> total P' m Q'"
  by (fastforce simp: total_def)

section \<open>Frames\<close>

definition keeps :: "('s \<Rightarrow> 's \<Rightarrow> bool) \<Rightarrow> ('s, 'a) op \<Rightarrow> bool" where
  "keeps R m \<longleftrightarrow> (\<forall>s x t. m s = Inr (x, t) \<longrightarrow> R s t)"

lemma keepsI: "(\<And>s x t. m s = Inr (x, t) \<Longrightarrow> R s t) \<Longrightarrow> keeps R m"
  by (simp add: keeps_def)

lemma keepsD: "keeps R m \<Longrightarrow> m s = Inr (x, t) \<Longrightarrow> R s t"
  by (simp add: keeps_def)

lemma keeps_throw: "keeps R (throw e)"
  by (simp add: keeps_def)

lemma keeps_if: "(b \<Longrightarrow> keeps R m) \<Longrightarrow> (\<not> b \<Longrightarrow> keeps R m') \<Longrightarrow> keeps R (if b then m else m')"
  by simp

lemma keeps_option: "keeps R m \<Longrightarrow> (\<And>y. keeps R (f y)) \<Longrightarrow> keeps R (case v of None \<Rightarrow> m | Some y \<Rightarrow> f y)"
  by (cases v) simp_all

lemma keeps_list: "keeps R m \<Longrightarrow> (\<And>y ys. keeps R (f y ys)) \<Longrightarrow> keeps R (case v of [] \<Rightarrow> m | y # ys \<Rightarrow> f y ys)"
  by (cases v) simp_all

lemma keeps_prod: "(\<And>y z. keeps R (f y z)) \<Longrightarrow> keeps R (case v of (y, z) \<Rightarrow> f y z)"
  by (cases v) simp

lemma keeps_let: "keeps R (f v) \<Longrightarrow> keeps R (let y = v in f y)"
  by simp

lemma keeps_modify: "(\<And>s. R s (f s)) \<Longrightarrow> keeps R (modify f)"
  by (simp add: keeps_def modify_def)

locale framed =
  fixes R :: "'s \<Rightarrow> 's \<Rightarrow> bool"
  assumes frame_refl: "R s s"
    and frame_trans: "R s t \<Longrightarrow> R t u \<Longrightarrow> R s u"
begin

lemma keeps_ret: "keeps R (ret x)"
  by (simp add: keeps_def frame_refl)

lemma keeps_gets: "keeps R (gets f)"
  by (simp add: keeps_def gets_def frame_refl)

lemma keeps_liftE: "keeps R (liftE r)"
  by (simp add: keeps_def liftE_def frame_refl split: sum.splits)

lemma keeps_bnd: "keeps R m \<Longrightarrow> (\<And>x. keeps R (f x)) \<Longrightarrow> keeps R (bnd m f)"
  unfolding keeps_def bnd_eq_Inr by (blast intro: frame_trans)

lemma keeps_liftE_bnd: "(\<And>x. r = Inr x \<Longrightarrow> keeps R (f x)) \<Longrightarrow> keeps R (bnd (liftE r) f)"
  by (cases r) (simp_all add: keeps_def bnd_liftE)

lemma keeps_seqM: "(\<And>m. m \<in> set ms \<Longrightarrow> keeps R m) \<Longrightarrow> keeps R (seqM ms)"
  by (induction ms) (auto intro: keeps_ret keeps_bnd)

lemma keeps_forM_list: "(\<And>x. keeps R (f x)) \<Longrightarrow> keeps R (forM_list xs f)"
  unfolding forM_list_def by (rule keeps_seqM) auto

lemma keeps_whenM: "keeps R m \<Longrightarrow> keeps R (whenM b m)"
  by (simp add: whenM_def keeps_ret)

end

section \<open>Little-endian words\<close>

definition byte_of16 :: "u16 \<Rightarrow> nat \<Rightarrow> byte" where
  "byte_of16 w k = ucast (drop_bit (8 * k) w)"

definition byte_of32 :: "u32 \<Rightarrow> nat \<Rightarrow> byte" where
  "byte_of32 w k = ucast (drop_bit (8 * k) w)"

definition word16 :: "byte \<Rightarrow> byte \<Rightarrow> u16" where
  "word16 lo hi = ucast lo + push_bit 8 (ucast hi)"

definition word32 :: "byte \<Rightarrow> byte \<Rightarrow> byte \<Rightarrow> byte \<Rightarrow> u32" where
  "word32 b0 b1 b2 b3 =
     ucast b0 + push_bit 8 (ucast b1) + push_bit 16 (ucast b2) + push_bit 24 (ucast b3)"

lemma unat8_less [simp]: "unat (b :: byte) < 256"
  using unsigned_less [of b] by simp

lemma unat16_less [simp]: "unat (w :: u16) < 65536"
  using unsigned_less [of w] by simp

lemma unat32_less [simp]: "unat (w :: u32) < 4294967296"
  using unsigned_less [of w] by simp

lemma unat_ucast8_16 [simp]: "unat (ucast (b :: byte) :: u16) = unat b"
  by (simp add: unsigned_ucast_eq take_bit_eq_mod order_less_trans [OF unat8_less])

lemma unat_ucast8_32 [simp]: "unat (ucast (b :: byte) :: u32) = unat b"
  by (simp add: unsigned_ucast_eq take_bit_eq_mod order_less_trans [OF unat8_less])

lemma unat_ucast16_32 [simp]: "unat (ucast (w :: u16) :: u32) = unat w"
  by (simp add: unsigned_ucast_eq take_bit_eq_mod order_less_trans [OF unat16_less])

lemma ucast16_32_eq [simp]: "(ucast (a :: u16) :: u32) = ucast b \<longleftrightarrow> a = b"
  by (metis unat_ucast16_32 word_unat_eq_iff)

lemma unat_word16: "unat (word16 lo hi) = unat lo + 256 * unat hi"
proof -
  have "unat lo < 256" "unat hi < 256" by simp_all
  moreover from this have "unat lo + 256 * unat hi < 65536" by linarith
  ultimately show ?thesis
    by (simp add: word16_def unat_word_ariths push_bit_eq_mult)
qed

lemma unat_word32:
  "unat (word32 b0 b1 b2 b3) =
     unat b0 + 256 * unat b1 + 65536 * unat b2 + 16777216 * unat b3"
proof -
  have "unat b0 < 256" "unat b1 < 256" "unat b2 < 256" "unat b3 < 256" by simp_all
  moreover from this
  have "unat b0 + 256 * unat b1 + 65536 * unat b2 + 16777216 * unat b3 < 4294967296" by linarith
  ultimately show ?thesis
    by (simp add: word32_def unat_word_ariths push_bit_eq_mult)
qed

lemma unat_byte_of16: "unat (byte_of16 w k) = unat w div 2 ^ (8 * k) mod 256"
  by (simp add: byte_of16_def unsigned_ucast_eq unsigned_drop_bit_eq take_bit_eq_mod)
    (simp add: drop_bit_eq_div)

lemma unat_byte_of32: "unat (byte_of32 w k) = unat w div 2 ^ (8 * k) mod 256"
  by (simp add: byte_of32_def unsigned_ucast_eq unsigned_drop_bit_eq take_bit_eq_mod)
    (simp add: drop_bit_eq_div)

lemma base256_2: "n mod 256 + 256 * (n div 256 mod 256) = n" if "n < 65536" for n :: nat
  using that by (simp add: less_mult_imp_div_less)

lemma base256_4:
  "n mod 256 + 256 * (n div 256 mod 256) + 65536 * (n div 65536 mod 256)
     + 16777216 * (n div 16777216) = n" for n :: nat
proof -
  have a: "n div 65536 = n div 256 div 256" "n div 16777216 = n div 65536 div 256"
    by (simp_all add: div_mult2_eq [symmetric])
  have "n div 65536 mod 256 + 256 * (n div 16777216) = n div 65536"
    unfolding a(2) by (rule mod_mult_div_eq)
  moreover have "n div 256 mod 256 + 256 * (n div 65536) = n div 256"
    unfolding a(1) by (rule mod_mult_div_eq)
  moreover have "n mod 256 + 256 * (n div 256) = n"
    by (rule mod_mult_div_eq)
  ultimately show ?thesis by linarith
qed

lemma word16_bytes [simp]: "word16 (byte_of16 w 0) (byte_of16 w (Suc 0)) = w"
proof -
  have "unat (word16 (byte_of16 w 0) (byte_of16 w (Suc 0))) = unat w"
    by (simp add: unat_word16 unat_byte_of16 base256_2)
  then show ?thesis
    by (simp add: word_unat_eq_iff)
qed

lemma word32_bytes [simp]:
  "word32 (byte_of32 w 0) (byte_of32 w (Suc 0)) (byte_of32 w 2) (byte_of32 w 3) = w"
proof -
  have top: "unat w div 16777216 mod 256 = unat w div 16777216"
    by (simp add: less_mult_imp_div_less)
  have "unat (word32 (byte_of32 w 0) (byte_of32 w (Suc 0)) (byte_of32 w 2) (byte_of32 w 3)) = unat w"
    using base256_4 [of "unat w"] top by (simp add: unat_word32 unat_byte_of32)
  then show ?thesis
    by (simp add: word_unat_eq_iff)
qed

end
