(* ===== verification/CLib.thy ===== *)
theory CLib
  imports Prelude
begin

text \<open>
  What the program uses of the C run-time library: bounded memory blocks and \<open>memcpy\<close> out of
  them, C strings, \<open>strcpy\<close>, \<open>strtok\<close>, \<open>atoi\<close> and \<open>vsprintf\<close>.

  A C string is a HOL \<^typ>\<open>string\<close> without its NUL; a \<open>char\<close> array is the \<^typ>\<open>string\<close>
  of all its elements. \<open>atoi\<close> saturates outside the \<open>int\<close> range, as the Microsoft library
  documents. \<open>vsprintf\<close> covers the conversions the program and its language file use
  (\<open>%s %i %d %u %%\<close> and the blank flag); a conversion without an argument, or \<open>%s\<close> on an
  integer, is a fault.
\<close>

section \<open>Memory blocks\<close>

record cbuf =
  blen :: nat
  bdat :: bytes

definition rd8 :: "cbuf \<Rightarrow> nat \<Rightarrow> byte res" where
  "rd8 B i = (if i < blen B then Inr (bdat B i) else Inl Out_of_bounds)"

definition rd16 :: "cbuf \<Rightarrow> nat \<Rightarrow> u16 res" where
  "rd16 B i = (if i + 2 \<le> blen B then Inr (word16 (bdat B i) (bdat B (i + 1))) else Inl Out_of_bounds)"

definition rd32 :: "cbuf \<Rightarrow> nat \<Rightarrow> u32 res" where
  "rd32 B i =
     (if i + 4 \<le> blen B
      then Inr (word32 (bdat B i) (bdat B (i + 1)) (bdat B (i + 2)) (bdat B (i + 3)))
      else Inl Out_of_bounds)"

definition b2c :: "byte \<Rightarrow> char" where
  "b2c b = char_of (unat b)"

definition c2b :: "char \<Rightarrow> byte" where
  "c2b c = word_of_nat (of_char c)"

definition rdn :: "cbuf \<Rightarrow> nat \<Rightarrow> nat \<Rightarrow> string res" where
  "rdn B i n = (if i + n \<le> blen B then Inr (map (\<lambda>k. b2c (bdat B k)) [i..<i + n]) else Inl Out_of_bounds)"

section \<open>C strings\<close>

abbreviation NUL :: char where
  "NUL \<equiv> CHR 0x00"

definition cstr :: "string \<Rightarrow> string res" where
  "cstr a = (if NUL \<in> set a then Inr (takeWhile (\<lambda>c. c \<noteq> NUL) a) else Inl Unterminated)"

definition cstr_at :: "cbuf \<Rightarrow> nat \<Rightarrow> string res" where
  "cstr_at B i = cstr (map (\<lambda>k. b2c (bdat B k)) [i..<blen B])"

definition strcpy :: "string \<Rightarrow> string \<Rightarrow> string res" where
  "strcpy dst src =
     (if length src < length dst then Inr (src @ NUL # drop (Suc (length src)) dst)
      else Inl Out_of_bounds)"

definition memcpy_front :: "string \<Rightarrow> string \<Rightarrow> string" where
  "memcpy_front dst src = src @ drop (length src) dst"

section \<open>strtok\<close>

type_synonym tokst = "cbuf \<times> nat option"

definition scan :: "(char \<Rightarrow> bool) \<Rightarrow> cbuf \<Rightarrow> nat \<Rightarrow> nat" where
  "scan p B i = i + length (takeWhile p (map (\<lambda>k. b2c (bdat B k)) [i..<blen B]))"

definition strtok_from :: "nat \<Rightarrow> cbuf \<Rightarrow> (nat option \<times> tokst) res" where
  "strtok_from i B =
     (let q = scan (\<lambda>c. c = CHR '' '') B i in
      if blen B \<le> q then Inl Unterminated
      else if bdat B q = 0 then Inr (None, B, Some q)
      else
        (let e = scan (\<lambda>c. c \<noteq> NUL \<and> c \<noteq> CHR '' '') B q in
         if blen B \<le> e then Inl Unterminated
         else if bdat B e = 0 then Inr (Some q, B, Some e)
         else Inr (Some q, B\<lparr>bdat := (bdat B)(e := 0)\<rparr>, Some (e + 1))))"

definition strtok :: "nat option \<Rightarrow> (tokst, nat option) op" where
  "strtok start = (\<lambda>(B, save).
     case (case start of Some i \<Rightarrow> Some i | None \<Rightarrow> save) of
       None \<Rightarrow> Inr (None, B, save)
     | Some i \<Rightarrow> strtok_from i B)"

section \<open>Numbers\<close>

definition is_blank :: "char \<Rightarrow> bool" where
  "is_blank c \<longleftrightarrow> c = CHR '' '' \<or> (9 \<le> (of_char c :: nat) \<and> (of_char c :: nat) \<le> 13)"

definition is_digit :: "char \<Rightarrow> bool" where
  "is_digit c \<longleftrightarrow> 48 \<le> (of_char c :: nat) \<and> (of_char c :: nat) \<le> 57"

definition digit_val :: "char \<Rightarrow> int" where
  "digit_val c = of_char c - 48"

fun digits_val :: "int \<Rightarrow> string \<Rightarrow> int" where
  "digits_val acc [] = acc"
| "digits_val acc (c # cs) = digits_val (10 * acc + digit_val c) cs"

definition sat32 :: "int \<Rightarrow> int" where
  "sat32 n = max (-2147483648) (min 2147483647 n)"

definition atoi :: "string \<Rightarrow> int" where
  "atoi s =
     (let t = dropWhile is_blank s in
      case t of
        [] \<Rightarrow> 0
      | c # cs \<Rightarrow>
          if c = CHR ''-'' then sat32 (- digits_val 0 (takeWhile is_digit cs))
          else if c = CHR ''+'' then sat32 (digits_val 0 (takeWhile is_digit cs))
          else sat32 (digits_val 0 (takeWhile is_digit t)))"

definition atou :: "string \<Rightarrow> u32" where
  "atou s = word_of_int (atoi s)"

fun dec_nat :: "nat \<Rightarrow> string" where
  "dec_nat n = (if n < 10 then [char_of (48 + n)] else dec_nat (n div 10) @ [char_of (48 + n mod 10)])"

declare dec_nat.simps [simp del]

definition dec_int :: "int \<Rightarrow> string" where
  "dec_int i = (if i < 0 then CHR ''-'' # dec_nat (nat (- i)) else dec_nat (nat i))"

section \<open>vsprintf\<close>

datatype varg = VInt u32 | VStr u32 string

definition varg_word :: "varg \<Rightarrow> u32" where
  "varg_word a = (case a of VInt w \<Rightarrow> w | VStr p s \<Rightarrow> p)"

fun vsprintf :: "string \<Rightarrow> varg list \<Rightarrow> string res" where
  "vsprintf [] as = Inr []"
| "vsprintf (c # cs) as =
     (if c \<noteq> CHR ''%'' then map_sum id (Cons c) (vsprintf cs as)
      else (case cs of
          [] \<Rightarrow> Inl Bad_vararg
        | d # ds \<Rightarrow>
            if d = CHR ''%'' then map_sum id (Cons d) (vsprintf ds as)
            else (case as of
                [] \<Rightarrow> Inl Bad_vararg
              | a # as' \<Rightarrow>
                  if d = CHR ''s'' then
                    (case a of VInt w \<Rightarrow> Inl Bad_vararg
                     | VStr p s \<Rightarrow> map_sum id ((@) s) (vsprintf ds as'))
                  else if d = CHR ''i'' \<or> d = CHR ''d'' then
                    map_sum id ((@) (dec_int (sint (varg_word a)))) (vsprintf ds as')
                  else if d = CHR ''u'' then
                    map_sum id ((@) (dec_nat (unat (varg_word a)))) (vsprintf ds as')
                  else if d = CHR '' '' then
                    (case ds of
                       [] \<Rightarrow> Inl Bad_vararg
                     | d' # ds' \<Rightarrow>
                         if d' = CHR ''i'' \<or> d' = CHR ''d'' then
                           map_sum id ((@) ((if sint (varg_word a) < 0 then [] else '' '')
                             @ dec_int (sint (varg_word a)))) (vsprintf ds' as')
                         else Inl Bad_vararg)
                  else Inl Bad_vararg)))"

definition sprintf_buf :: "nat \<Rightarrow> string \<Rightarrow> varg list \<Rightarrow> string res" where
  "sprintf_buf n f as =
     (case vsprintf f as of
        Inl e \<Rightarrow> Inl e
      | Inr s \<Rightarrow> if length s < n then Inr s else Inl Out_of_bounds)"

section \<open>Bytes, characters and blocks\<close>

lemma c2b_b2c [simp]: "c2b (b2c b) = b"
  by (simp add: c2b_def b2c_def of_char_of take_bit_eq_mod word_unat_eq_iff unsigned_of_nat)

lemma b2c_eq_iff [simp]: "b2c a = b2c b \<longleftrightarrow> a = b"
  by (metis c2b_b2c)

lemma b2c_NUL [simp]: "b2c b = NUL \<longleftrightarrow> b = 0"
proof -
  have "b2c 0 = NUL" by (simp add: b2c_def char_of_def)
  then show ?thesis by (metis b2c_eq_iff)
qed

lemma rd8_ok [simp]: "i < blen B \<Longrightarrow> rd8 B i = Inr (bdat B i)"
  by (simp add: rd8_def)

lemma rd16_ok [simp]: "i + 2 \<le> blen B \<Longrightarrow> rd16 B i = Inr (word16 (bdat B i) (bdat B (i + 1)))"
  by (simp add: rd16_def)

lemma rdn_length: "rdn B i n = Inr s \<Longrightarrow> length s = n"
  by (auto simp: rdn_def split: if_splits)

lemma cstr_noNUL: "cstr a = Inr s \<Longrightarrow> NUL \<notin> set s"
  by (auto simp: cstr_def dest: set_takeWhileD split: if_splits)

lemma cstr_length: "cstr a = Inr s \<Longrightarrow> length s < length a"
proof -
  assume "cstr a = Inr s"
  then have "s = takeWhile (\<lambda>c. c \<noteq> NUL) a" and "NUL \<in> set a"
    by (auto simp: cstr_def split: if_splits)
  then have "s \<noteq> a" by (metis set_takeWhileD)
  then show ?thesis
    using \<open>s = takeWhile (\<lambda>c. c \<noteq> NUL) a\<close>
    by (metis length_takeWhile_le le_neq_implies_less takeWhile_eq_take take_all_iff)
qed

lemma cstr_append_NUL [simp]: "NUL \<notin> set s \<Longrightarrow> cstr (s @ NUL # t) = Inr s"
proof -
  assume "NUL \<notin> set s"
  then have "takeWhile (\<lambda>c. c \<noteq> NUL) (s @ NUL # t) = s"
    by (subst takeWhile_append2) auto
  then show ?thesis by (simp add: cstr_def)
qed

lemma strcpy_cstr: "strcpy d s = Inr d' \<Longrightarrow> NUL \<notin> set s \<Longrightarrow> cstr d' = Inr s \<and> length d' = length d"
  by (auto simp: strcpy_def split: if_splits)

section \<open>Decimal round trip\<close>

lemma of_char_digit: "n < 10 \<Longrightarrow> (of_char (char_of (48 + n)) :: nat) = 48 + n" for n :: nat
  by (simp add: of_char_of take_bit_eq_mod)

lemma of_char_digit_int: "n < 10 \<Longrightarrow> (of_char (char_of (48 + n)) :: int) = 48 + int n" for n :: nat
proof -
  assume "n < 10"
  have "(of_char (char_of (48 + n)) :: int) = int (of_char (char_of (48 + n)))"
    by (rule of_nat_of_char [symmetric])
  also have "\<dots> = int (48 + n)"
    using \<open>n < 10\<close> by (simp only: of_char_digit)
  finally show ?thesis by simp
qed

lemma is_digit_char_of: "n < 10 \<Longrightarrow> is_digit (char_of (48 + n))" for n :: nat
  by (simp add: is_digit_def of_char_digit)

lemma digits_val_append: "digits_val a (xs @ ys) = digits_val (digits_val a xs) ys"
  by (induction xs arbitrary: a) auto

lemma dec_nat_digits: "c \<in> set (dec_nat n) \<Longrightarrow> is_digit c"
proof (induction n rule: dec_nat.induct)
  case (1 n)
  show ?case
  proof (cases "n < 10")
    case True
    with "1.prems" show ?thesis
      by (simp add: dec_nat.simps [of n] is_digit_char_of)
  next
    case False
    with 1 show ?thesis
      by (auto simp: dec_nat.simps [of n] is_digit_char_of)
  qed
qed

lemma dec_nat_nonempty [simp]: "dec_nat n \<noteq> []"
  by (subst dec_nat.simps) simp

lemma digits_val_dec_nat: "digits_val 0 (dec_nat n) = int n"
proof (induction n rule: dec_nat.induct)
  case (1 n)
  show ?case
  proof (cases "n < 10")
    case True
    then show ?thesis
      by (simp add: dec_nat.simps [of n] digit_val_def of_char_digit_int)
  next
    case False
    with "1.IH" have "digits_val 0 (dec_nat (n div 10)) = int (n div 10)" by simp
    moreover have "10 * int (n div 10) + int (n mod 10) = int n"
      by (metis mult_div_mod_eq of_nat_add of_nat_mult of_nat_numeral)
    ultimately show ?thesis
      using False by (simp add: dec_nat.simps [of n] digits_val_append digit_val_def of_char_digit_int)
  qed
qed

lemma digit_not_special: "is_digit c \<Longrightarrow> \<not> is_blank c \<and> c \<noteq> CHR ''-'' \<and> c \<noteq> CHR ''+'' \<and> c \<noteq> NUL"
  by (auto simp: is_digit_def is_blank_def)

lemma atoi_digits:
  assumes "\<And>c. c \<in> set s \<Longrightarrow> is_digit c"
  shows "atoi s = sat32 (digits_val 0 s)"
proof (cases s)
  case Nil
  then show ?thesis by (simp add: atoi_def sat32_def)
next
  case (Cons c cs)
  have c: "is_digit c" using assms Cons by simp
  have tw: "takeWhile is_digit cs = cs"
    using assms Cons by (simp add: takeWhile_eq_all_conv)
  show ?thesis
    using digit_not_special [OF c] by (simp add: Cons atoi_def c tw)
qed

lemma atoi_neg:
  assumes "\<And>c. c \<in> set s \<Longrightarrow> is_digit c"
  shows "atoi (CHR ''-'' # s) = sat32 (- digits_val 0 s)"
proof -
  have tw: "takeWhile is_digit s = s"
    using assms by (simp add: takeWhile_eq_all_conv)
  show ?thesis by (simp add: atoi_def is_blank_def tw)
qed

lemma atoi_dec_int: "atoi (dec_int i) = sat32 i"
proof (cases "i < 0")
  case True
  then show ?thesis
    by (simp add: dec_int_def atoi_neg [OF dec_nat_digits] digits_val_dec_nat)
next
  case False
  then show ?thesis
    by (simp add: dec_int_def atoi_digits [OF dec_nat_digits] digits_val_dec_nat)
qed

lemma atoi_range: "-2147483648 \<le> atoi s \<and> atoi s \<le> 2147483647"
  by (auto simp: atoi_def sat32_def Let_def split: list.split)

lemma sat32_id: "-2147483648 \<le> i \<Longrightarrow> i \<le> 2147483647 \<Longrightarrow> sat32 i = i"
  by (simp add: sat32_def)

end
