(* ===== verification/PacketWriter.thy ===== *)
theory PacketWriter
  imports CLib
begin

text \<open>
  The packet buffer, \<open>src/src/commom/packetwriter.cpp\<close>: class \<open>bufwrite\<close> with its size
  counter \<open>S\<close> and its fixed array \<open>D[65355]\<close>. Every member function is an operation on
  the record; a write that leaves the array faults with \<^const>\<open>Out_of_bounds\<close>.

  \<open>AddStr\<close> and \<open>AddData\<close> take the address of their own parameter (\<open>&co\<close>, \<open>&h\<close>)
  where they mean the pointer, so what they copy is the stack memory that starts at that
  parameter. That memory is the argument \<open>frame\<close> of the two operations.

  The locale \<open>packet_buffer\<close> is the interface the packet builders rely on; its lemmas (layout of
  an eight-byte item slot, of a table of slots, of a block copied from a received packet) are used
  by the handlers through the interpretation \<open>bw\<close>.
\<close>

section \<open>Class bufwrite\<close>

record bufwrite =
  bufS :: u32
  bufD :: bytes

definition buf_cap :: nat where
  "buf_cap = 65355"

definition bufwrite_new :: "bytes \<Rightarrow> bufwrite" where
  "bufwrite_new junk = \<lparr>bufS = 0, bufD = junk\<rparr>"

definition bufwrite_from :: "bytes \<Rightarrow> byte list \<Rightarrow> nat \<Rightarrow> bufwrite res" where
  "bufwrite_from junk d s =
     (if length d \<le> s \<or> buf_cap \<le> s + 1 then Inl Out_of_bounds
      else Inr \<lparr>bufS = word_of_nat s,
                bufD = (\<lambda>i. if i \<le> s then d ! i else if i = s + 1 then 0 else junk i)\<rparr>)"

definition psize :: "bufwrite \<Rightarrow> int" where
  "psize b = sint (bufS b)"

definition SetPSize :: "int \<Rightarrow> (bufwrite, unit) op" where
  "SetPSize i = modify (\<lambda>b. b\<lparr>bufS := word_of_int i\<rparr>)"

definition overlay :: "nat \<Rightarrow> byte list \<Rightarrow> bytes \<Rightarrow> bytes" where
  "overlay off bs d = (\<lambda>i. if off \<le> i \<and> i < off + length bs then bs ! (i - off) else d i)"

definition AddByte :: "byte \<Rightarrow> nat \<Rightarrow> (bufwrite, unit) op" where
  "AddByte h off = (\<lambda>b.
     if off < buf_cap
     then Inr ((), b\<lparr>bufD := overlay off [h] (bufD b), bufS := bufS b + 1\<rparr>)
     else Inl Out_of_bounds)"

definition AddWord :: "u16 \<Rightarrow> nat \<Rightarrow> (bufwrite, unit) op" where
  "AddWord h off = (\<lambda>b.
     if off + 2 \<le> buf_cap
     then Inr ((), b\<lparr>bufD := overlay off [byte_of16 h 0, byte_of16 h 1] (bufD b)\<rparr>)
     else Inl Out_of_bounds)"

definition AddDWord :: "u32 \<Rightarrow> nat \<Rightarrow> (bufwrite, unit) op" where
  "AddDWord h off = (\<lambda>b.
     if off + 4 \<le> buf_cap
     then Inr ((), b\<lparr>bufD := overlay off (map (byte_of32 h) [0, 1, 2, 3]) (bufD b)\<rparr>)
     else Inl Out_of_bounds)"

definition AddStr :: "bytes \<Rightarrow> byte list \<Rightarrow> nat \<Rightarrow> (bufwrite, unit) op" where
  "AddStr frame co off = (\<lambda>b.
     if off + length co \<le> buf_cap
     then Inr ((), b\<lparr>bufD := (\<lambda>i. if off \<le> i \<and> i < off + length co then frame (i - off) else bufD b i)\<rparr>)
     else Inl Out_of_bounds)"

definition AddData :: "bytes \<Rightarrow> nat \<Rightarrow> nat \<Rightarrow> (bufwrite, unit) op" where
  "AddData frame off sz = (\<lambda>b.
     if off + sz \<le> buf_cap
     then Inr ((), b\<lparr>bufD := (\<lambda>i. if off \<le> i \<and> i < off + sz then frame (i - off) else bufD b i)\<rparr>)
     else Inl Out_of_bounds)"

definition GetWord :: "u32 \<Rightarrow> nat \<Rightarrow> bufwrite \<Rightarrow> u32 res" where
  "GetWord junk off b =
     (if off + 2 \<le> buf_cap
      then Inr (word32 (bufD b off) (bufD b (off + 1)) (byte_of32 junk 2) (byte_of32 junk 3))
      else Inl Out_of_bounds)"

definition Free :: "(bufwrite, unit) op" where
  "Free = modify (\<lambda>b. b\<lparr>bufD := (\<lambda>i. if i < buf_cap then 0 else bufD b i)\<rparr>)"

text \<open>
  A slot of an item table: the item id as a word, then the three effect/value pairs. The same seven
  calls stand in \<open>SendToWorld\<close>, \<open>SendCharList\<close>, \<open>ResendCharList\<close> and
  \<open>SendNPCSellItems\<close>.
\<close>

definition AddSlot :: "u32 \<Rightarrow> u32 \<Rightarrow> u32 \<Rightarrow> u32 \<Rightarrow> u32 \<Rightarrow> u32 \<Rightarrow> u32 \<Rightarrow> nat \<Rightarrow> (bufwrite, unit) op" where
  "AddSlot itemid add1 val1 add2 val2 add3 val3 off = seqM
     [AddWord (ucast itemid) off,
      AddByte (ucast add1) (off + 2), AddByte (ucast val1) (off + 3),
      AddByte (ucast add2) (off + 4), AddByte (ucast val2) (off + 5),
      AddByte (ucast add3) (off + 6), AddByte (ucast val3) (off + 7)]"

text \<open>The loop \<open>for (i=0;i<n;i++) packet->AddByte(P[i], i)\<close> of the relaying handlers.\<close>

definition AddPrefix :: "cbuf \<Rightarrow> nat \<Rightarrow> (bufwrite, unit) op" where
  "AddPrefix P n = forM_upto n (\<lambda>i. bnd (liftE (rd8 P i)) (\<lambda>x. AddByte x i))"

section \<open>Overlaying bytes\<close>

lemma overlay_nth:
  "overlay off bs d i = (if off \<le> i \<and> i < off + length bs then bs ! (i - off) else d i)"
  by (simp add: overlay_def)

lemma overlay_append:
  "overlay (off + length xs) ys (overlay off xs d) = overlay off (xs @ ys) d"
  by (rule ext) (auto simp: overlay_nth nth_append)

lemma overlay_Nil [simp]: "overlay off [] d = d"
  by (rule ext) (auto simp: overlay_nth)

section \<open>The interface of the packet builders\<close>

locale packet_buffer =
  fixes rd :: "'b \<Rightarrow> bytes"
    and cap :: nat
    and add8 :: "byte \<Rightarrow> nat \<Rightarrow> ('b, unit) op"
    and add16 :: "u16 \<Rightarrow> nat \<Rightarrow> ('b, unit) op"
    and add32 :: "u32 \<Rightarrow> nat \<Rightarrow> ('b, unit) op"
    and clr :: "('b, unit) op"
  assumes add8: "off + 1 \<le> cap \<Longrightarrow> \<exists>b'. add8 h off b = Inr ((), b') \<and> rd b' = overlay off [h] (rd b)"
    and add16: "off + 2 \<le> cap \<Longrightarrow>
      \<exists>b'. add16 w off b = Inr ((), b') \<and> rd b' = overlay off [byte_of16 w 0, byte_of16 w 1] (rd b)"
    and add32: "off + 4 \<le> cap \<Longrightarrow>
      \<exists>b'. add32 v off b = Inr ((), b') \<and> rd b' = overlay off (map (byte_of32 v) [0, 1, 2, 3]) (rd b)"
    and add8_oob: "cap < off + 1 \<Longrightarrow> add8 h off b = Inl Out_of_bounds"
    and add16_oob: "cap < off + 2 \<Longrightarrow> add16 w off b = Inl Out_of_bounds"
    and add32_oob: "cap < off + 4 \<Longrightarrow> add32 v off b = Inl Out_of_bounds"
    and clr: "\<exists>b'. clr b = Inr ((), b') \<and> (\<forall>i < cap. rd b' i = 0)"
begin

lemma add8_run: "off + 1 \<le> cap \<Longrightarrow> (\<And>b'. rd b' = overlay off [h] (rd b) \<Longrightarrow> \<exists>b''. m b' = Inr ((), b'') \<and> Q b'')
    \<Longrightarrow> \<exists>b''. bnd (add8 h off) (\<lambda>_. m) b = Inr ((), b'') \<and> Q b''"
  using add8 [of off h b] by fastforce

lemma add16_run: "off + 2 \<le> cap \<Longrightarrow>
    (\<And>b'. rd b' = overlay off [byte_of16 w 0, byte_of16 w 1] (rd b) \<Longrightarrow> \<exists>b''. m b' = Inr ((), b'') \<and> Q b'')
    \<Longrightarrow> \<exists>b''. bnd (add16 w off) (\<lambda>_. m) b = Inr ((), b'') \<and> Q b''"
  using add16 [of off w b] by fastforce

lemma bytes_run:
  "off + length hs \<le> cap \<Longrightarrow>
    \<exists>b'. seqM (map (\<lambda>k. add8 (hs ! k) (off + k)) [0..<length hs]) b = Inr ((), b')
       \<and> rd b' = overlay off hs (rd b)"
proof (induction hs rule: rev_induct)
  case Nil
  show ?case by (simp add: ret_def)
next
  case (snoc h hs)
  have eq: "map (\<lambda>k. add8 ((hs @ [h]) ! k) (off + k)) [0..<length hs]
      = map (\<lambda>k. add8 (hs ! k) (off + k)) [0..<length hs]"
    by (simp add: nth_append)
  from snoc obtain b1 where b1: "seqM (map (\<lambda>k. add8 (hs ! k) (off + k)) [0..<length hs]) b = Inr ((), b1)"
    and r1: "rd b1 = overlay off hs (rd b)" by auto
  from snoc.prems have "off + length hs + 1 \<le> cap" by simp
  from add8 [OF this, of h b1] obtain b2
    where "add8 h (off + length hs) b1 = Inr ((), b2)" and r2: "rd b2 = overlay (off + length hs) [h] (rd b1)"
    by blast
  then show ?case
    using b1 r1 by (auto simp: seqM_append eq ret_def overlay_append)
qed

text \<open>A word followed by single bytes: the eight bytes of an item slot.\<close>

lemma word_bytes_run:
  assumes "off + 2 + length hs \<le> cap"
  shows "\<exists>b'. seqM (add16 w off # map (\<lambda>k. add8 (hs ! k) (off + 2 + k)) [0..<length hs]) b = Inr ((), b')
       \<and> rd b' = overlay off (byte_of16 w 0 # byte_of16 w 1 # hs) (rd b)"
proof -
  obtain b1 where b1: "add16 w off b = Inr ((), b1)"
    and r1: "rd b1 = overlay off [byte_of16 w 0, byte_of16 w 1] (rd b)"
    using assms add16 [of off w b] by auto
  from assms have "off + 2 + length hs \<le> cap" .
  from bytes_run [OF this, where b = b1] obtain b2
    where "seqM (map (\<lambda>k. add8 (hs ! k) (off + 2 + k)) [0..<length hs]) b1 = Inr ((), b2)"
      and "rd b2 = overlay (off + 2) hs (rd b1)" by blast
  then show ?thesis
    using b1 r1 overlay_append [of off "[byte_of16 w 0, byte_of16 w 1]" hs "rd b"] by simp
qed

text \<open>
  A loop whose \<open>i\<close>-th round lays \<open>k\<close> bytes at \<open>base + k * i\<close> writes a table: byte \<open>j\<close>
  of the table is byte \<open>j mod k\<close> of entry \<open>j div k\<close>, and nothing outside the table changes.
\<close>

lemma table_run:
  assumes entry: "\<And>i b. i < n \<Longrightarrow> \<exists>b'. body i b = Inr ((), b') \<and> rd b' = overlay (base + k * i) (ent i) (rd b)"
    and len: "\<And>i. i < n \<Longrightarrow> length (ent i) = k" and "0 < k"
  shows "\<exists>b'. forM_upto n body b = Inr ((), b') \<and>
    (\<forall>j. rd b' j = (if base \<le> j \<and> j < base + k * n then ent ((j - base) div k) ! ((j - base) mod k) else rd b j))"
  using entry len
proof (induction n)
  case 0
  then show ?case by (auto simp: ret_def)
next
  case (Suc n)
  from Suc obtain b1 where b1: "forM_upto n body b = Inr ((), b1)"
    and r1: "\<And>j. rd b1 j = (if base \<le> j \<and> j < base + k * n then ent ((j - base) div k) ! ((j - base) mod k) else rd b j)"
    by fastforce
  from Suc.prems(1) [of n b1] obtain b2 where b2: "body n b1 = Inr ((), b2)"
    and r2: "rd b2 = overlay (base + k * n) (ent n) (rd b1)" by blast
  have ln: "length (ent n) = k" using Suc.prems(2) by simp
  have "rd b2 j = (if base \<le> j \<and> j < base + k * Suc n then ent ((j - base) div k) ! ((j - base) mod k) else rd b j)" for j
  proof (cases "base + k * n \<le> j \<and> j < base + k * n + k")
    case True
    define t where "t = j - base - k * n"
    have t: "j - base = t + k * n" "t < k" using True by (auto simp: t_def)
    then have "(j - base) div k = n" "(j - base) mod k = t"
      using \<open>0 < k\<close> by (simp_all add: t(1))
    moreover have "j - (base + k * n) = t" using t_def by simp
    ultimately show ?thesis using True ln by (simp add: r2 overlay_nth)
  next
    case False
    then show ?thesis using ln by (auto simp: r1 r2 overlay_nth)
  qed
  then show ?case using b1 b2 by (auto simp: forM_upto_Suc)
qed

lemma add16_roundtrip:
  assumes "off + 2 \<le> cap"
  shows "\<exists>b'. add16 w off b = Inr ((), b') \<and> word16 (rd b' off) (rd b' (off + 1)) = w
     \<and> (\<forall>i. i < off \<or> off + 2 \<le> i \<longrightarrow> rd b' i = rd b i)"
  using add16 [OF assms, of w b] by (auto simp: overlay_nth)

lemma add32_roundtrip:
  assumes "off + 4 \<le> cap"
  shows "\<exists>b'. add32 v off b = Inr ((), b')
     \<and> word32 (rd b' off) (rd b' (off + 1)) (rd b' (off + 2)) (rd b' (off + 3)) = v
     \<and> (\<forall>i. i < off \<or> off + 4 \<le> i \<longrightarrow> rd b' i = rd b i)"
  using add32 [OF assms, of v b] by (auto simp: overlay_nth)

lemma run_ok_iff:
  "(\<exists>b'. add8 h off b = Inr ((), b')) \<longleftrightarrow> off + 1 \<le> cap"
  "(\<exists>b'. add16 w off b = Inr ((), b')) \<longleftrightarrow> off + 2 \<le> cap"
  "(\<exists>b'. add32 v off b = Inr ((), b')) \<longleftrightarrow> off + 4 \<le> cap"
  using add8 [of off h b] add8_oob [of off h b] add16 [of off w b] add16_oob [of off w b]
    add32 [of off v b] add32_oob [of off v b]
  by (metis Inl_Inr_False not_le)+

end

interpretation bw: packet_buffer bufD buf_cap AddByte AddWord AddDWord Free
  by unfold_locales (auto simp: AddByte_def AddWord_def AddDWord_def Free_def modify_def)

section \<open>Laws of the operations\<close>

lemma AddSlot_run:
  assumes "off + 8 \<le> buf_cap"
  shows "\<exists>b'. AddSlot itemid add1 val1 add2 val2 add3 val3 off b = Inr ((), b') \<and>
    bufD b' = overlay off [byte_of16 (ucast itemid) 0, byte_of16 (ucast itemid) 1, ucast add1, ucast val1,
       ucast add2, ucast val2, ucast add3, ucast val3] (bufD b)"
proof -
  have "off + 2 + length [ucast add1, ucast val1, ucast add2, ucast val2, ucast add3, ucast val3] \<le> buf_cap"
    using assms by simp
  from bw.word_bytes_run [OF this, where w = "ucast itemid" and b = b] show ?thesis
    by (simp add: AddSlot_def upt_rec numeral_eq_Suc)
qed

lemma AddPrefix_run:
  assumes "n \<le> blen P" and "n \<le> buf_cap"
  shows "\<exists>b'. AddPrefix P n b = Inr ((), b') \<and> (\<forall>j. bufD b' j = (if j < n then bdat P j else bufD b j))"
proof -
  have "\<exists>b'. bnd (liftE (rd8 P i)) (\<lambda>x. AddByte x i) b = Inr ((), b')
      \<and> bufD b' = overlay (0 + 1 * i) [bdat P i] (bufD b)" if "i < n" for i b
    using that assms bw.add8 [of i "bdat P i" b] by (simp add: liftE_def bnd_def)
  from bw.table_run [where base = 0 and k = 1 and n = n and ent = "\<lambda>i. [bdat P i]", OF this, where b = b]
  show ?thesis by (auto simp: AddPrefix_def)
qed

lemma AddPrefix_short:
  assumes "blen P < n" and "n \<le> buf_cap"
  shows "AddPrefix P n b = Inl Out_of_bounds"
proof -
  obtain m where n: "n = Suc (blen P) + m"
    using assms(1) by (metis less_iff_Suc_add add_Suc)
  have "AddPrefix P (Suc (blen P) + m) b = Inl Out_of_bounds" for m
  proof (induction m)
    case 0
    obtain b' where "AddPrefix P (blen P) b = Inr ((), b')"
      using AddPrefix_run [of "blen P" P b] assms by auto
    then show ?case by (simp add: AddPrefix_def forM_upto_Suc liftE_def rd8_def bnd_def)
  next
    case (Suc m)
    then show ?case by (simp add: AddPrefix_def forM_upto_Suc)
  qed
  then show ?thesis by (simp add: n)
qed

section \<open>Layouts\<close>

text \<open>
  \<open>lays m f\<close>: on every buffer, \<open>m\<close> does not fault and maps the bytes \<open>d\<close> to \<open>f d\<close>. One
  rule per writing operation gives the layout of a whole builder by resolution.
\<close>

definition lays :: "(bufwrite, unit) op \<Rightarrow> (bytes \<Rightarrow> bytes) \<Rightarrow> bool" where
  "lays m f \<longleftrightarrow> (\<forall>b. \<exists>b'. m b = Inr ((), b') \<and> bufD b' = f (bufD b))"

named_theorems lays_rules

lemma laysE:
  assumes "lays m f"
  obtains b' where "m b = Inr ((), b')" "bufD b' = f (bufD b)"
  using assms by (auto simp: lays_def)

lemma lays_AddByte [lays_rules]: "off < 65355 \<Longrightarrow> lays (AddByte h off) (overlay off [h])"
  using bw.add8 by (simp add: lays_def buf_cap_def)

lemma lays_AddWord [lays_rules]:
  "off + 2 \<le> 65355 \<Longrightarrow> lays (AddWord h off) (overlay off [byte_of16 h 0, byte_of16 h 1])"
  using bw.add16 by (simp add: lays_def buf_cap_def)

lemma lays_AddDWord [lays_rules]:
  "off + 4 \<le> 65355 \<Longrightarrow> lays (AddDWord h off) (overlay off (map (byte_of32 h) [0, 1, 2, 3]))"
  using bw.add32 by (simp add: lays_def buf_cap_def)

lemma lays_AddStr:
  "off + length co \<le> 65355 \<Longrightarrow> lays (AddStr fr co off) (overlay off (map fr [0..<length co]))"
  by (auto simp: lays_def AddStr_def buf_cap_def overlay_def fun_eq_iff)

lemma lays_AddData [lays_rules]:
  "off + n \<le> 65355 \<Longrightarrow> lays (AddData fr off n) (overlay off (map fr [0..<n]))"
  by (auto simp: lays_def AddData_def buf_cap_def overlay_def fun_eq_iff)

lemma lays_Free [lays_rules]: "lays Free (\<lambda>d i. if i < 65355 then 0 else d i)"
  by (simp add: lays_def Free_def modify_def buf_cap_def)

lemma lays_ret [lays_rules]: "lays (ret ()) (\<lambda>d. d)"
  by (simp add: lays_def)

lemma lays_whenM: "(b \<Longrightarrow> lays m f) \<Longrightarrow> lays (whenM b m) (if b then f else (\<lambda>d. d))"
  by (simp add: lays_def whenM_def)

lemma lays_seqM_Nil [lays_rules]: "lays (seqM []) (\<lambda>d. d)"
  by (simp add: lays_def)

lemma lays_seqM_Cons [lays_rules]:
  "lays m f \<Longrightarrow> lays (seqM ms) g \<Longrightarrow> lays (seqM (m # ms)) (\<lambda>d. g (f d))"
proof -
  assume m: "lays m f" and ms: "lays (seqM ms) g"
  show ?thesis
    unfolding lays_def
  proof
    fix b
    obtain b1 where "m b = Inr ((), b1)" "bufD b1 = f (bufD b)" using m by (rule laysE)
    moreover obtain b2 where "seqM ms b1 = Inr ((), b2)" "bufD b2 = g (bufD b1)" using ms by (rule laysE)
    ultimately show "\<exists>b'. seqM (m # ms) b = Inr ((), b') \<and> bufD b' = g (f (bufD b))" by simp
  qed
qed

definition fill_table :: "nat \<Rightarrow> nat \<Rightarrow> nat \<Rightarrow> (nat \<Rightarrow> byte list) \<Rightarrow> bytes \<Rightarrow> bytes" where
  "fill_table base k n ent d = (\<lambda>j.
     if base \<le> j \<and> j < base + k * n then ent ((j - base) div k) ! ((j - base) mod k) else d j)"

lemma lays_table:
  assumes "\<And>i. i < n \<Longrightarrow> lays (body i) (overlay (base + k * i) (ent i))"
    and "\<And>i. i < n \<Longrightarrow> length (ent i) = k" and "0 < k"
  shows "lays (forM_upto n body) (fill_table base k n ent)"
  unfolding lays_def
proof
  fix b
  have "\<exists>b'. body i b = Inr ((), b') \<and> bufD b' = overlay (base + k * i) (ent i) (bufD b)" if "i < n" for i b
    using assms(1) [OF that] by (auto simp: lays_def)
  from bw.table_run [where n = n and b = b, OF this assms(2,3)] show
    "\<exists>b'. forM_upto n body b = Inr ((), b') \<and> bufD b' = fill_table base k n ent (bufD b)"
    by (auto simp: fill_table_def fun_eq_iff)
qed

lemma lays_byte_run [lays_rules]:
  "base + n \<le> 65355 \<Longrightarrow> lays (forM_upto n (\<lambda>k. AddByte (h k) (base + k))) (fill_table base 1 n (\<lambda>k. [h k]))"
  by (rule lays_table) (simp_all add: lays_AddByte)

lemma lays_word_run [lays_rules]:
  "base + 2 * n \<le> 65355 \<Longrightarrow> lays (forM_upto n (\<lambda>k. AddWord (h k) (2 * k + base)))
     (fill_table base 2 n (\<lambda>k. [byte_of16 (h k) 0, byte_of16 (h k) 1]))"
proof (rule lays_table)
  fix i assume "i < n" "base + 2 * n \<le> 65355"
  then show "lays (AddWord (h i) (2 * i + base)) (overlay (base + 2 * i) [byte_of16 (h i) 0, byte_of16 (h i) 1])"
    using lays_AddWord [of "2 * i + base" "h i"] by (simp add: add.commute)
qed simp_all

lemma lays_AddSlot [lays_rules]:
  "off + 8 \<le> 65355 \<Longrightarrow> lays (AddSlot itemid add1 val1 add2 val2 add3 val3 off)
     (overlay off [byte_of16 (ucast itemid) 0, byte_of16 (ucast itemid) 1, ucast add1, ucast val1,
       ucast add2, ucast val2, ucast add3, ucast val3])"
  using AddSlot_run by (simp add: lays_def buf_cap_def)

lemma lays_AddPrefix [lays_rules]:
  "n \<le> blen P \<Longrightarrow> n \<le> 65355 \<Longrightarrow> lays (AddPrefix P n) (\<lambda>d j. if j < n then bdat P j else d j)"
  unfolding lays_def using AddPrefix_run by (fastforce simp: buf_cap_def fun_eq_iff)

lemma lays_relay_byte [lays_rules]:
  "i < blen P \<Longrightarrow> off < 65355 \<Longrightarrow> lays (bnd (liftE (rd8 P i)) (\<lambda>x. AddByte x off)) (overlay off [bdat P i])"
  using lays_AddByte [of off "bdat P i"] by (simp add: lays_def liftE_def bnd_def)

text \<open>Reading the fields of a buffer and of a plain text.\<close>

definition w16 :: "bytes \<Rightarrow> nat \<Rightarrow> u16" where
  "w16 d i = word16 (d i) (d (Suc i))"

definition w32 :: "bytes \<Rightarrow> nat \<Rightarrow> u32" where
  "w32 d i = word32 (d i) (d (i + 1)) (d (i + 2)) (d (i + 3))"

definition le16 :: "byte list \<Rightarrow> nat \<Rightarrow> u16" where
  "le16 p i = word16 (p ! i) (p ! Suc i)"

definition le32 :: "byte list \<Rightarrow> nat \<Rightarrow> u32" where
  "le32 p i = word32 (p ! i) (p ! (i + 1)) (p ! (i + 2)) (p ! (i + 3))"

lemma le16_map: "Suc i < n \<Longrightarrow> le16 (map d [0..<n]) i = w16 d i"
  by (simp add: le16_def w16_def)

lemma le32_map: "i + 3 < n \<Longrightarrow> le32 (map d [0..<n]) i = w32 d i"
  by (simp add: le32_def w32_def)

lemmas layout_simps = w16_def w32_def overlay_nth fill_table_def

section \<open>Properties\<close>

lemma low_word: "(ucast (word32 b0 b1 b2 b3) :: u16) = word16 b0 b1"
proof -
  have "unat (ucast (word32 b0 b1 b2 b3) :: u16) = unat (word32 b0 b1 b2 b3) mod 65536"
    by (simp add: unsigned_ucast_eq take_bit_eq_mod)
  also have "unat (word32 b0 b1 b2 b3) = unat b0 + 256 * unat b1 + 65536 * (unat b2 + 256 * unat b3)"
    by (simp add: unat_word32)
  also have "\<dots> mod 65536 = (unat b0 + 256 * unat b1) mod 65536" by (rule mod_mult_self2)
  also have "\<dots> = unat (word16 b0 b1)"
    by (metis unat_word16 mod_less unat16_less)
  finally show ?thesis by (simp add: word_unat_eq_iff)
qed

text \<open>
  Round trip of a word through the buffer: what \<open>AddWord\<close> stores, \<open>GetWord\<close> returns in the
  low half of its result, and no other byte of the buffer changes.
\<close>

lemma word_roundtrip:
  assumes "off + 2 \<le> buf_cap"
  shows "\<exists>b'. AddWord w off b = Inr ((), b') \<and> (\<forall>junk. \<exists>v. GetWord junk off b' = Inr v \<and> ucast v = w) \<and>
    (\<forall>i. i < off \<or> off + 2 \<le> i \<longrightarrow> bufD b' i = bufD b i)"
  using bw.add16_roundtrip [OF assms, of w b] assms by (auto simp: GetWord_def low_word)

text \<open>
  The upper half of \<open>GetWord\<close>'s result is the uninitialised upper half of its local variable:
  the call returns the stored word as a number only when that memory happens to be zero.
\<close>

lemma GetWord_upper_half:
  assumes "off + 2 \<le> buf_cap" and "GetWord junk off b = Inr v"
  shows "v = ucast (word16 (bufD b off) (bufD b (off + 1))) \<longleftrightarrow> byte_of32 junk 2 = 0 \<and> byte_of32 junk 3 = 0"
proof -
  let ?l = "word16 (bufD b off) (bufD b (off + 1))"
  have v: "unat v = unat (bufD b off) + 256 * unat (bufD b (off + 1)) + 65536 * unat (byte_of32 junk 2) +
      16777216 * unat (byte_of32 junk 3)"
    using assms by (auto simp: GetWord_def unat_word32)
  have "v = ucast ?l \<longleftrightarrow> unat v = unat ?l"
    by (metis unat_ucast16_32 word_unat_eq_iff)
  also have "\<dots> \<longleftrightarrow> unat (byte_of32 junk 2) = 0 \<and> unat (byte_of32 junk 3) = 0"
    unfolding v unat_word16 by simp
  also have "\<dots> \<longleftrightarrow> byte_of32 junk 2 = 0 \<and> byte_of32 junk 3 = 0" by (simp only: word_unat_eq_iff unsigned_0)
  finally show ?thesis .
qed

text \<open>
  \<open>AddStr\<close> does not copy its text: strings of the same length leave the same buffer, and the
  bytes stored are those of the caller's stack.
\<close>

lemma AddStr_ignores_text:
  assumes "length s = length t" and "off + length s \<le> buf_cap"
  shows "AddStr frame s off b = AddStr frame t off b \<and>
    (\<exists>b'. AddStr frame s off b = Inr ((), b') \<and> (\<forall>k < length s. bufD b' (off + k) = frame k))"
  using assms by (simp add: AddStr_def)

text \<open>
  A write succeeds exactly when it lies inside the array of 65355 bytes; otherwise it is an
  access out of bounds, which the class does not check.
\<close>

lemma write_bounds:
  "((\<exists>b'. AddByte h off b = Inr ((), b')) \<longleftrightarrow> off + 1 \<le> buf_cap) \<and>
   ((\<exists>b'. AddWord w off b = Inr ((), b')) \<longleftrightarrow> off + 2 \<le> buf_cap) \<and>
   ((\<exists>b'. AddDWord v off b = Inr ((), b')) \<longleftrightarrow> off + 4 \<le> buf_cap)"
  using bw.run_ok_iff(1) [of h off b] bw.run_ok_iff(2) [of w off b] bw.run_ok_iff(3) [of v off b] by blast

text \<open>
  The eight bytes of an item slot: the item id in the first word, then the three effects with
  their values, and nothing outside the slot changes.
\<close>

lemma item_slot_layout:
  assumes "off + 8 \<le> buf_cap"
  shows "\<exists>b'. AddSlot i a1 v1 a2 v2 a3 v3 off b = Inr ((), b') \<and> w16 (bufD b') off = ucast i \<and>
    map (\<lambda>k. bufD b' (off + k)) [2, 3, 4, 5, 6, 7] = [ucast a1, ucast v1, ucast a2, ucast v2, ucast a3, ucast v3] \<and>
    (\<forall>j. j < off \<or> off + 8 \<le> j \<longrightarrow> bufD b' j = bufD b j)"
  using AddSlot_run [OF assms, of i a1 v1 a2 v2 a3 v3 b] by (auto simp: layout_simps)

end
