(* ===== verification/Float32.thy ===== *)
theory Float32
  imports Complex_Main "HOL-Library.Log_Nat" Prelude
begin

text \<open>
  IEEE-754 arithmetic as far as the game server uses it: \<open>float\<close> positions, distances and the
  walking interpolation. A value is a rational or one of the three special values; every operation
  rounds its exact result to nearest, ties to even, in the precision of the C++ type
  (\<open>to_f32\<close>: 24 bits, \<open>to_f64\<close>: 53 bits), with overflow to infinity and gradual underflow.
  Expressions of type \<open>float\<close> are evaluated in single precision. The sign of a zero is not
  kept: no branch of the program depends on it.

  The lemmas show that integers below \<open>2^24\<close> are exact and that comparing a rounded square root
  with an integer radius is comparing the exact squares.
\<close>

section \<open>Rounding\<close>

datatype flt = Fin rat | PInf | NInf | NaN

definition pow2 :: "int \<Rightarrow> rat" where
  "pow2 e = (if 0 \<le> e then 2 ^ nat e else 1 / 2 ^ nat (- e))"

definition flog2 :: "rat \<Rightarrow> int" where
  "flog2 x =
     (let (p, q) = quotient_of x; k = bitlen p - bitlen q
      in if pow2 k \<le> x then k else k - 1)"

definition round_even :: "rat \<Rightarrow> int" where
  "round_even q =
     (let f = \<lfloor>q\<rfloor>; d = q - of_int f
      in if d < 1 / 2 then f else if 1 / 2 < d then f + 1 else if even f then f else f + 1)"

definition rnd :: "int \<Rightarrow> int \<Rightarrow> rat \<Rightarrow> rat" where
  "rnd prec emin x =
     (if x = 0 then 0
      else let u = pow2 (max (flog2 \<bar>x\<bar>) emin - (prec - 1)) in of_int (round_even (x / u)) * u)"

definition overflow :: "int \<Rightarrow> rat \<Rightarrow> flt" where
  "overflow emax y = (if pow2 emax \<le> y then PInf else if y \<le> - pow2 emax then NInf else Fin y)"

definition to_f32 :: "rat \<Rightarrow> flt" where
  "to_f32 x = overflow 128 (rnd 24 (-126) x)"

definition to_f64 :: "rat \<Rightarrow> flt" where
  "to_f64 x = overflow 1024 (rnd 53 (-1022) x)"

section \<open>Operations\<close>

fun f_neg :: "flt \<Rightarrow> flt" where
  "f_neg (Fin a) = Fin (- a)"
| "f_neg PInf = NInf"
| "f_neg NInf = PInf"
| "f_neg NaN = NaN"

fun f_add :: "flt \<Rightarrow> flt \<Rightarrow> flt" where
  "f_add (Fin a) (Fin b) = to_f32 (a + b)"
| "f_add NaN b = NaN"
| "f_add a NaN = NaN"
| "f_add PInf NInf = NaN"
| "f_add NInf PInf = NaN"
| "f_add PInf b = PInf"
| "f_add NInf b = NInf"
| "f_add a PInf = PInf"
| "f_add a NInf = NInf"

definition f_sub :: "flt \<Rightarrow> flt \<Rightarrow> flt" where
  "f_sub a b = f_add a (f_neg b)"

fun f_sgn :: "flt \<Rightarrow> rat" where
  "f_sgn (Fin a) = sgn a"
| "f_sgn PInf = 1"
| "f_sgn NInf = - 1"
| "f_sgn NaN = 0"

definition f_inf :: "rat \<Rightarrow> flt" where
  "f_inf s = (if 0 < s then PInf else if s < 0 then NInf else NaN)"

fun f_mul :: "flt \<Rightarrow> flt \<Rightarrow> flt" where
  "f_mul (Fin a) (Fin b) = to_f32 (a * b)"
| "f_mul a b = (if a = NaN \<or> b = NaN then NaN else f_inf (f_sgn a * f_sgn b))"

fun f_div :: "flt \<Rightarrow> flt \<Rightarrow> flt" where
  "f_div (Fin a) (Fin b) = (if b = 0 then f_inf (sgn a) else to_f32 (a / b))"
| "f_div (Fin a) PInf = Fin 0"
| "f_div (Fin a) NInf = Fin 0"
| "f_div PInf (Fin b) = (if b < 0 then NInf else PInf)"
| "f_div NInf (Fin b) = (if b < 0 then PInf else NInf)"
| "f_div a b = NaN"

function isqrt :: "nat \<Rightarrow> nat" where
  "isqrt n =
     (if n = 0 then 0
      else let r = 2 * isqrt (n div 4) in if (r + 1) * (r + 1) \<le> n then r + 1 else r)"
  by pat_completeness auto
termination
  by (relation "measure id") auto

declare isqrt.simps [simp del]

fun f_sqrt :: "flt \<Rightarrow> flt" where
  "f_sqrt (Fin x) =
     (if x < 0 then NaN else if x = 0 then Fin 0
      else let u = pow2 (flog2 x div 2 - 23); y = x / (u * u); s = isqrt (nat \<lfloor>y\<rfloor>);
               h = (of_nat s + 1 / 2) * (of_nat s + 1 / 2)
           in Fin ((if h < y \<or> (h = y \<and> odd s) then of_nat s + 1 else of_nat s) * u))"
| "f_sqrt PInf = PInf"
| "f_sqrt NInf = NaN"
| "f_sqrt NaN = NaN"

fun f_less :: "flt \<Rightarrow> flt \<Rightarrow> bool" where
  "f_less (Fin a) (Fin b) \<longleftrightarrow> a < b"
| "f_less NaN b \<longleftrightarrow> False"
| "f_less a NaN \<longleftrightarrow> False"
| "f_less PInf b \<longleftrightarrow> False"
| "f_less a NInf \<longleftrightarrow> False"
| "f_less a b \<longleftrightarrow> True"

definition f_eq :: "flt \<Rightarrow> flt \<Rightarrow> bool" where
  "f_eq a b \<longleftrightarrow> a \<noteq> NaN \<and> a = b"

definition f_le :: "flt \<Rightarrow> flt \<Rightarrow> bool" where
  "f_le a b \<longleftrightarrow> f_less a b \<or> f_eq a b"

definition f_of_int :: "int \<Rightarrow> flt" where
  "f_of_int n = to_f32 (of_int n)"

definition f_trunc :: "flt \<Rightarrow> u32" where
  "f_trunc a =
     (case a of
        Fin x \<Rightarrow> (let t = (if x < 0 then \<lceil>x\<rceil> else \<lfloor>x\<rfloor>) in
                   if -2147483648 \<le> t \<and> t < 2147483648 then word_of_int t else 2147483648)
      | _ \<Rightarrow> 2147483648)"

section \<open>Powers of two and the binary logarithm\<close>

lemma pow2_powi: "pow2 e = 2 powi e"
  by (simp add: pow2_def power_int_def inverse_eq_divide power_divide)

lemma pow2_pos [simp]: "0 < pow2 e"
  by (simp add: pow2_def)

lemma pow2_add: "pow2 (a + b) = pow2 a * pow2 b"
  by (simp add: pow2_powi power_int_add)

lemma pow2_less_mono: "a < b \<Longrightarrow> pow2 a < pow2 b"
  by (simp add: pow2_powi power_int_strict_increasing)

lemma pow2_less_iff [simp]: "pow2 a < pow2 b \<longleftrightarrow> a < b"
  by (metis pow2_less_mono less_asym less_linear)

lemma pow2_le_iff [simp]: "pow2 a \<le> pow2 b \<longleftrightarrow> a \<le> b"
  by (simp flip: not_less)

lemma pow2_nat: "0 \<le> e \<Longrightarrow> pow2 e = of_int (2 ^ nat e)"
  by (simp add: pow2_def)

lemma isqrt_bounds: "isqrt n * isqrt n \<le> n \<and> n < (isqrt n + 1) * (isqrt n + 1)"
proof (induction n rule: isqrt.induct)
  case (1 n)
  show ?case
  proof (cases "n = 0")
    case True
    then show ?thesis by (simp add: isqrt.simps)
  next
    case False
    define q where "q = isqrt (n div 4)"
    have "q * q \<le> n div 4" "n div 4 < (q + 1) * (q + 1)"
      using "1.IH" False by (simp_all add: q_def)
    then have "4 * (q * q) \<le> n" "n < 4 * ((q + 1) * (q + 1))" by linarith+
    moreover have "isqrt n = (if (2 * q + 1) * (2 * q + 1) \<le> n then 2 * q + 1 else 2 * q)"
      using False by (subst isqrt.simps) (simp add: q_def Let_def)
    ultimately show ?thesis by (auto simp: algebra_simps)
  qed
qed


lemma flog2_bounds:
  assumes "0 < x"
  shows "pow2 (flog2 x) \<le> x" and "x < pow2 (flog2 x + 1)"
proof -
  obtain p q where pq: "quotient_of x = (p, q)" by force
  have q: "0 < q" using pq by (rule quotient_of_denom_pos)
  have x: "x = of_int p / of_int q" using pq by (rule quotient_of_div)
  have p: "0 < p" using assms x q by (simp add: zero_less_divide_iff)
  let ?a = "bitlen p" and ?b = "bitlen q"
  have a: "1 \<le> ?a"
    using p bitlen_eq_zero_iff [of p] bitlen_nonneg [of p] by linarith
  have b: "1 \<le> ?b"
    using q bitlen_eq_zero_iff [of q] bitlen_nonneg [of q] by linarith
  have "2 ^ nat (?a - 1) \<le> p" "p < 2 ^ nat ?a" "2 ^ nat (?b - 1) \<le> q" "q < 2 ^ nat ?b"
    using bitlen_bounds [OF p] bitlen_bounds [OF q] by simp_all
  then have P: "pow2 (?a - 1) \<le> of_int p" "of_int p < pow2 ?a"
    and Q: "pow2 (?b - 1) \<le> of_int q" "of_int q < pow2 ?b"
    using a b by (simp_all only: pow2_nat of_int_le_iff of_int_less_iff)
  have up: "x < pow2 (?a - ?b + 1)"
  proof -
    have "pow2 ?a = pow2 (?a - ?b + 1) * pow2 (?b - 1)"
      by (simp flip: pow2_add)
    also have "\<dots> \<le> pow2 (?a - ?b + 1) * of_int q"
      using Q(1) by (intro mult_left_mono) (simp_all add: less_imp_le)
    finally have "of_int p < pow2 (?a - ?b + 1) * of_int q"
      using P(2) by linarith
    then show ?thesis using q by (simp add: x divide_less_eq)
  qed
  have lo: "pow2 (?a - ?b - 1) \<le> x"
  proof -
    have "pow2 (?a - ?b - 1) * of_int q \<le> pow2 (?a - ?b - 1) * pow2 ?b"
      using Q(2) by (intro mult_left_mono) (simp_all add: less_imp_le)
    also have "\<dots> = pow2 (?a - 1)"
      by (simp flip: pow2_add)
    finally have "pow2 (?a - ?b - 1) * of_int q \<le> of_int p"
      using P(1) by linarith
    then show ?thesis using q by (simp add: x le_divide_eq)
  qed
  show "pow2 (flog2 x) \<le> x" and "x < pow2 (flog2 x + 1)"
    using up lo by (auto simp: flog2_def pq Let_def)
qed

section \<open>Integers are exact\<close>

lemma round_even_int [simp]: "round_even (of_int n) = n"
  by (simp add: round_even_def)

lemma flog2_int_range:
  assumes "n \<noteq> 0" and "\<bar>n\<bar> < 16777216"
  shows "0 \<le> flog2 \<bar>of_int n\<bar>" and "flog2 \<bar>of_int n\<bar> \<le> 23"
proof -
  have pos: "0 < \<bar>of_int n :: rat\<bar>" using assms by simp
  have "(1 :: int) \<le> \<bar>n\<bar>" using assms by simp
  then have one: "pow2 0 \<le> \<bar>of_int n\<bar>"
    by (simp add: pow2_def)
  have "of_int \<bar>n\<bar> < (of_int 16777216 :: rat)"
    using assms(2) by (simp only: of_int_less_iff)
  then have top: "\<bar>of_int n\<bar> < pow2 24"
    by (simp add: pow2_def)
  have "pow2 0 < pow2 (flog2 \<bar>of_int n\<bar> + 1)"
    using one flog2_bounds(2) [OF pos] by (rule order_le_less_trans)
  then show "0 \<le> flog2 \<bar>of_int n\<bar>" by simp
  have "pow2 (flog2 \<bar>of_int n\<bar>) < pow2 24"
    using flog2_bounds(1) [OF pos] top by (rule order_le_less_trans)
  then show "flog2 \<bar>of_int n\<bar> \<le> 23" by simp
qed

lemma rnd_int: "\<bar>n\<bar> < 16777216 \<Longrightarrow> rnd 24 (-126) (of_int n) = of_int n"
proof (cases "n = 0")
  case True
  then show ?thesis by (simp add: rnd_def)
next
  case False
  assume n: "\<bar>n\<bar> < 16777216"
  define k where "k = nat (23 - flog2 \<bar>of_int n\<bar>)"
  have "0 \<le> flog2 \<bar>of_int n\<bar>" "flog2 \<bar>of_int n\<bar> \<le> 23"
    using False n by (rule flog2_int_range)+
  then have "pow2 (max (flog2 \<bar>of_int n\<bar>) (-126) - (24 - 1)) = 1 / 2 ^ k"
    by (cases "flog2 \<bar>of_int n\<bar> = 23") (simp_all add: pow2_def k_def)
  moreover have "of_int n / (1 / 2 ^ k) = (of_int (n * 2 ^ k) :: rat)"
    by simp
  ultimately show ?thesis
    using False by (simp only: rnd_def Let_def round_even_int) simp
qed

lemma to_f32_int: "\<bar>n\<bar> < 16777216 \<Longrightarrow> to_f32 (of_int n) = Fin (of_int n)"
proof -
  assume n: "\<bar>n\<bar> < 16777216"
  have "pow2 128 = of_int (2 ^ 128)" by (simp add: pow2_def)
  moreover have "n < 2 ^ 128" "- (2 ^ 128) < n" using n by simp_all
  ultimately have "\<not> pow2 128 \<le> of_int n" "\<not> of_int n \<le> - pow2 128"
    by (simp_all only: of_int_le_iff not_le of_int_less_iff flip: of_int_minus)
  then show ?thesis using n by (simp add: to_f32_def overflow_def rnd_int)
qed

section \<open>Comparing a rounded square root\<close>

text \<open>
  The integer core: \<open>s\<close> is the integer square root of \<open>N = n 4^k\<close>, rounded up only when it
  reaches the middle of its unit; then it stays below \<open>K = R 2^k\<close> exactly when \<open>n < R^2\<close>.
\<close>

lemma rounded_isqrt_less:
  fixes n R s :: int
  assumes s: "0 \<le> s" "s * s \<le> n * 4 ^ k" "n * 4 ^ k < (s + 1) * (s + 1)"
    and C: "C \<Longrightarrow> (2 * s + 1) * (2 * s + 1) \<le> 4 * (n * 4 ^ k)" and R: "0 < R" "R \<le> 2 ^ k"
  shows "(if C then s + 1 else s) < R * 2 ^ k \<longleftrightarrow> n < R * R"
proof -
  define K where "K = R * 2 ^ k"
  define N where "N = n * 4 ^ k"
  have K0: "0 < K" using R by (simp add: K_def)
  have KK: "K * K = R * R * 4 ^ k" by (simp add: K_def algebra_simps flip: power_mult_distrib)
  have "K \<le> 2 ^ k * 2 ^ k" unfolding K_def using R by (intro mult_right_mono) simp_all
  then have K: "K \<le> 4 ^ k" by (simp flip: power_mult_distrib)
  show ?thesis
  proof
    assume "(if C then s + 1 else s) < R * 2 ^ k"
    then have "s + 1 \<le> K" by (auto simp: K_def split: if_splits)
    then have "N < K * K"
      using s mult_mono [of "s + 1" K "s + 1" K] by (simp add: N_def)
    then show "n < R * R" by (simp add: N_def KK)
  next
    assume "n < R * R"
    then have "N \<le> (R * R - 1) * 4 ^ k"
      unfolding N_def by (intro mult_right_mono) simp_all
    then have N: "N \<le> K * K - 4 ^ k" by (simp add: KK algebra_simps)
    have "s < K"
    proof (rule ccontr)
      assume "\<not> s < K"
      then have "K * K \<le> s * s" using K0 by (intro mult_mono) simp_all
      then show False using s(2) N K0 K by (simp add: N_def)
    qed
    moreover have "s \<noteq> K - 1" if C
    proof
      assume "s = K - 1"
      then have "(2 * K - 1) * (2 * K - 1) \<le> 4 * N" using C [OF that] by (simp add: N_def)
      then show False using N K by (simp add: algebra_simps)
    qed
    ultimately show "(if C then s + 1 else s) < R * 2 ^ k" by (auto simp: K_def)
  qed
qed

lemma f_sqrt_less:
  assumes n: "0 < n" "n < 16777216" and R: "0 < R" "R \<le> 4096"
  shows "f_less (f_sqrt (Fin (of_int n))) (Fin (of_int R)) \<longleftrightarrow> n < R * R"
proof -
  define e where "e = flog2 (of_int n) div 2"
  define k where "k = nat (23 - e)"
  define N where "N = n * 4 ^ k"
  have "0 \<le> flog2 (of_int n)" "flog2 (of_int n) \<le> 23"
    using flog2_int_range [of n] n by simp_all
  then have e: "0 \<le> e" "e \<le> 11" by (simp_all add: e_def)
  then have k: "12 \<le> k" "e - 23 = - int k" by (simp_all add: k_def)
  have u: "pow2 (e - 23) = 1 / 2 ^ k"
    using k by (simp add: pow2_def)
  have y: "of_int n / (pow2 (e - 23) * pow2 (e - 23)) = (of_int N :: rat)"
    by (simp add: u N_def flip: power_mult_distrib)
  define s where "s = isqrt (nat N)"
  have "0 \<le> N" using n by (simp add: N_def)
  then have "int (s * s) \<le> N" "N < int ((s + 1) * (s + 1))"
    using isqrt_bounds [of "nat N"] by (simp_all only: s_def flip: le_nat_iff nat_less_iff)
  then have s: "int s * int s \<le> N" "N < (int s + 1) * (int s + 1)"
    by (simp_all add: algebra_simps)
  define C where "C \<longleftrightarrow> (of_nat s + 1 / 2) * (of_nat s + 1 / 2) < (of_int N :: rat)
      \<or> ((of_nat s + 1 / 2) * (of_nat s + 1 / 2) = (of_int N :: rat) \<and> odd s)"
  define r where "r = (if C then int s + 1 else int s)"
  have C: "(2 * int s + 1) * (2 * int s + 1) \<le> 4 * N" if C
  proof -
    from that have "(of_nat s + 1 / 2) * (of_nat s + 1 / 2) \<le> (of_int N :: rat)"
      by (auto simp: C_def)
    then have "(of_int ((2 * int s + 1) * (2 * int s + 1)) :: rat) \<le> of_int (4 * N)"
      by (simp add: algebra_simps)
    then show ?thesis by (simp only: of_int_le_iff)
  qed
  have "f_sqrt (Fin (of_int n)) = Fin (of_int r / 2 ^ k)"
    using n y u by (simp add: Let_def r_def C_def s_def flip: e_def)
  then have "f_less (f_sqrt (Fin (of_int n))) (Fin (of_int R)) \<longleftrightarrow> (of_int r :: rat) < of_int (R * 2 ^ k)"
    by (simp add: divide_less_eq)
  also have "\<dots> \<longleftrightarrow> r < R * 2 ^ k" by (simp only: of_int_less_iff)
  also have "\<dots> \<longleftrightarrow> n < R * R"
    unfolding r_def using s C R k(1) power_increasing [of 12 k "2 :: int"]
    by (intro rounded_isqrt_less) (auto simp: N_def)
  finally show ?thesis .
qed

section \<open>Rounding stays in range\<close>

lemma round_even_near: "\<bar>of_int (round_even q) - q\<bar> \<le> 1"
  by (auto simp: round_even_def Let_def abs_le_iff) linarith+

lemma rnd_bound:
  assumes "1 \<le> prec"
  shows "\<bar>rnd prec emin x\<bar> \<le> 2 * \<bar>x\<bar> + pow2 emin"
proof (cases "x = 0")
  case True
  then show ?thesis by (simp add: rnd_def less_imp_le)
next
  case False
  define u where "u = pow2 (max (flog2 \<bar>x\<bar>) emin - (prec - 1))"
  have u0: "0 < u" by (simp add: u_def)
  have "pow2 (flog2 \<bar>x\<bar>) \<le> \<bar>x\<bar>" using flog2_bounds [of "\<bar>x\<bar>"] False by simp
  moreover have "u \<le> pow2 (max (flog2 \<bar>x\<bar>) emin)" using assms by (simp add: u_def)
  moreover have "pow2 (max (flog2 \<bar>x\<bar>) emin) \<le> pow2 (flog2 \<bar>x\<bar>) + pow2 emin"
    using pow2_pos [of emin] pow2_pos [of "flog2 \<bar>x\<bar>"] by (simp add: max_def less_imp_le)
  ultimately have u: "u \<le> \<bar>x\<bar> + pow2 emin" by linarith
  have "\<bar>of_int (round_even (x / u)) * u - x\<bar> = \<bar>of_int (round_even (x / u)) - x / u\<bar> * u"
    using u0 by (simp add: abs_mult_pos left_diff_distrib)
  also have "\<dots> \<le> 1 * u"
    using round_even_near u0 by (intro mult_right_mono) auto
  finally have "\<bar>of_int (round_even (x / u)) * u - x\<bar> \<le> u" by simp
  moreover have "rnd prec emin x = of_int (round_even (x / u)) * u"
    using False by (simp add: rnd_def u_def Let_def)
  ultimately show ?thesis using u by linarith
qed

lemma to_f32_finite:
  assumes "\<bar>x\<bar> \<le> 2 ^ 64"
  shows "\<exists>y. to_f32 x = Fin y"
proof -
  have "\<bar>rnd 24 (-126) x\<bar> \<le> 2 * \<bar>x\<bar> + pow2 (-126)" by (rule rnd_bound) simp
  moreover have "pow2 (-126) < 1" "2 ^ 65 + 1 < pow2 128" by (simp_all add: pow2_def)
  ultimately have "\<bar>rnd 24 (-126) x\<bar> < pow2 128" using assms by simp
  then show ?thesis by (auto simp: to_f32_def overflow_def)
qed

lemma to_f64_finite:
  assumes "\<bar>x\<bar> \<le> 2 ^ 64"
  shows "\<exists>y. to_f64 x = Fin y"
proof -
  have "\<bar>rnd 53 (-1022) x\<bar> \<le> 2 * \<bar>x\<bar> + pow2 (-1022)" by (rule rnd_bound) simp
  moreover have "pow2 (-1022) < pow2 0" "pow2 66 < pow2 1024" by (simp_all only: pow2_less_iff)
  moreover have "pow2 0 = 1" "pow2 66 = 2 ^ 66" by (simp_all add: pow2_def)
  ultimately have "\<bar>rnd 53 (-1022) x\<bar> < pow2 1024" using assms by simp
  then show ?thesis by (auto simp: to_f64_def overflow_def)
qed

lemma f_of_int_finite: "\<bar>n\<bar> \<le> 2 ^ 64 \<Longrightarrow> \<exists>x. f_of_int n = Fin x"
proof -
  assume "\<bar>n\<bar> \<le> 2 ^ 64"
  then have "(of_int \<bar>n\<bar> :: rat) \<le> of_int (2 ^ 64)" by (simp only: of_int_le_iff)
  then show ?thesis unfolding f_of_int_def by (intro to_f32_finite) simp
qed

lemma f_of_int_sint: "\<exists>x. f_of_int (sint (v :: u32)) = Fin x"
proof -
  have "\<bar>sint v\<bar> \<le> 2 ^ 64" using sint_less [of v] sint_ge [of v] by simp
  then show ?thesis by (rule f_of_int_finite)
qed

lemma f_sqrt_finite: "0 \<le> x \<Longrightarrow> \<exists>r. f_sqrt (Fin x) = Fin r"
  by (auto simp: Let_def)

lemma to_f32_0 [simp]: "to_f32 0 = Fin 0"
  using to_f32_int [of 0] by simp

lemma to_f64_0 [simp]: "to_f64 0 = Fin 0"
  by (simp add: to_f64_def rnd_def overflow_def not_le less_imp_le)

end
