(* ===== verification/GameTypes.thy ===== *)
theory GameTypes
  imports CLib Float32
begin

text \<open>
  The data of the game server, \<open>src/src/gameserver/game_types.h\<close> and the member variables of
  \<open>CClientSocket\<close> and \<open>CConnClient\<close> (\<open>src/src/commom/sockets.h\<close>, \<open>game_player.h\<close>).
  A field keeps its C++ name unless two structs share it; then the later struct's field carries a
  prefix (\<open>CStats.Int\<close> is \<open>Intel\<close>, since \<open>Int\<close> is a token of HOL). Objects that are reached through pointers (clients, NPCs, equipment) live in a store and a
  pointer is an address, a \<^typ>\<open>nat\<close>; members that only one object ever points to
  (\<open>PlayerSession\<close>, \<open>PlayerStats\<close>, \<dots>) are embedded. An array of items is a function of the
  index; the operations that index it with a value from outside check that value against the
  declared bound (\<open>items[78]\<close>, \<open>eqitems[15]\<close>, \<open>inventory[15]\<close>, \<open>shopitems[30]\<close>,
  \<open>effects[11]\<close>) and fault beyond it.
\<close>

section \<open>Structs of game\_types.h\<close>

record CLanguage =
  id_invalid :: string
  id_online :: string
  id_notactive :: string
  pwd_invalid :: string
  name_alreadyexist :: string
  wrong_cliver :: string

record CTime =
  lastAttackTime :: u32
  lastRegenTime :: u32
  lastMoveTime :: u32
  lastSaveTime :: u32
  lastGG :: u32
  initSkill :: u32

record fPoint =
  fx :: flt
  fy :: flt

record CAccount =
  clientid :: u32
  charid :: u32
  userid :: u32
  username :: string
  password :: string
  accesslevel :: u32
  isLoggedIn :: bool
  inGame :: bool

record CStats =
  MaxHP :: u16
  MaxMP :: u16
  HP :: u16
  MP :: u16
  MaxWeight :: u32
  Weight :: u32
  Str :: u16
  Dex :: u16
  Intel :: u16
  Con :: u16
  Attack_Power :: u32
  Defense :: u32
  Magic_Defense :: u32
  Accury :: u32
  Critical :: u32
  Dodge :: u32
  Attack_Speed :: u32
  Move_Speed :: u32

record CItem =
  itemid :: u32
  add1 :: u32
  add2 :: u32
  add3 :: u32
  val1 :: u32
  val2 :: u32
  val3 :: u32

definition ClearItem :: CItem where
  "ClearItem = \<lparr>itemid = 0, add1 = 0, add2 = 0, add3 = 0, val1 = 0, val2 = 0, val3 = 0\<rparr>"

record currentition =
  source :: fPoint
  current :: fPoint
  destiny :: fPoint
  respawn :: u32
  saved :: u32
  pos_lastMoveTime :: u32

record CInfo =
  char_name :: string
  mobid :: u32
  classid :: u32
  Exp :: u32
  Level :: u32
  Gold :: u32
  Storage_Gold :: u32
  StatPoints :: u32
  SkillPoints :: u32

record CCharacter =
  ch_name :: string
  ch_Level :: u32
  ch_Exp :: u32
  ch_Mobid :: u32
  ch_Str :: u32
  ch_Int :: u32
  ch_Dex :: u32
  ch_Con :: u32
  ch_gold :: u32
  eqitems :: "nat \<Rightarrow> CItem"

record CNPC =
  npc_clientid :: u16
  npc_pos :: fPoint
  npc_dir :: flt
  npcname :: string
  inventory :: "nat \<Rightarrow> CItem"
  shopitems :: "nat \<Rightarrow> CItem"
  npc_mobid :: u32
  mobcode :: u32
  npc_level :: u32
  n_str :: u32
  n_dex :: u32
  n_int :: u32
  n_con :: u32

record CEffect =
  effectid :: u32
  effvalue :: u32

record CEquip =
  eq_itemid :: u32
  eq_name :: string
  rlvl :: u32
  eq_pos :: u32
  mesh :: u32
  wtype :: u32
  req_str :: u32
  req_int :: u32
  req_dex :: u32
  req_con :: u32
  price :: u32
  effects :: "nat \<Rightarrow> CEffect"

definition NPC_NORMAL :: u32 where
  "NPC_NORMAL = 0"

section \<open>The client object\<close>

record CConnClient =
  sock :: u32
  isActive :: bool
  PSize :: int
  recvpkts :: u32
  cl_KeysLogin :: bytes
  PlayerSession :: CAccount
  PlayerStats :: CStats
  PlayerInfo :: CInfo
  PlayerPosition :: currentition
  PlayerTime :: CTime
  ready :: bool
  Saved :: bool
  targetid :: u32
  isInvisibleMode :: bool
  VisibleClients :: "nat list"
  VisibleNPCs :: "nat list"
  items :: "nat \<Rightarrow> CItem"

section \<open>Configuration\<close>

record CConfig =
  port :: u16
  myport :: u32
  autoacc :: u32
  xprate :: u32
  droprate :: u32
  goldrate :: u32
  goldchance :: u32
  cliversion :: u32
  myhost :: string
  myuser :: string
  mydb :: string
  mypass :: string
  srvname :: string
  ipadress :: string

section \<open>XML documents\<close>

text \<open>
  libxml's public tree as the loaders walk it: an element with its name, its attributes
  (\<open>xmlGetProp\<close>), its children and, through the list it stands in, its \<open>next\<close> siblings.
\<close>

datatype xml = Xml (xname: string) (xattrs: "(string \<times> string) list") (xchildren: "xml list")

definition xmlGetProp :: "xml \<Rightarrow> string \<Rightarrow> string option" where
  "xmlGetProp p tag = map_of (xattrs p) tag"

definition readXMLInteger :: "xml \<Rightarrow> string \<Rightarrow> u32 option" where
  "readXMLInteger p tag = map_option atou (xmlGetProp p tag)"

definition readXMLString :: "xml \<Rightarrow> string \<Rightarrow> string option" where
  "readXMLString p tag = xmlGetProp p tag"

end
