(* ===== verification/World.thy ===== *)
theory World
  imports PacketWriter GameTypes
begin

text \<open>
  The state of the running server and the calls that leave the program.

  \<open>world\<close> collects the globals (\<open>packet\<close>, \<open>npcid\<close>), the members of \<open>CServerSocket\<close>
  and \<open>CConnServer\<close> (\<open>src/src/commom/sockets.h\<close>, \<open>src/src/gameserver/game_sockets.h\<close>) and the
  stores of client, NPC and equipment objects.

  \<open>env\<close> is the code that is not part of the repository: \<open>encdec.dll\<close>, the MySQL server,
  libxml's parser, the clock, and memory the program reads without having written it. It is an
  argument of every definition that needs it, and every theorem holds for every \<open>env\<close>. Answers
  may differ from call to call: the clock and the uninitialised memory are functions of the call's
  number \<open>tick\<close>, the database's answer is a function of all statements sent before.

  Calls with an effect outside are recorded in \<open>trace\<close>: the plain text handed to
  \<open>Encrypt\<close>, the bytes handed to \<open>send\<close>, the statements handed to MySQL, sockets closed and
  the dump of an unknown packet.
\<close>

section \<open>Environment and world\<close>

type_synonym sql_row = "(u32 \<times> string) option list"

datatype sql_result = Sql_error | Sql_ok "sql_row list"

record env =
  wyd_encrypt :: "nat \<Rightarrow> bytes \<Rightarrow> u16 \<Rightarrow> bytes \<Rightarrow> u32 \<Rightarrow> u32 \<Rightarrow> byte list"
  wyd_decrypt :: "nat \<Rightarrow> bytes \<Rightarrow> int \<Rightarrow> bytes \<Rightarrow> bytes"
  wyd_gethash1 :: "bytes \<Rightarrow> u32 \<Rightarrow> u32"
  mysql_answer :: "string list \<Rightarrow> string \<Rightarrow> sql_result"
  xmlParseFile :: "string \<Rightarrow> xml list option"
  clock_at :: "nat \<Rightarrow> u32"
  time_at :: "nat \<Rightarrow> int"
  memory_at :: "nat \<Rightarrow> bytes"
  word_at :: "nat \<Rightarrow> u32"
  asctime_at :: "nat \<Rightarrow> string"

datatype ext_event =
    Ev_Encrypt "byte list"
  | Ev_Send u32 "byte list"
  | Ev_Query string
  | Ev_Close u32
  | Ev_Dump u16 "byte list"

record world =
  packet :: bufwrite
  npcid :: u32
  srv_sock :: u32
  srv_isActive :: bool
  Hash1 :: u32
  CKeys :: bytes
  KeysLogin :: bytes
  encbuf :: "byte list"
  encsize :: nat
  curtime :: u32
  ClientList :: "nat list"
  clients :: "nat \<rightharpoonup> CConnClient"
  NPCList :: "nat list"
  npcs :: "nat \<rightharpoonup> CNPC"
  EquipList :: "nat list"
  equips :: "nat \<rightharpoonup> CEquip"
  ClientIDList :: "nat \<Rightarrow> u32"
  conf :: CConfig
  lang :: CLanguage
  ServerOnline :: bool
  sqlres :: "sql_row list"
  queries :: "string list"
  tick :: nat
  trace :: "ext_event list"

type_synonym 'a act = "(world, 'a) op"

section \<open>Clock, memory and objects\<close>

definition tickM :: "nat act" where
  "tickM = (\<lambda>w. Inr (tick w, w\<lparr>tick := Suc (tick w)\<rparr>))"

definition clockM :: "env \<Rightarrow> u32 act" where
  "clockM E = bnd tickM (\<lambda>n. ret (clock_at E n))"

definition timeM :: "env \<Rightarrow> int act" where
  "timeM E = bnd tickM (\<lambda>n. ret (time_at E n))"

definition memoryM :: "env \<Rightarrow> bytes act" where
  "memoryM E = bnd tickM (\<lambda>n. ret (memory_at E n))"

definition wordM :: "env \<Rightarrow> u32 act" where
  "wordM E = bnd tickM (\<lambda>n. ret (word_at E n))"

definition emit :: "ext_event \<Rightarrow> unit act" where
  "emit ev = modify (\<lambda>w. w\<lparr>trace := trace w @ [ev]\<rparr>)"

definition on_packet :: "(bufwrite, unit) op \<Rightarrow> unit act" where
  "on_packet m = (\<lambda>w. case m (packet w) of Inl e \<Rightarrow> Inl e | Inr (x, p) \<Rightarrow> Inr (x, w\<lparr>packet := p\<rparr>))"

definition client :: "nat \<Rightarrow> CConnClient act" where
  "client a = (\<lambda>w. case clients w a of None \<Rightarrow> Inl Dangling | Some c \<Rightarrow> Inr (c, w))"

definition upd_client :: "nat \<Rightarrow> (CConnClient \<Rightarrow> CConnClient) \<Rightarrow> unit act" where
  "upd_client a f = (\<lambda>w. case clients w a of None \<Rightarrow> Inl Dangling
     | Some c \<Rightarrow> Inr ((), w\<lparr>clients := (clients w)(a \<mapsto> f c)\<rparr>))"

definition npc :: "nat \<Rightarrow> CNPC act" where
  "npc a = (\<lambda>w. case npcs w a of None \<Rightarrow> Inl Dangling | Some c \<Rightarrow> Inr (c, w))"

definition upd_npc :: "nat \<Rightarrow> (CNPC \<Rightarrow> CNPC) \<Rightarrow> unit act" where
  "upd_npc a f = (\<lambda>w. case npcs w a of None \<Rightarrow> Inl Dangling
     | Some c \<Rightarrow> Inr ((), w\<lparr>npcs := (npcs w)(a \<mapsto> f c)\<rparr>))"

section \<open>Encryption and sending\<close>

definition Decrypt :: "env \<Rightarrow> bytes \<Rightarrow> int \<Rightarrow> bytes \<Rightarrow> bytes act" where
  "Decrypt E src len keys = bnd tickM (\<lambda>n. ret (wyd_decrypt E n src len keys))"

definition Encrypt :: "env \<Rightarrow> bytes \<Rightarrow> u16 \<Rightarrow> bytes \<Rightarrow> u32 \<Rightarrow> u32 \<Rightarrow> byte list act" where
  "Encrypt E src len keys hash t =
     bnd tickM (\<lambda>n.
     bnd (emit (Ev_Encrypt (map src [0..<unat len]))) (\<lambda>_.
     ret (wyd_encrypt E n src len keys hash t)))"

definition GetHash1 :: "env \<Rightarrow> bytes \<Rightarrow> u32 \<Rightarrow> u32" where
  "GetHash1 E keys counter = wyd_gethash1 E keys counter"

text \<open>
  \<open>this->curtime = clock(); this->encsize = encdec->Encrypt(this->encbuf, packet->buff(), len,
  this->CKeys, this->Hash1, this->curtime)\<close>, the pair of statements before every send.
\<close>

definition EncryptPacket :: "env \<Rightarrow> u16 \<Rightarrow> unit act" where
  "EncryptPacket E len =
     bnd (clockM E) (\<lambda>t.
     bnd (modify (\<lambda>w. w\<lparr>curtime := t\<rparr>)) (\<lambda>_.
     bnd (gets id) (\<lambda>w.
     bnd (Encrypt E (bufD (packet w)) len (CKeys w) (Hash1 w) (curtime w)) (\<lambda>bs.
     modify (\<lambda>w. w\<lparr>encbuf := bs, encsize := length bs\<rparr>)))))"

definition SendPacket :: "nat \<Rightarrow> byte list \<Rightarrow> nat \<Rightarrow> unit act" where
  "SendPacket a P n = bnd (client a) (\<lambda>c. emit (Ev_Send (sock c) (take n P)))"

definition SendEncbuf :: "nat \<Rightarrow> unit act" where
  "SendEncbuf a = bnd (gets id) (\<lambda>w. SendPacket a (encbuf w) (encsize w))"

section \<open>MySQL\<close>

definition DoSQL :: "env \<Rightarrow> string \<Rightarrow> varg list \<Rightarrow> bool act" where
  "DoSQL E f as =
     bnd (liftE (sprintf_buf 2000 f as)) (\<lambda>q.
     bnd (gets queries) (\<lambda>qs.
     bnd (emit (Ev_Query q)) (\<lambda>_.
     bnd (modify (\<lambda>w. w\<lparr>queries := qs @ [q]\<rparr>)) (\<lambda>_.
     case mysql_answer E qs q of
       Sql_error \<Rightarrow> ret False
     | Sql_ok rows \<Rightarrow> bnd (modify (\<lambda>w. w\<lparr>sqlres := rows\<rparr>)) (\<lambda>_. ret True)))))"

definition mysql_store_result :: "sql_row list act" where
  "mysql_store_result = gets sqlres"

text \<open>\<open>row[k]\<close> as a string, and \<open>atoi(row[k])\<close>: a NULL column is a null pointer.\<close>

definition cell :: "sql_row \<Rightarrow> nat \<Rightarrow> (u32 \<times> string) res" where
  "cell row k =
     (if k < length row then (case row ! k of None \<Rightarrow> Inl Null_deref | Some c \<Rightarrow> Inr c)
      else Inl Out_of_bounds)"

definition cell_u32 :: "sql_row \<Rightarrow> nat \<Rightarrow> u32 res" where
  "cell_u32 row k = (case cell row k of Inl e \<Rightarrow> Inl e | Inr (p, s) \<Rightarrow> Inr (atou s))"

definition cells_u32 :: "sql_row \<Rightarrow> nat list \<Rightarrow> u32 list res" where
  "cells_u32 row ks =
     foldr (\<lambda>k r. case cell_u32 row k of Inl e \<Rightarrow> Inl e | Inr v \<Rightarrow> map_sum id (Cons v) r) ks (Inr [])"

lemma keeps_sql: "keeps R m \<Longrightarrow> (\<And>y. keeps R (f y)) \<Longrightarrow> keeps R (case v of Sql_error \<Rightarrow> m | Sql_ok y \<Rightarrow> f y)"
  by (cases v) simp_all

section \<open>Execution rules\<close>

named_theorems world_defs "primitive operations of the world"

lemmas [world_defs] = tickM_def clockM_def timeM_def memoryM_def wordM_def emit_def client_def
  upd_client_def npc_def upd_npc_def Encrypt_def EncryptPacket_def SendPacket_def SendEncbuf_def
  on_packet_def

lemma bnd_tickM [simp]: "bnd tickM f w = f (tick w) (w\<lparr>tick := Suc (tick w)\<rparr>)"
  by (simp add: tickM_def bnd_def)

lemma bnd_emit [simp]: "bnd (emit ev) f w = f () (w\<lparr>trace := trace w @ [ev]\<rparr>)"
  by (simp add: emit_def bnd_def modify_def)

lemma on_packet_ok: "m (packet w) = Inr ((), p) \<Longrightarrow> on_packet m w = Inr ((), w\<lparr>packet := p\<rparr>)"
  by (simp add: on_packet_def)

lemma on_packet_fault: "m (packet w) = Inl e \<Longrightarrow> on_packet m w = Inl e"
  by (simp add: on_packet_def)

lemma client_ok [simp]: "clients w a = Some c \<Longrightarrow> client a w = Inr (c, w)"
  by (simp add: client_def)

lemma client_dangling [simp]: "clients w a = None \<Longrightarrow> client a w = Inl Dangling"
  by (simp add: client_def)

lemma upd_client_ok [simp]:
  "clients w a = Some c \<Longrightarrow> upd_client a f w = Inr ((), w\<lparr>clients := (clients w)(a \<mapsto> f c)\<rparr>)"
  by (simp add: upd_client_def)

lemma npc_ok [simp]: "npcs w a = Some c \<Longrightarrow> npc a w = Inr (c, w)"
  by (simp add: npc_def)

lemma upd_npc_ok [simp]:
  "npcs w a = Some c \<Longrightarrow> upd_npc a f w = Inr ((), w\<lparr>npcs := (npcs w)(a \<mapsto> f c)\<rparr>)"
  by (simp add: upd_npc_def)

text \<open>The effect of encrypting the packet buffer and sending the result to one client.\<close>

definition cipher :: "env \<Rightarrow> world \<Rightarrow> u16 \<Rightarrow> byte list" where
  "cipher E w len = wyd_encrypt E (Suc (tick w)) (bufD (packet w)) len (CKeys w) (Hash1 w) (clock_at E (tick w))"

definition after_encrypt :: "env \<Rightarrow> u16 \<Rightarrow> world \<Rightarrow> world" where
  "after_encrypt E len w = w\<lparr>tick := tick w + 2, curtime := clock_at E (tick w),
     trace := trace w @ [Ev_Encrypt (map (bufD (packet w)) [0..<unat len])],
     encbuf := cipher E w len, encsize := length (cipher E w len)\<rparr>"

lemma EncryptPacket_run [simp]: "EncryptPacket E len w = Inr ((), after_encrypt E len w)"
  by (simp add: EncryptPacket_def clockM_def bnd_assoc Encrypt_def cipher_def after_encrypt_def ret_def
      modify_def)

lemma SendEncbuf_run [simp]:
  "clients w a = Some c \<Longrightarrow> encsize w = length (encbuf w) \<Longrightarrow>
     SendEncbuf a w = Inr ((), w\<lparr>trace := trace w @ [Ev_Send (sock c) (encbuf w)]\<rparr>)"
  by (simp add: SendEncbuf_def SendPacket_def emit_def modify_def)

lemma SendEncbuf_dangling [simp]: "clients w a = None \<Longrightarrow> SendEncbuf a w = Inl Dangling"
  by (simp add: SendEncbuf_def SendPacket_def)

definition SendPk :: "env \<Rightarrow> nat \<Rightarrow> u16 \<Rightarrow> unit act" where
  "SendPk E a len = bnd (EncryptPacket E len) (\<lambda>_. SendEncbuf a)"

section \<open>Statements\<close>

lemma DoSQL_run:
  "DoSQL E f as w =
     (case sprintf_buf 2000 f as of
        Inl e \<Rightarrow> Inl e
      | Inr q \<Rightarrow>
          (let w1 = w\<lparr>trace := trace w @ [Ev_Query q], queries := queries w @ [q]\<rparr> in
           case mysql_answer E (queries w) q of
             Sql_error \<Rightarrow> Inr (False, w1)
           | Sql_ok rows \<Rightarrow> Inr (True, w1\<lparr>sqlres := rows\<rparr>)))"
  by (simp add: DoSQL_def bnd_liftE Let_def ret_def split: sum.split sql_result.split)

lemma bnd_DoSQL:
  "bnd (DoSQL E f as) k w =
     (case sprintf_buf 2000 f as of
        Inl e \<Rightarrow> Inl e
      | Inr q \<Rightarrow>
          (case mysql_answer E (queries w) q of
             Sql_error \<Rightarrow> k False (w\<lparr>trace := trace w @ [Ev_Query q], queries := queries w @ [q]\<rparr>)
           | Sql_ok rows \<Rightarrow> k True (w\<lparr>trace := trace w @ [Ev_Query q], queries := queries w @ [q], sqlres := rows\<rparr>)))"
  by (simp add: bnd_def DoSQL_run Let_def split: sum.split sql_result.split)

text \<open>One statement sent: the cases of its answer.\<close>

lemma DoSQL_cases:
  assumes "bnd (DoSQL E f as) k w = Inr (r, w')"
  obtains (failed) q where "sprintf_buf 2000 f as = Inr q" "mysql_answer E (queries w) q = Sql_error"
      "k False (w\<lparr>trace := trace w @ [Ev_Query q], queries := queries w @ [q]\<rparr>) = Inr (r, w')"
    | (rows) q rows where "sprintf_buf 2000 f as = Inr q" "mysql_answer E (queries w) q = Sql_ok rows"
      "k True (w\<lparr>trace := trace w @ [Ev_Query q], queries := queries w @ [q], sqlres := rows\<rparr>) = Inr (r, w')"
  using assms by (auto simp: bnd_DoSQL split: sum.splits sql_result.splits)

section \<open>Observing the traffic\<close>

text \<open>
  \<open>deliveries\<close> reads the packets that left the server off the trace: the receiving socket and
  the plain text, for every \<open>Encrypt\<close> directly followed by a \<open>send\<close>. \<open>io_only w w'\<close> says
  that \<open>w'\<close> differs from \<open>w\<close> in the trace, the clock readings and the cipher buffer only.
\<close>

fun deliveries :: "ext_event list \<Rightarrow> (u32 \<times> byte list) list" where
  "deliveries (Ev_Encrypt p # Ev_Send s c # tr) = (s, p) # deliveries tr"
| "deliveries (ev # tr) = deliveries tr"
| "deliveries [] = []"

definition game :: "world \<Rightarrow> world" where
  "game w = w\<lparr>tick := 0, curtime := 0, trace := [], encbuf := [], encsize := 0\<rparr>"

definition io_only :: "world \<Rightarrow> world \<Rightarrow> bool" where
  "io_only w w' \<longleftrightarrow> game w' = game w"

definition plain :: "world \<Rightarrow> u16 \<Rightarrow> byte list" where
  "plain w len = map (bufD (packet w)) [0..<unat len]"

lemma deliveries_snoc2 [simp]:
  "deliveries (tr @ [Ev_Encrypt p, Ev_Send s c]) = deliveries tr @ [(s, p)]"
  by (induction tr rule: deliveries.induct) auto

lemma deliveries_snoc_query [simp]: "deliveries (tr @ [Ev_Query q]) = deliveries tr"
  by (induction tr rule: deliveries.induct) auto

lemma io_only_refl [simp]: "io_only w w"
  by (simp add: io_only_def)

lemma io_only_trans: "io_only a b \<Longrightarrow> io_only b c \<Longrightarrow> io_only a c"
  by (simp add: io_only_def)

lemma game_sel:
  "packet (game w) = packet w" "npcid (game w) = npcid w" "Hash1 (game w) = Hash1 w"
  "CKeys (game w) = CKeys w" "ClientList (game w) = ClientList w" "clients (game w) = clients w"
  "NPCList (game w) = NPCList w" "npcs (game w) = npcs w" "ClientIDList (game w) = ClientIDList w"
  "queries (game w) = queries w" "sqlres (game w) = sqlres w" "conf (game w) = conf w"
  "lang (game w) = lang w" "KeysLogin (game w) = KeysLogin w" "ServerOnline (game w) = ServerOnline w"
  "EquipList (game w) = EquipList w" "equips (game w) = equips w"
  "srv_isActive (game w) = srv_isActive w"
  by (simp_all add: game_def)

lemma io_onlyD:
  assumes "io_only w w'"
  shows "packet w' = packet w" "npcid w' = npcid w" "Hash1 w' = Hash1 w"
    "CKeys w' = CKeys w" "ClientList w' = ClientList w" "clients w' = clients w"
    "NPCList w' = NPCList w" "npcs w' = npcs w" "ClientIDList w' = ClientIDList w"
    "queries w' = queries w" "sqlres w' = sqlres w" "conf w' = conf w"
    "lang w' = lang w" "KeysLogin w' = KeysLogin w" "ServerOnline w' = ServerOnline w"
    "EquipList w' = EquipList w" "equips w' = equips w" "srv_isActive w' = srv_isActive w"
  using assms unfolding io_only_def by (metis game_sel)+

lemma io_only_ticks [simp]: "io_only w (w\<lparr>tick := n\<rparr>)" "io_only w (w\<lparr>trace := tr\<rparr>)"
  by (simp_all add: io_only_def game_def)

lemma SendPk_run:
  assumes "clients w a = Some c"
  shows "\<exists>w'. SendPk E a len w = Inr ((), w') \<and> io_only w w' \<and>
    trace w' = trace w @ [Ev_Encrypt (plain w len), Ev_Send (sock c) (cipher E w len)]"
  using assms by (simp add: SendPk_def after_encrypt_def io_only_def game_def plain_def)

lemma SendPk_dangling: "clients w a = None \<Longrightarrow> SendPk E a len w = Inl Dangling"
  by (simp add: SendPk_def after_encrypt_def)

lemma plain_io: "io_only w w' \<Longrightarrow> plain w' len = plain w len"
  by (simp add: plain_def io_onlyD)

lemma plain_nth [simp]: "i < unat len \<Longrightarrow> plain w len ! i = bufD (packet w) i"
  by (simp add: plain_def)

lemma plain_length [simp]: "length (plain w len) = unat len"
  by (simp add: plain_def)

text \<open>Sending to several clients in turn.\<close>

lemma SendPk_list_run:
  assumes "\<And>a. a \<in> set as \<Longrightarrow> clients w a \<noteq> None"
  shows "\<exists>w'. forM_list as (\<lambda>a. SendPk E a len) w = Inr ((), w') \<and> io_only w w' \<and>
    deliveries (trace w') = deliveries (trace w) @ map (\<lambda>a. (sock (the (clients w a)), plain w len)) as"
  using assms
proof (induction as arbitrary: w)
  case Nil
  show ?case by (simp add: ret_def)
next
  case (Cons a as)
  obtain c where c: "clients w a = Some c" using Cons.prems by force
  obtain w1 where w1: "SendPk E a len w = Inr ((), w1)" "io_only w w1"
    "trace w1 = trace w @ [Ev_Encrypt (plain w len), Ev_Send (sock c) (cipher E w len)]"
    using SendPk_run [OF c] by blast
  have "\<And>b. b \<in> set as \<Longrightarrow> clients w1 b \<noteq> None"
    using Cons.prems by (simp add: io_onlyD [OF w1(2)])
  from Cons.IH [OF this] obtain w2 where "forM_list as (\<lambda>a. SendPk E a len) w1 = Inr ((), w2)"
    "io_only w1 w2" "deliveries (trace w2) = deliveries (trace w1)
       @ map (\<lambda>a. (sock (the (clients w1 a)), plain w1 len)) as" by blast
  then show ?case
    using w1 c by (auto simp: io_onlyD plain_io intro: io_only_trans)
qed

lemma SendPk_list_dangling:
  assumes "a \<in> set as" and "clients w a = None"
  shows "forM_list as (\<lambda>a. SendPk E a len) w = Inl Dangling"
  using assms
proof (induction as arbitrary: w)
  case Nil
  then show ?case by simp
next
  case (Cons b bs)
  show ?case
  proof (cases "clients w b")
    case None
    then show ?thesis by (simp add: SendPk_dangling)
  next
    case (Some c)
    obtain w1 where w1: "SendPk E b len w = Inr ((), w1)" "io_only w w1"
      using SendPk_run [OF Some] by blast
    have "a \<in> set bs" using Cons.prems Some by auto
    moreover have "clients w1 a = None" using Cons.prems by (simp add: io_onlyD [OF w1(2)])
    ultimately show ?thesis using Cons.IH w1(1) by simp
  qed
qed

text \<open>\<open>pk_only w w'\<close>: the packet buffer may differ too.\<close>

definition pk_only :: "world \<Rightarrow> world \<Rightarrow> bool" where
  "pk_only w w' \<longleftrightarrow> io_only (w\<lparr>packet := packet w'\<rparr>) w'"

lemma game_packet: "game (w\<lparr>packet := p\<rparr>) = (game w)\<lparr>packet := p\<rparr>"
  by (rule world.equality) (simp_all add: game_def)

lemma pk_only_alt: "pk_only w w' \<longleftrightarrow> (game w')\<lparr>packet := p\<rparr> = (game w)\<lparr>packet := p\<rparr>"
proof
  assume "pk_only w w'"
  then have "(game w')\<lparr>packet := p\<rparr> = (game (w\<lparr>packet := packet w'\<rparr>))\<lparr>packet := p\<rparr>"
    by (simp add: pk_only_def io_only_def)
  then show "(game w')\<lparr>packet := p\<rparr> = (game w)\<lparr>packet := p\<rparr>"
    by (simp add: game_packet)
next
  assume "(game w')\<lparr>packet := p\<rparr> = (game w)\<lparr>packet := p\<rparr>"
  then have "(game w')\<lparr>packet := p\<rparr>\<lparr>packet := packet w'\<rparr> = (game w)\<lparr>packet := p\<rparr>\<lparr>packet := packet w'\<rparr>"
    by simp
  then have "game w' = game (w\<lparr>packet := packet w'\<rparr>)"
    by (simp flip: game_packet)
  then show "pk_only w w'" by (simp add: pk_only_def io_only_def)
qed

lemma pk_only_refl [simp]: "pk_only w w"
  by (simp add: pk_only_def)

lemma pk_only_packet [simp]: "pk_only w (w\<lparr>packet := p\<rparr>)"
  by (simp add: pk_only_def)

lemma pk_only_tick [simp]: "pk_only w (w\<lparr>tick := n\<rparr>)"
  by (simp add: pk_only_def)

lemma pk_only_trans: "pk_only a b \<Longrightarrow> pk_only b c \<Longrightarrow> pk_only a c"
  by (simp add: pk_only_alt [where p = "packet a"])

lemma io_pk_only: "io_only w w' \<Longrightarrow> pk_only w w'"
proof -
  assume "io_only w w'"
  then have "w\<lparr>packet := packet w'\<rparr> = w" by (simp add: io_onlyD)
  with \<open>io_only w w'\<close> show ?thesis by (simp add: pk_only_def)
qed

lemma pk_onlyD:
  assumes "pk_only w w'"
  shows "npcid w' = npcid w" "Hash1 w' = Hash1 w" "CKeys w' = CKeys w" "ClientList w' = ClientList w"
    "clients w' = clients w" "NPCList w' = NPCList w" "npcs w' = npcs w"
    "ClientIDList w' = ClientIDList w" "queries w' = queries w" "sqlres w' = sqlres w" "conf w' = conf w"
    "lang w' = lang w" "KeysLogin w' = KeysLogin w" "ServerOnline w' = ServerOnline w"
    "EquipList w' = EquipList w" "equips w' = equips w" "srv_isActive w' = srv_isActive w"
  using io_onlyD [OF assms [unfolded pk_only_def]] by simp_all

text \<open>Build a packet, encrypt it, send it to one client.\<close>

lemma build_send_run:
  assumes "m (packet w) = Inr ((), p)" and "clients w a = Some c"
  shows "\<exists>w'. bnd (on_packet m) (\<lambda>_. SendPk E a len) w = Inr ((), w') \<and> pk_only w w' \<and>
    packet w' = p \<and>
    deliveries (trace w') = deliveries (trace w) @ [(sock c, map (bufD p) [0..<unat len])]"
proof -
  let ?w1 = "w\<lparr>packet := p\<rparr>"
  have "clients ?w1 a = Some c" using assms by simp
  from SendPk_run [OF this] obtain w2 where w2: "SendPk E a len ?w1 = Inr ((), w2)" "io_only ?w1 w2"
    "trace w2 = trace ?w1 @ [Ev_Encrypt (plain ?w1 len), Ev_Send (sock c) (cipher E ?w1 len)]" by blast
  have "pk_only w w2"
    using pk_only_trans [OF pk_only_packet io_pk_only [OF w2(2)]] .
  then show ?thesis
    using w2 assms by (simp add: on_packet_ok io_onlyD [OF w2(2)] plain_def)
qed

end
