(* ===== verification/Sample.thy ===== *)
theory Sample
  imports World
begin

text \<open>
  A small concrete server on which the witnesses evaluate: an environment with an identity cipher and
  an empty database, two players (addresses 1 and 2) that see each other, and one NPC (address 5).
\<close>

definition sample_env :: env where
  "sample_env = \<lparr>wyd_encrypt = (\<lambda>n src len keys hash t. map src [0..<unat len]),
     wyd_decrypt = (\<lambda>n src len keys. src), wyd_gethash1 = (\<lambda>keys n. n),
     mysql_answer = (\<lambda>qs q. Sql_ok []), xmlParseFile = (\<lambda>f. None), clock_at = (\<lambda>n. of_nat n),
     time_at = (\<lambda>n. 1000000), memory_at = (\<lambda>n i. 7), word_at = (\<lambda>n. 0), asctime_at = (\<lambda>n. ''noon'')\<rparr>"

definition zero_stats :: CStats where
  "zero_stats = \<lparr>MaxHP = 0, MaxMP = 0, HP = 0, MP = 0, MaxWeight = 0, Weight = 0, Str = 0, Dex = 0, Intel = 0,
     Con = 0, Attack_Power = 0, Defense = 0, Magic_Defense = 0, Accury = 0, Critical = 0, Dodge = 0,
     Attack_Speed = 0, Move_Speed = 0\<rparr>"

definition sample_client :: "u32 \<Rightarrow> string \<Rightarrow> int \<Rightarrow> int \<Rightarrow> nat list \<Rightarrow> CConnClient" where
  "sample_client n name x y vis =
     \<lparr>sock = 100 + n, isActive = True, PSize = 0, recvpkts = 0, cl_KeysLogin = (\<lambda>i. 0),
      PlayerSession = \<lparr>clientid = n, charid = n, userid = n,
        username = name @ replicate (17 - length name) NUL, password = ''pw'' @ replicate 31 NUL,
        accesslevel = 1, isLoggedIn = True, inGame = True\<rparr>,
      PlayerStats = zero_stats,
      PlayerInfo = \<lparr>char_name = name @ replicate (30 - length name) NUL, mobid = 1, classid = 0, Exp = 0,
        Level = 1, Gold = 70000, Storage_Gold = 0, StatPoints = 0, SkillPoints = 0\<rparr>,
      PlayerPosition = \<lparr>source = \<lparr>fx = Fin 0, fy = Fin 0\<rparr>, current = \<lparr>fx = Fin (of_int x), fy = Fin (of_int y)\<rparr>,
        destiny = \<lparr>fx = Fin (of_int x), fy = Fin (of_int y)\<rparr>, respawn = 0, saved = 0, pos_lastMoveTime = 0\<rparr>,
      PlayerTime = \<lparr>lastAttackTime = 0, lastRegenTime = 0, lastMoveTime = 0, lastSaveTime = 0, lastGG = 0,
        initSkill = 0\<rparr>,
      ready = True, Saved = False, targetid = 0, isInvisibleMode = False, VisibleClients = vis,
      VisibleNPCs = [], items = (\<lambda>j. ClearItem)\<rparr>"

definition sample_npc :: CNPC where
  "sample_npc = \<lparr>npc_clientid = 2001, npc_pos = \<lparr>fx = Fin 10, fy = Fin 10\<rparr>, npc_dir = Fin 0, npcname = ''Aki'',
     inventory = (\<lambda>j. ClearItem), shopitems = (\<lambda>j. ClearItem), npc_mobid = 50, mobcode = 1, npc_level = 1,
     n_str = 1, n_dex = 1, n_int = 1, n_con = 1\<rparr>"

definition sample_conf :: CConfig where
  "sample_conf = \<lparr>port = 8281, myport = 3306, autoacc = 0, xprate = 1, droprate = 1, goldrate = 1, goldchance = 1,
     cliversion = 747, myhost = [], myuser = [], mydb = [], mypass = [], srvname = [], ipadress = ''*''\<rparr>"

definition sample_lang :: CLanguage where
  "sample_lang = \<lparr>id_invalid = ''no account %s'', id_online = ''%s is online'', id_notactive = ''%s is blocked'',
     pwd_invalid = ''wrong password'', name_alreadyexist = ''name is taken'', wrong_cliver = ''old client''\<rparr>"

definition sample_world :: world where
  "sample_world = \<lparr>packet = \<lparr>bufS = 0, bufD = (\<lambda>i. 9)\<rparr>, npcid = 1000, srv_sock = 50, srv_isActive = True, Hash1 = 0,
     CKeys = (\<lambda>i. 0), KeysLogin = (\<lambda>i. 0), encbuf = [], encsize = 0, curtime = 0, ClientList = [1, 2],
     clients = [1 \<mapsto> sample_client 1 ''Ana'' 100 100 [2], 2 \<mapsto> sample_client 2 ''Bob'' 103 104 [1]],
     NPCList = [5], npcs = [5 \<mapsto> sample_npc], EquipList = [], equips = Map.empty,
     ClientIDList = (\<lambda>i. if i \<in> {1, 2, 2001} then 0 else 1), conf = sample_conf, lang = sample_lang,
     ServerOnline = True, sqlres = [], queries = [], tick = 10, trace = []\<rparr>"

text \<open>A received packet of \<open>n\<close> bytes.\<close>

definition sample_packet :: "nat \<Rightarrow> cbuf" where
  "sample_packet n = \<lparr>blen = n, bdat = (\<lambda>i. of_nat i)\<rparr>"

named_theorems sample_defs

lemmas [sample_defs] = sample_env_def sample_client_def sample_npc_def sample_conf_def sample_lang_def
  sample_world_def sample_packet_def zero_stats_def

lemma sample_clients [simp]:
  "clients sample_world (Suc 0) = Some (sample_client 1 ''Ana'' 100 100 [2])"
  "clients sample_world 2 = Some (sample_client 2 ''Bob'' 103 104 [1])"
  by (simp_all add: sample_world_def)

lemma blen_sample [simp]: "blen (sample_packet n) = n"
  by (simp add: sample_packet_def)

end
