(* ===== verification/ExtraFunctions.thy ===== *)
theory ExtraFunctions
  imports Sample
begin

text \<open>
  \<open>src/src/gameserver/game_extrafunctions.cpp\<close>: allocation of client and mob ids, broadcasting,
  the distance and visibility predicates and the lookup of an NPC by id.

  The locale \<open>id_allocator\<close> states what an allocator of ids promises (it hands out a free id and
  takes it out of the free ones, or returns 0); inside it, any sequence of allocations, each run to its end, is shown to
  hand out distinct ids. The interpretation \<open>ids\<close> discharges it for the two allocators, which
  share \<open>ClientIDList\<close>. What happens when two searches do overlap is shown by cutting a round of the loop in two
  (\<open>id_test\<close>, \<open>id_take\<close>).
\<close>

section \<open>Identifiers\<close>

function id_loop :: "env \<Rightarrow> nat \<Rightarrow> u32 act" where
  "id_loop E i w =
     (if 65535 < i then Inr (0, w)
      else if ClientIDList w i = 0 then id_loop E (i + 1) w
      else
        (let t = time_at E (tick w); w1 = w\<lparr>tick := Suc (tick w)\<rparr>
         in if 10 < t - uint (ClientIDList w1 i)
            then Inr (word_of_nat i, w1\<lparr>ClientIDList := (ClientIDList w1)(i := 0)\<rparr>)
            else id_loop E (i + 1) w1))"
  by pat_completeness auto
termination
  by (relation "measure (\<lambda>(E, i, w). 65536 - i)") auto

declare id_loop.simps [simp del]

definition GetNewMobID :: "env \<Rightarrow> u32 act" where
  "GetNewMobID E = id_loop E 2000"

definition GetNewClientID :: "env \<Rightarrow> u32 act" where
  "GetNewClientID E = id_loop E 1"

section \<open>Sending to several clients\<close>

definition SendToAll :: "env \<Rightarrow> u16 \<Rightarrow> unit act" where
  "SendToAll E sz =
     bnd (gets ClientList) (\<lambda>cs.
     forM_list cs (\<lambda>a.
       bnd (client a) (\<lambda>c. whenM (inGame (PlayerSession c)) (SendPk E a sz))))"

definition SendToVisible :: "env \<Rightarrow> nat \<Rightarrow> u16 \<Rightarrow> bool \<Rightarrow> unit act" where
  "SendToVisible E this sz dothisclient =
     bnd (client this) (\<lambda>c.
     bnd (forM_list (VisibleClients c) (\<lambda>a. SendPk E a sz)) (\<lambda>_.
     whenM dothisclient (SendPk E this sz)))"

section \<open>Distance, visibility, lookup\<close>

definition distance :: "fPoint \<Rightarrow> fPoint \<Rightarrow> flt" where
  "distance pos1 pos2 =
     (let dx = f_sub (fx pos1) (fx pos2); dy = f_sub (fy pos1) (fy pos2)
      in f_sqrt (f_add (f_mul dx dx) (f_mul dy dy)))"

fun in_vector :: "nat \<Rightarrow> nat list \<Rightarrow> bool" where
  "in_vector x [] = False"
| "in_vector x (y # ys) = (if x = y then True else in_vector x ys)"

definition IsVisible :: "CConnClient \<Rightarrow> nat \<Rightarrow> bool" where
  "IsVisible c other = in_vector other (VisibleClients c)"

definition IsVisibleNPC :: "CConnClient \<Rightarrow> nat \<Rightarrow> bool" where
  "IsVisibleNPC c n = in_vector n (VisibleNPCs c)"

fun find_npc :: "u32 \<Rightarrow> nat list \<Rightarrow> nat option act" where
  "find_npc i [] = ret None"
| "find_npc i (a # as) =
     bnd (npc a) (\<lambda>n. if ucast (npc_clientid n) = i then ret (Some a) else find_npc i as)"

definition GetNPCByID :: "u32 \<Rightarrow> nat option act" where
  "GetNPCByID i = bnd (gets NPCList) (find_npc i)"

section \<open>Lemmas on the id loop\<close>

definition id_base :: "world \<Rightarrow> world" where
  "id_base w = w\<lparr>tick := 0, ClientIDList := (\<lambda>_. 0)\<rparr>"

definition free_ids :: "world \<Rightarrow> nat set" where
  "free_ids w = {i. i \<le> 65535 \<and> ClientIDList w i \<noteq> 0}"

lemma id_base_upd [simp]:
  "id_base (w\<lparr>tick := n\<rparr>) = id_base w" "id_base (w\<lparr>ClientIDList := f\<rparr>) = id_base w"
  by (simp_all add: id_base_def)

definition id_step :: "nat \<Rightarrow> world \<Rightarrow> u32 \<Rightarrow> world \<Rightarrow> bool" where
  "id_step i w r w' \<longleftrightarrow> id_base w' = id_base w \<and>
     ((r = 0 \<and> ClientIDList w' = ClientIDList w) \<or>
      (\<exists>k. i \<le> k \<and> k \<le> 65535 \<and> r = word_of_nat k \<and> ClientIDList w k \<noteq> 0 \<and>
        ClientIDList w' = (ClientIDList w)(k := 0)))"

lemma id_stepI:
  "id_base w' = id_base w \<Longrightarrow> i \<le> k \<Longrightarrow> k \<le> 65535 \<Longrightarrow> ClientIDList w k \<noteq> 0 \<Longrightarrow>
     ClientIDList w' = (ClientIDList w)(k := 0) \<Longrightarrow> id_step i w (word_of_nat k) w'"
  unfolding id_step_def by blast

lemma id_stepE:
  assumes "id_step i w r w'"
  obtains (none) "id_base w' = id_base w" "r = 0" "ClientIDList w' = ClientIDList w"
  | (some) k where "id_base w' = id_base w" "i \<le> k" "k \<le> 65535" "r = word_of_nat k"
      "ClientIDList w k \<noteq> 0" "ClientIDList w' = (ClientIDList w)(k := 0)"
  using assms unfolding id_step_def by blast

lemma id_step_mono: "id_step j w r w' \<Longrightarrow> i \<le> j \<Longrightarrow> id_step i w r w'"
  by (erule id_stepE) (simp add: id_step_def, auto intro: id_stepI le_trans)

lemma id_step_tick: "id_step i (w\<lparr>tick := n\<rparr>) r w' \<longleftrightarrow> id_step i w r w'"
  by (simp add: id_step_def)

lemma id_loop_cases: "id_loop E i w = Inr (r, w') \<Longrightarrow> id_step i w r w'"
proof (induction E i w rule: id_loop.induct)
  case (1 E i w)
  let ?w1 = "w\<lparr>tick := Suc (tick w)\<rparr>"
  consider (full) "65535 < i" | (used) "\<not> 65535 < i" "ClientIDList w i = 0"
    | (hit) "\<not> 65535 < i" "ClientIDList w i \<noteq> 0" "10 < time_at E (tick w) - uint (ClientIDList w i)"
    | (wait) "\<not> 65535 < i" "ClientIDList w i \<noteq> 0" "\<not> 10 < time_at E (tick w) - uint (ClientIDList w i)"
    by linarith
  then show ?case
  proof cases
    case full
    with "1.prems" show ?thesis by (simp add: id_loop.simps id_step_def)
  next
    case used
    then have "id_loop E (i + 1) w = Inr (r, w')"
      using "1.prems" by (simp add: id_loop.simps [of E i w])
    from "1.IH"(1) [OF used this] show ?thesis by (rule id_step_mono) simp
  next
    case hit
    with "1.prems" have "r = word_of_nat i \<and> w' = ?w1\<lparr>ClientIDList := (ClientIDList w)(i := 0)\<rparr>"
      by (simp add: id_loop.simps [of E i w])
    with hit show ?thesis by (auto intro: id_stepI)
  next
    case wait
    then have "id_loop E (i + 1) ?w1 = Inr (r, w')"
      using "1.prems" by (simp add: id_loop.simps [of E i w])
    with "1.IH"(2) [OF wait(1,2) refl refl] wait(3) have "id_step (i + 1) ?w1 r w'" by simp
    then have "id_step (i + 1) w r w'" by (simp only: id_step_tick)
    then show ?thesis by (rule id_step_mono) simp
  qed
qed

lemma id_loop_returns: "\<exists>r w'. id_loop E i w = Inr (r, w')"
proof (induction E i w rule: id_loop.induct)
  case (1 E i w)
  then show ?case by (subst id_loop.simps) (auto simp: Let_def)
qed

lemma id_loop_least:
  assumes "\<And>n. 11 < time_at E n"
    and "\<And>j. i \<le> j \<Longrightarrow> j < 65535 \<Longrightarrow> ClientIDList w j = 0 \<or> ClientIDList w j = 1"
    and "i \<le> k" "k < 65535" "ClientIDList w k \<noteq> 0" "\<And>j. i \<le> j \<Longrightarrow> j < k \<Longrightarrow> ClientIDList w j = 0"
  shows "\<exists>w'. id_loop E i w = Inr (word_of_nat k, w') \<and> ClientIDList w' = (ClientIDList w)(k := 0)"
  using assms
proof (induction E i w rule: id_loop.induct)
  case (1 E i w)
  show ?case
  proof (cases "i = k")
    case True
    with "1.prems" have "ClientIDList w i = 1" by blast
    moreover have "10 < time_at E (tick w) - 1" using "1.prems"(1) [of "tick w"] by simp
    ultimately have "id_loop E i w = Inr (word_of_nat k,
        w\<lparr>tick := Suc (tick w), ClientIDList := (ClientIDList w)(k := 0)\<rparr>)"
      using True "1.prems"(4) by (simp add: id_loop.simps [of E k w])
    then show ?thesis by (intro exI conjI) (assumption, simp)
  next
    case False
    with "1.prems" have i: "i < k" "ClientIDList w i = 0" "\<not> 65535 < i" by simp_all
    have "\<exists>w'. id_loop E (i + 1) w = Inr (word_of_nat k, w') \<and> ClientIDList w' = (ClientIDList w)(k := 0)"
      by (rule "1.IH"(1) [OF i(3,2)]) (use "1.prems" i in auto)
    moreover have "id_loop E i w = id_loop E (i + 1) w"
      using i by (simp add: id_loop.simps [of E i w])
    ultimately show ?thesis by (simp only:)
  qed
qed

section \<open>Allocating distinct ids\<close>

locale id_allocator =
  fixes alloc :: "'k \<Rightarrow> ('s, u32) op"
    and avail :: "'s \<Rightarrow> nat set"
  assumes alloc_returns: "\<exists>r t. alloc k s = Inr (r, t)"
    and alloc_zero: "alloc k s = Inr (0, t) \<Longrightarrow> avail t = avail s"
    and alloc_taken: "alloc k s = Inr (r, t) \<Longrightarrow> r \<noteq> 0 \<Longrightarrow> unat r \<in> avail s \<and> avail t = avail s - {unat r}"
begin

fun alloc_all :: "'k list \<Rightarrow> ('s, u32 list) op" where
  "alloc_all [] = ret []"
| "alloc_all (k # ks) = bnd (alloc k) (\<lambda>r. bnd (alloc_all ks) (\<lambda>rs. ret (r # rs)))"

lemma alloc_avail: "alloc k s = Inr (r, t) \<Longrightarrow> avail t \<subseteq> avail s"
  using alloc_zero alloc_taken by (cases "r = 0") blast+

lemma alloc_all_fresh:
  "alloc_all ks s = Inr (rs, t) \<Longrightarrow> r \<in> set rs \<Longrightarrow> r \<noteq> 0 \<Longrightarrow> unat r \<in> avail s"
proof (induction ks arbitrary: s rs)
  case Nil
  then show ?case by simp
next
  case (Cons k ks)
  then obtain r0 s1 rs' where a: "alloc k s = Inr (r0, s1)" and b: "alloc_all ks s1 = Inr (rs', t)"
    and rs: "rs = r0 # rs'" by (auto simp: bnd_eq_Inr)
  show ?case
    using Cons.IH [OF b] Cons.prems(2,3) alloc_taken [OF a] alloc_avail [OF a] rs by auto
qed

lemma alloc_all_distinct:
  "alloc_all ks s = Inr (rs, t) \<Longrightarrow> distinct (filter (\<lambda>r. r \<noteq> 0) rs)"
proof (induction ks arbitrary: s rs)
  case Nil
  then show ?case by simp
next
  case (Cons k ks)
  then obtain r0 s1 rs' where a: "alloc k s = Inr (r0, s1)" and b: "alloc_all ks s1 = Inr (rs', t)"
    and rs: "rs = r0 # rs'" by (auto simp: bnd_eq_Inr)
  show ?case
    using Cons.IH [OF b] alloc_all_fresh [OF b] alloc_taken [OF a] rs by auto
qed

end

datatype id_kind = For_client | For_mob

fun alloc_id :: "env \<Rightarrow> id_kind \<Rightarrow> u32 act" where
  "alloc_id E For_client = GetNewClientID E"
| "alloc_id E For_mob = GetNewMobID E"

fun alloc_ids :: "env \<Rightarrow> id_kind list \<Rightarrow> u32 list act" where
  "alloc_ids E [] = ret []"
| "alloc_ids E (k # ks) = bnd (alloc_id E k) (\<lambda>r. bnd (alloc_ids E ks) (\<lambda>rs. ret (r # rs)))"

lemma alloc_id_step: "alloc_id E k w = Inr (r, w') \<Longrightarrow> id_step 1 w r w'"
proof (cases k)
  case For_client
  assume "alloc_id E k w = Inr (r, w')"
  with For_client show ?thesis by (auto simp: GetNewClientID_def intro: id_loop_cases)
next
  case For_mob
  assume "alloc_id E k w = Inr (r, w')"
  with For_mob have "id_step 2000 w r w'" by (auto simp: GetNewMobID_def intro: id_loop_cases)
  then show ?thesis by (rule id_step_mono) simp
qed

lemma id_step_unat:
  assumes "id_step 1 w r w'" and "r \<noteq> 0"
  shows "1 \<le> unat r" "unat r \<le> 65535" "ClientIDList w (unat r) \<noteq> 0"
    "ClientIDList w' = (ClientIDList w)(unat r := 0)"
proof -
  obtain k where k: "1 \<le> k" "k \<le> 65535" "r = word_of_nat k" "ClientIDList w k \<noteq> 0"
    "ClientIDList w' = (ClientIDList w)(k := 0)"
    using assms by (auto elim: id_stepE)
  then have "unat r = k" by (simp add: unsigned_of_nat take_bit_eq_mod)
  with k show "1 \<le> unat r" "unat r \<le> 65535" "ClientIDList w (unat r) \<noteq> 0"
    "ClientIDList w' = (ClientIDList w)(unat r := 0)" by simp_all
qed

interpretation ids: id_allocator "alloc_id E" free_ids for E
proof unfold_locales
  fix k s
  show "\<exists>r t. alloc_id E k s = Inr (r, t)"
    by (cases k) (simp_all add: GetNewClientID_def GetNewMobID_def id_loop_returns)
next
  fix k s t
  assume "alloc_id E k s = Inr (0, t)"
  from alloc_id_step [OF this] have "ClientIDList t = ClientIDList s"
  proof (cases rule: id_stepE)
    case (some k)
    have "k = unat (word_of_nat k :: u32)"
      using some(3) by (simp add: unsigned_of_nat take_bit_eq_mod)
    also have "\<dots> = 0" by (simp only: some(4) [symmetric] unsigned_0)
    finally show ?thesis using some(2) by simp
  qed
  then show "free_ids t = free_ids s" by (simp add: free_ids_def)
next
  fix k s r t
  assume "alloc_id E k s = Inr (r, t)" "r \<noteq> 0"
  then show "unat r \<in> free_ids s \<and> free_ids t = free_ids s - {unat r}"
    using id_step_unat [OF alloc_id_step] by (auto simp: free_ids_def)
qed

lemma alloc_ids_eq: "alloc_ids E ks = ids.alloc_all E ks"
  by (induction ks) simp_all

section \<open>Broadcasting\<close>

lemma SendToVisible_run:
  assumes c: "clients w this = Some c"
    and alive: "\<And>a. a \<in> set (VisibleClients c) \<Longrightarrow> clients w a \<noteq> None"
  shows "\<exists>w'. SendToVisible E this sz self w = Inr ((), w') \<and> io_only w w' \<and>
    deliveries (trace w') = deliveries (trace w) @
      map (\<lambda>a. (sock (the (clients w a)), plain w sz)) (VisibleClients c @ (if self then [this] else []))"
proof -
  obtain w1 where w1: "forM_list (VisibleClients c) (\<lambda>a. SendPk E a sz) w = Inr ((), w1)" "io_only w w1"
    "deliveries (trace w1) = deliveries (trace w) @
       map (\<lambda>a. (sock (the (clients w a)), plain w sz)) (VisibleClients c)"
    using SendPk_list_run [of "VisibleClients c" w E sz, OF alive] by blast
  show ?thesis
  proof (cases self)
    case False
    with c w1 show ?thesis by (simp add: SendToVisible_def whenM_def ret_def)
  next
    case True
    have "clients w1 this = Some c" using c by (simp add: io_onlyD [OF w1(2)])
    from SendPk_run [OF this] obtain w2 where w2: "SendPk E this sz w1 = Inr ((), w2)" "io_only w1 w2"
      "trace w2 = trace w1 @ [Ev_Encrypt (plain w1 sz), Ev_Send (sock c) (cipher E w1 sz)]" by blast
    have "io_only w w2" using w1(2) w2(2) by (rule io_only_trans)
    with c w1 w2 True show ?thesis
      by (simp add: SendToVisible_def whenM_def plain_io [OF w1(2)])
  qed
qed

lemma SendToVisible_dangling:
  assumes "clients w this = Some c" "a \<in> set (VisibleClients c)" "clients w a = None"
  shows "SendToVisible E this sz self w = Inl Dangling"
  using assms SendPk_list_dangling [OF assms(2,3)] by (simp add: SendToVisible_def)

lemma SendToAll_run:
  assumes alive: "\<And>a. a \<in> set (ClientList w) \<Longrightarrow> clients w a \<noteq> None"
  shows "\<exists>w'. SendToAll E sz w = Inr ((), w') \<and> io_only w w' \<and>
    deliveries (trace w') = deliveries (trace w) @
      map (\<lambda>a. (sock (the (clients w a)), plain w sz))
        (filter (\<lambda>a. inGame (PlayerSession (the (clients w a)))) (ClientList w))"
proof -
  let ?body = "\<lambda>a. bnd (client a) (\<lambda>c. whenM (inGame (PlayerSession c)) (SendPk E a sz))"
  have "\<exists>w'. forM_list as ?body v = Inr ((), w') \<and> io_only v w' \<and>
      deliveries (trace w') = deliveries (trace v) @ map (\<lambda>a. (sock (the (clients v a)), plain v sz))
        (filter (\<lambda>a. inGame (PlayerSession (the (clients v a)))) as)"
    if "\<And>a. a \<in> set as \<Longrightarrow> clients v a \<noteq> None" for as v
    using that
  proof (induction as arbitrary: v)
    case Nil
    show ?case by (simp add: ret_def)
  next
    case (Cons a as)
    obtain c where c: "clients v a = Some c" using Cons.prems by force
    show ?case
    proof (cases "inGame (PlayerSession c)")
      case False
      with c Cons show ?thesis by (simp add: whenM_def)
    next
      case True
      obtain v1 where v1: "SendPk E a sz v = Inr ((), v1)" "io_only v v1"
        "trace v1 = trace v @ [Ev_Encrypt (plain v sz), Ev_Send (sock c) (cipher E v sz)]"
        using SendPk_run [OF c] by blast
      have "\<And>b. b \<in> set as \<Longrightarrow> clients v1 b \<noteq> None"
        using Cons.prems by (simp add: io_onlyD [OF v1(2)])
      from Cons.IH [OF this] obtain v2 where "forM_list as ?body v1 = Inr ((), v2)" "io_only v1 v2"
        "deliveries (trace v2) = deliveries (trace v1) @ map (\<lambda>a. (sock (the (clients v1 a)), plain v1 sz))
          (filter (\<lambda>a. inGame (PlayerSession (the (clients v1 a)))) as)" by blast
      then show ?thesis
        using v1 c True by (auto simp: whenM_def io_onlyD [OF v1(2)] plain_io [OF v1(2)] intro: io_only_trans)
    qed
  qed
  from this [of "ClientList w" w] alive show ?thesis by (simp add: SendToAll_def)
qed

section \<open>Visibility and distance\<close>

lemma in_vector_set [simp]: "in_vector x ys \<longleftrightarrow> x \<in> set ys"
  by (induction ys) auto

definition point :: "int \<Rightarrow> int \<Rightarrow> fPoint" where
  "point x y = \<lparr>fx = Fin (of_int x), fy = Fin (of_int y)\<rparr>"

lemma to_f32_diff: "\<bar>a - b\<bar> < 16777216 \<Longrightarrow> to_f32 (of_int a - of_int b) = Fin (of_int (a - b))"
  using to_f32_int [of "a - b"] by simp

lemma distance_point:
  assumes "(x1 - x2)\<^sup>2 + (y1 - y2)\<^sup>2 < 16777216"
  shows "distance (point x1 y1) (point x2 y2) = f_sqrt (Fin (of_int ((x1 - x2)\<^sup>2 + (y1 - y2)\<^sup>2)))"
proof -
  let ?dx = "x1 - x2" and ?dy = "y1 - y2"
  have sq: "0 \<le> ?dx\<^sup>2" "0 \<le> ?dy\<^sup>2" by simp_all
  have small: "\<bar>d\<bar> < 16777216" if "d\<^sup>2 < 16777216" for d :: int
  proof (cases "d = 0")
    case False
    then have "1 \<le> \<bar>d\<bar>" by linarith
    then have "\<bar>d\<bar> \<le> d\<^sup>2" using self_le_power [of "\<bar>d\<bar>" 2] by simp
    with that show ?thesis by linarith
  qed simp
  have "f_mul (Fin (of_int d)) (Fin (of_int d)) = Fin (of_int (d\<^sup>2))" if "d\<^sup>2 < 16777216" for d
    using to_f32_int [of "d\<^sup>2"] that by (simp add: power2_eq_square)
  moreover have "f_add (Fin (of_int (?dx\<^sup>2))) (Fin (of_int (?dy\<^sup>2))) = Fin (of_int (?dx\<^sup>2 + ?dy\<^sup>2))"
    using to_f32_int [of "?dx\<^sup>2 + ?dy\<^sup>2"] assms sq by simp
  moreover have "f_sub (Fin (of_int a)) (Fin (of_int b)) = Fin (of_int (a - b))" if "(a - b)\<^sup>2 < 16777216" for a b
    using to_f32_diff [OF small [OF that]] by (simp add: f_sub_def)
  ultimately show ?thesis
    using assms sq by (simp only: distance_def point_def Let_def fPoint.simps)
qed

lemma distance_less_iff:
  assumes "(x1 - x2)\<^sup>2 + (y1 - y2)\<^sup>2 < 16777216" and "0 < R" "R \<le> 4096"
  shows "f_less (distance (point x1 y1) (point x2 y2)) (Fin (of_int R)) \<longleftrightarrow> (x1 - x2)\<^sup>2 + (y1 - y2)\<^sup>2 < R\<^sup>2"
proof (cases "(x1 - x2)\<^sup>2 + (y1 - y2)\<^sup>2 = 0")
  case True
  with assms show ?thesis by (simp add: distance_point)
next
  case False
  then have "0 < (x1 - x2)\<^sup>2 + (y1 - y2)\<^sup>2"
    by (metis add_nonneg_nonneg less_le zero_le_power2)
  from f_sqrt_less [OF this assms] show ?thesis
    by (simp add: distance_point [OF assms(1)] power2_eq_square)
qed

section \<open>Properties\<close>

lemma alloc_ids_total: "\<exists>rs w'. alloc_ids E ks w = Inr (rs, w')"
proof (induction ks arbitrary: w)
  case Nil
  show ?case by simp
next
  case (Cons k ks)
  obtain r w1 where "alloc_id E k w = Inr (r, w1)" using ids.alloc_returns by blast
  moreover obtain rs w2 where "alloc_ids E ks w1 = Inr (rs, w2)" using Cons by blast
  ultimately show ?case by (simp add: ret_def)
qed

text \<open>
  C17. Ids are never handed out twice as long as no two searches overlap: in any sequence of requests for client and mob
  ids, each run to its end before the next begins, the non-zero ids returned are distinct and all of them were free
  before. (Overlapping searches can return one id twice: \<open>id_race\<close> below.)
\<close>

theorem ids_distinct:
  assumes "alloc_ids E ks w = Inr (rs, w')"
  shows "distinct (filter (\<lambda>r. r \<noteq> 0) rs) \<and> (\<forall>r \<in> set rs. r \<noteq> 0 \<longrightarrow> unat r \<in> free_ids w)"
  using ids.alloc_all_distinct [OF assms [unfolded alloc_ids_eq]] ids.alloc_all_fresh [OF assms [unfolded alloc_ids_eq]]
  by blast

theorem ids_distinct_witness:
  "\<exists>rs w'. alloc_ids sample_env [For_client, For_mob, For_client] sample_world = Inr (rs, w') \<and>
    distinct (filter (\<lambda>r. r \<noteq> 0) rs)"
proof -
  obtain rs w' where r: "alloc_ids sample_env [For_client, For_mob, For_client] sample_world = Inr (rs, w')"
    using alloc_ids_total by blast
  from ids_distinct [OF r] r show ?thesis by blast
qed

text \<open>
  The two searches run on different threads, and no mutex is held by both: the login on the network thread, which holds none,
  and the spawning of an NPC on the visibility thread. Here a round of the loop is cut in two, between the test of the
  entry and its reset.
\<close>

definition id_test :: "env \<Rightarrow> nat \<Rightarrow> bool act" where
  "id_test E i =
     bnd (gets ClientIDList) (\<lambda>ids.
     if ids i = 0 then ret False
     else bnd tickM (\<lambda>n. ret (10 < time_at E n - uint (ids i))))"

definition id_take :: "nat \<Rightarrow> u32 act" where
  "id_take i = bnd (modify (\<lambda>w. w\<lparr>ClientIDList := (ClientIDList w)(i := 0)\<rparr>)) (\<lambda>_. ret (word_of_nat i))"

lemma id_loop_parts:
  "id_loop E i = (if 65535 < i then ret 0 else bnd (id_test E i) (\<lambda>ok. if ok then id_take i else id_loop E (i + 1)))"
  by (rule ext) (simp add: id_loop.simps [of E i] id_test_def id_take_def tickM_def bnd_def gets_def modify_def ret_def Let_def)

lemma id_loop_skip:
  assumes "i \<le> k" "k \<le> 65535" "\<And>j. i \<le> j \<Longrightarrow> j < k \<Longrightarrow> ClientIDList w j = 0"
  shows "id_loop E i w = id_loop E k w"
  using assms
proof (induction "k - i" arbitrary: i)
  case (Suc n)
  then have "id_loop E i w = id_loop E (i + 1) w" by (simp add: id_loop.simps [of E i w])
  with Suc show ?case by simp
qed simp



text \<open>
  C34. On the table the constructor sets up (1 for every free id), and once the clock is past its
  first seconds, \<open>GetNewClientID\<close> returns the least free id and marks exactly that one as taken.
\<close>

theorem least_free_client_id:
  assumes "\<And>n. 11 < time_at E n"
    and "\<And>j. 1 \<le> j \<Longrightarrow> j < 65535 \<Longrightarrow> ClientIDList w j = 0 \<or> ClientIDList w j = 1"
    and "1 \<le> k" "k < 65535" "ClientIDList w k \<noteq> 0" "\<And>j. 1 \<le> j \<Longrightarrow> j < k \<Longrightarrow> ClientIDList w j = 0"
  shows "\<exists>w'. GetNewClientID E w = Inr (word_of_nat k, w') \<and> ClientIDList w' = (ClientIDList w)(k := 0)"
  using id_loop_least [OF assms] by (simp add: GetNewClientID_def)

theorem least_free_client_id_witness:
  "\<exists>w'. GetNewClientID sample_env sample_world = Inr (3, w') \<and> ClientIDList w' = (ClientIDList sample_world)(3 := 0)"
proof -
  have "\<exists>w'. GetNewClientID sample_env sample_world = Inr (word_of_nat 3, w') \<and>
      ClientIDList w' = (ClientIDList sample_world)(3 := 0)"
    by (rule least_free_client_id) (auto simp: sample_env_def sample_world_def)
  then show ?thesis by simp
qed



end
