(* ===== verification/Spawn.thy ===== *)
theory Spawn
  imports ExtraFunctions
begin

text \<open>
  The packets that make an object appear at a client, and the server message:
  \<open>SpawnChar\<close>, \<open>SpawnNPC\<close> and \<open>SendServerMsg\<close> of
  \<open>src/src/gameserver/game_packets.cpp\<close>. A packet builder is the sequence of the source's
  \<open>packet->Add...\<close> calls as an operation on the buffer; the sending operation runs it on the
  global \<open>packet\<close>, encrypts the announced number of bytes and sends the result.
\<close>

section \<open>Players\<close>

definition coord :: "flt \<Rightarrow> u16" where
  "coord v = ucast (f_trunc v)"

definition spawn_char_packet :: "CConnClient \<Rightarrow> bytes \<Rightarrow> string \<Rightarrow> (bufwrite, unit) op" where
  "spawn_char_packet c frame name =
     (let st = PlayerStats c; i = PlayerInfo c; cid = clientid (PlayerSession c);
          pos = current (PlayerPosition c)
      in seqM
       [Free,
        AddWord 172 0,
        AddWord 0x0364 4,
        AddWord 30000 6,
        AddWord (coord (fx pos)) 12,
        AddWord (coord (fy pos)) 14,
        AddWord (ucast cid) 16,
        forM_upto 12 (\<lambda>k. AddByte 0xcc (18 + k)),
        AddStr frame (map c2b name) 18,
        AddByte 150 30,
        AddByte (ucast (mobid i)) 34,
        forM_upto 15 (\<lambda>k. AddWord (ucast (itemid (items c k))) (2 * k + 36)),
        AddWord (ucast cid) 66,
        AddWord 0 69,
        AddWord (ucast (Level i)) 100,
        AddWord (ucast (Attack_Power st)) 102,
        AddWord (ucast (Defense st)) 104,
        AddByte 0 106,
        AddByte 84 107,
        AddWord (MaxHP st) 108,
        AddWord (MaxMP st) 110,
        AddWord (HP st) 112,
        AddWord (MP st) 114,
        AddWord (Str st) 116,
        AddWord (Intel st) 118,
        AddWord (Dex st) 120,
        AddWord (Con st) 122,
        AddWord 2 128,
        AddWord 0 130,
        forM_upto 29 (\<lambda>k. AddByte 0xcc (147 + k)),
        AddByte 0 172])"

definition SpawnChar :: "env \<Rightarrow> nat \<Rightarrow> nat \<Rightarrow> bool act" where
  "SpawnChar E this other =
     bnd (client other) (\<lambda>c.
     bnd (liftE (cstr (char_name (PlayerInfo c)))) (\<lambda>name.
     bnd (memoryM E) (\<lambda>frame.
     bnd (on_packet (spawn_char_packet c frame name)) (\<lambda>_.
     bnd (SendPk E this 172) (\<lambda>_. ret True)))))"

section \<open>NPCs\<close>

definition spawn_npc_packet :: "CNPC \<Rightarrow> bytes \<Rightarrow> (bufwrite, unit) op" where
  "spawn_npc_packet n frame = seqM
     [Free,
      AddWord 172 0,
      AddWord 0x0364 4,
      AddWord 30000 6,
      AddWord (coord (fx (npc_pos n))) 12,
      AddWord (coord (fy (npc_pos n))) 14,
      AddWord (npc_clientid n) 16,
      forM_upto 12 (\<lambda>k. AddByte 0xcc (18 + k)),
      AddStr frame (map c2b (npcname n)) 18,
      whenM (mobcode n = NPC_NORMAL) (AddByte 150 30),
      AddWord (ucast (npc_mobid n)) 34,
      forM_upto 15 (\<lambda>k. AddWord (ucast (itemid (inventory n k))) (2 * k + 36)),
      AddByte 0 66,
      AddByte 0 67,
      AddWord 0 69,
      AddWord (ucast (npc_level n)) 100,
      AddWord 3 102,
      AddWord 93 104,
      AddByte (ucast (mobcode n)) 106,
      AddByte 1 107,
      AddWord 800 108,
      AddWord 0 110,
      AddWord 800 112,
      AddWord 0 114,
      AddWord (ucast (n_str n)) 116,
      AddWord (ucast (n_int n)) 118,
      AddWord (ucast (n_dex n)) 120,
      AddWord (ucast (n_con n)) 122,
      AddWord 2047 124,
      AddWord 2047 126,
      AddWord 0 128,
      AddWord 0 130,
      forM_upto 29 (\<lambda>k. AddByte 0xcc (147 + k)),
      AddByte 0 172]"

definition SpawnNPC :: "env \<Rightarrow> nat \<Rightarrow> nat \<Rightarrow> bool act" where
  "SpawnNPC E this a =
     bnd (GetNewMobID E) (\<lambda>i.
     bnd (upd_npc a (\<lambda>n. n\<lparr>npc_clientid := ucast i\<rparr>)) (\<lambda>_.
     bnd (npc a) (\<lambda>n.
     bnd (memoryM E) (\<lambda>frame.
     bnd (on_packet (spawn_npc_packet n frame)) (\<lambda>_.
     bnd (SendPk E this 172) (\<lambda>_. ret True))))))"

section \<open>Messages\<close>

definition SendServerMsg :: "env \<Rightarrow> nat \<Rightarrow> string \<Rightarrow> varg list \<Rightarrow> bool act" where
  "SendServerMsg E this f as =
     bnd (liftE (sprintf_buf 2000 f as)) (\<lambda>buffer.
     bnd (memoryM E) (\<lambda>frame.
     bnd (on_packet (seqM
       [Free,
        AddWord 108 0,
        AddByte 0x01 4,
        AddByte 0x01 5,
        AddStr frame (map c2b buffer) 12])) (\<lambda>_.
     bnd (SendPk E this 108) (\<lambda>_. ret True))))"

section \<open>Layout of the packets\<close>

text \<open>
  The 172 bytes that describe a character: every field, the constants, and zeros in between. \<open>fr\<close> is the stack that
  \<open>AddStr\<close> copies from instead of the name.
\<close>

definition spawn_fields :: "CConnClient \<Rightarrow> bytes \<Rightarrow> string \<Rightarrow> bytes \<Rightarrow> bool" where
  "spawn_fields c fr name d \<longleftrightarrow>
     (let st = PlayerStats c; pos = current (PlayerPosition c); cid = ucast (clientid (PlayerSession c)) in
      w16 d 0 = 172 \<and> w16 d 4 = 0x0364 \<and> w16 d 6 = 30000 \<and> w16 d 12 = coord (fx pos) \<and> w16 d 14 = coord (fy pos) \<and>
      w16 d 16 = cid \<and> (\<forall>k < 12. d (18 + k) = (if k < length name then fr k else 0xcc)) \<and> d 30 = 150 \<and>
      d 34 = ucast (mobid (PlayerInfo c)) \<and> (\<forall>k < 15. w16 d (2 * k + 36) = ucast (itemid (items c k))) \<and>
      w16 d 66 = cid \<and> w16 d 69 = 0 \<and> w16 d 100 = ucast (Level (PlayerInfo c)) \<and> w16 d 102 = ucast (Attack_Power st) \<and>
      w16 d 104 = ucast (Defense st) \<and> d 106 = 0 \<and> d 107 = 84 \<and> w16 d 108 = MaxHP st \<and> w16 d 110 = MaxMP st \<and>
      w16 d 112 = HP st \<and> w16 d 114 = MP st \<and> w16 d 116 = Str st \<and> w16 d 118 = Intel st \<and> w16 d 120 = Dex st \<and>
      w16 d 122 = Con st \<and> w16 d 128 = 2 \<and> w16 d 130 = 0 \<and> (\<forall>k < 25. d (147 + k) = 0xcc) \<and>
      (\<forall>j. 2 \<le> j \<and> j < 4 \<or> 8 \<le> j \<and> j < 12 \<or> j = 68 \<or> 71 \<le> j \<and> j < 100 \<or> 124 \<le> j \<and> j < 128 \<or> 132 \<le> j \<and> j < 147 \<longrightarrow> d j = 0))"

lemma spawn_char_layout:
  assumes "length name \<le> 29"
  shows "\<exists>f. lays (spawn_char_packet c frame name) f \<and> (\<forall>d. spawn_fields c frame name (f d))"
  unfolding spawn_char_packet_def spawn_fields_def Let_def
  by (rule exI, rule conjI, (rule lays_rules lays_AddStr | (use assms in \<open>simp; fail\<close>))+)
    (insert assms, intro allI conjI impI; (elim disjE)?; simp add: layout_simps)

text \<open>Only the bytes of the packet count.\<close>

lemma spawn_fields_map: "spawn_fields c fr name d \<Longrightarrow> spawn_fields c fr name ((!) (map d [0..<172]))"
  by (simp add: spawn_fields_def Let_def w16_def)

lemma spawn_npc_layout:
  assumes "length (npcname n) \<le> 60000"
  shows "\<exists>f. lays (spawn_npc_packet n frame) f"
  unfolding spawn_npc_packet_def
  by (rule exI, (rule lays_rules lays_AddStr lays_whenM | (use assms in \<open>simp; fail\<close>))+)

text \<open>
  A builder that lays out \<open>f\<close>, run on the global buffer and sent: one packet with that plain text
  leaves, and nothing else of the game changes.
\<close>

lemma lays_send_run:
  assumes "lays m f" and "clients w a = Some c"
  shows "\<exists>w'. bnd (on_packet m) (\<lambda>_. SendPk E a len) w = Inr ((), w') \<and> pk_only w w' \<and>
    deliveries (trace w') = deliveries (trace w) @ [(sock c, map (f (bufD (packet w))) [0..<unat len])]"
proof -
  obtain p where "m (packet w) = Inr ((), p)" and p: "bufD p = f (bufD (packet w))"
    using assms(1) by (rule laysE)
  from build_send_run [of m w, OF this(1) assms(2), of E len] show ?thesis
    by (auto simp: p)
qed

lemma send_step:
  assumes "lays m f" and "clients w a = Some c"
  obtains w' where "\<And>k :: 'k act. bnd (on_packet m) (\<lambda>_. bnd (SendPk E a len) (\<lambda>_. k)) w = k w'" and "pk_only w w'"
    and "deliveries (trace w') = deliveries (trace w) @ [(sock c, map (f (bufD (packet w))) [0..<unat len])]"
proof -
  obtain w' where w': "bnd (on_packet m) (\<lambda>_. SendPk E a len) w = Inr ((), w')" "pk_only w w'"
    "deliveries (trace w') = deliveries (trace w) @ [(sock c, map (f (bufD (packet w))) [0..<unat len])]"
    using lays_send_run [OF assms] by blast
  have "bnd (bnd (on_packet m) (\<lambda>_. SendPk E a len)) (\<lambda>_. k) w = k w'" for k :: "'k act"
    using w'(1) by simp
  then show thesis using w'(2,3) by (intro that) (simp_all add: bnd_assoc)
qed

lemma memoryM_bnd [simp]: "bnd (memoryM E) f w = f (memory_at E (tick w)) (w\<lparr>tick := Suc (tick w)\<rparr>)"
  by (simp add: memoryM_def bnd_assoc)

lemma memory_send_run:
  assumes "lays (m (memory_at E (tick w))) f" and "clients w a = Some c"
  shows "\<exists>w'. bnd (memoryM E) (\<lambda>fr. bnd (on_packet (m fr)) (\<lambda>_. bnd (SendPk E a len) (\<lambda>_. ret (r :: 'r)))) w = Inr (r, w')
    \<and> pk_only w w' \<and>
    deliveries (trace w') = deliveries (trace w) @ [(sock c, map (f (bufD (packet w))) [0..<unat len])]"
proof -
  let ?w1 = "w\<lparr>tick := Suc (tick w)\<rparr>"
  have "clients ?w1 a = Some c" using assms(2) by simp
  then obtain w' where
    "\<And>k :: 'r act. bnd (on_packet (m (memory_at E (tick w)))) (\<lambda>_. bnd (SendPk E a len) (\<lambda>_. k)) ?w1 = k w'"
    "pk_only ?w1 w'"
    "deliveries (trace w') = deliveries (trace ?w1) @ [(sock c, map (f (bufD (packet ?w1))) [0..<unat len])]"
    using send_step [OF assms(1)] by blast
  moreover have "pk_only w w'"
    using pk_only_trans [OF pk_only_tick \<open>pk_only ?w1 w'\<close>] .
  ultimately show ?thesis by (simp add: ret_def)
qed

lemma SpawnChar_run:
  assumes me: "clients w this = Some me" and oth: "clients w other = Some c"
    and name: "cstr (char_name (PlayerInfo c)) = Inr name" "length name \<le> 29"
  shows "\<exists>w' p. SpawnChar E this other w = Inr (True, w') \<and> pk_only w w' \<and>
    deliveries (trace w') = deliveries (trace w) @ [(sock me, p)] \<and> length p = 172 \<and>
    le16 p 4 = 0x0364 \<and> le16 p 12 = coord (fx (current (PlayerPosition c))) \<and>
    le16 p 14 = coord (fy (current (PlayerPosition c))) \<and>
    le16 p 16 = ucast (clientid (PlayerSession c)) \<and> le16 p 100 = ucast (Level (PlayerInfo c)) \<and>
    le16 p 108 = MaxHP (PlayerStats c) \<and> le16 p 112 = HP (PlayerStats c)"
proof -
  let ?m = "\<lambda>fr. spawn_char_packet c fr name"
  from spawn_char_layout [OF name(2), of c "memory_at E (tick w)"]
  obtain f where f: "lays (?m (memory_at E (tick w))) f"
    and d: "\<And>d. spawn_fields c (memory_at E (tick w)) name (f d)" by blast
  have eq: "SpawnChar E this other w = bnd (memoryM E) (\<lambda>fr. bnd (on_packet (?m fr))
      (\<lambda>_. bnd (SendPk E this 172) (\<lambda>_. ret True))) w"
    using oth name(1) by (simp add: SpawnChar_def liftE_def)
  from memory_send_run [where m = ?m, OF f me, of 172 True]
  obtain w' where "SpawnChar E this other w = Inr (True, w')" "pk_only w w'"
    "deliveries (trace w') = deliveries (trace w) @ [(sock me, map (f (bufD (packet w))) [0..<172])]"
    by (auto simp: eq)
  then show ?thesis
    using d [of "bufD (packet w)"] unfolding spawn_fields_def Let_def
    by (intro exI conjI) (assumption | simp add: le16_map)+
qed

text \<open>
  \<open>SpawnNPC\<close> gives the NPC a new id each time: besides the packet it changes the id of that NPC and
  the table of free ids, and nothing else.
\<close>

definition npc_ids_only :: "world \<Rightarrow> world \<Rightarrow> bool" where
  "npc_ids_only w w' \<longleftrightarrow> clients w' = clients w \<and> ClientList w' = ClientList w \<and> NPCList w' = NPCList w \<and>
     (\<forall>a. map_option (\<lambda>n. n\<lparr>npc_clientid := 0\<rparr>) (npcs w' a) = map_option (\<lambda>n. n\<lparr>npc_clientid := 0\<rparr>) (npcs w a))"

lemma npc_ids_only_refl [simp]: "npc_ids_only w w"
  by (simp add: npc_ids_only_def)

lemma npc_ids_only_trans: "npc_ids_only a b \<Longrightarrow> npc_ids_only b c \<Longrightarrow> npc_ids_only a c"
  by (simp add: npc_ids_only_def)

lemma pk_npc_ids_only: "pk_only w w' \<Longrightarrow> npc_ids_only w w'"
  by (simp add: npc_ids_only_def pk_onlyD)

lemma npc_ids_onlyD:
  assumes "npc_ids_only w w'"
  shows "clients w' = clients w" "ClientList w' = ClientList w" "NPCList w' = NPCList w"
    "npcs w a = Some n \<Longrightarrow> \<exists>i. npcs w' a = Some (n\<lparr>npc_clientid := i\<rparr>)"
    "npcs w' a = None \<longleftrightarrow> npcs w a = None"
proof -
  show "clients w' = clients w" "ClientList w' = ClientList w" "NPCList w' = NPCList w"
    using assms by (simp_all add: npc_ids_only_def)
  have e: "map_option (\<lambda>n. n\<lparr>npc_clientid := 0\<rparr>) (npcs w' a) = map_option (\<lambda>n. n\<lparr>npc_clientid := 0\<rparr>) (npcs w a)"
    using assms by (simp add: npc_ids_only_def)
  then show "npcs w' a = None \<longleftrightarrow> npcs w a = None" by (metis map_option_is_None)
  assume "npcs w a = Some n"
  with e obtain n' where n': "npcs w' a = Some n'" "n'\<lparr>npc_clientid := 0\<rparr> = n\<lparr>npc_clientid := 0\<rparr>" by auto
  have "n' = n'\<lparr>npc_clientid := 0\<rparr>\<lparr>npc_clientid := npc_clientid n'\<rparr>" by simp
  also have "\<dots> = n\<lparr>npc_clientid := npc_clientid n'\<rparr>" by (simp only: n'(2)) simp
  finally show "\<exists>i. npcs w' a = Some (n\<lparr>npc_clientid := i\<rparr>)" using n'(1) by auto
qed

lemma id_base_sel:
  assumes "id_base w' = id_base w"
  shows "clients w' = clients w" "ClientList w' = ClientList w" "NPCList w' = NPCList w" "npcs w' = npcs w"
    "packet w' = packet w" "trace w' = trace w"
proof -
  have "clients (id_base v) = clients v" "ClientList (id_base v) = ClientList v" "NPCList (id_base v) = NPCList v"
    "npcs (id_base v) = npcs v" "packet (id_base v) = packet v" "trace (id_base v) = trace v" for v
    by (simp_all add: id_base_def)
  then show "clients w' = clients w" "ClientList w' = ClientList w" "NPCList w' = NPCList w" "npcs w' = npcs w"
    "packet w' = packet w" "trace w' = trace w" using assms by metis+
qed

lemma SpawnNPC_run:
  assumes me: "clients w this = Some me" and n: "npcs w a = Some n" and len: "length (npcname n) \<le> 60000"
  shows "\<exists>w' p. SpawnNPC E this a w = Inr (True, w') \<and> npc_ids_only w w' \<and>
    deliveries (trace w') = deliveries (trace w) @ [(sock me, p)] \<and> length p = 172"
proof -
  obtain i w1 where i: "GetNewMobID E w = Inr (i, w1)"
    using id_loop_returns [of E 2000 w] by (auto simp: GetNewMobID_def)
  then have "id_base w1 = id_base w"
    using id_loop_cases [of E 2000 w i w1] by (auto simp: GetNewMobID_def elim: id_stepE)
  note w1 = id_base_sel [OF this]
  let ?n = "n\<lparr>npc_clientid := ucast i\<rparr>"
  let ?w2 = "w1\<lparr>npcs := (npcs w1)(a \<mapsto> ?n)\<rparr>"
  let ?m = "\<lambda>fr. spawn_npc_packet ?n fr"
  have "length (npcname ?n) \<le> 60000" using len by simp
  from spawn_npc_layout [OF this] obtain f where f: "lays (?m (memory_at E (tick ?w2))) f" by blast
  have "clients ?w2 this = Some me" using me w1 by simp
  from memory_send_run [where m = ?m, OF f this, of 172 True] obtain w' where
    w': "bnd (memoryM E) (\<lambda>fr. bnd (on_packet (?m fr)) (\<lambda>_. bnd (SendPk E this 172) (\<lambda>_. ret True))) ?w2 = Inr (True, w')"
      "pk_only ?w2 w'"
      "deliveries (trace w') = deliveries (trace ?w2) @ [(sock me, map (f (bufD (packet ?w2))) [0..<unat (172 :: u16)])]"
    by blast
  have "npcs w1 a = Some n" using n w1 by simp
  then have "SpawnNPC E this a w =
      bnd (memoryM E) (\<lambda>fr. bnd (on_packet (?m fr)) (\<lambda>_. bnd (SendPk E this 172) (\<lambda>_. ret True))) ?w2"
    by (simp add: SpawnNPC_def i del: memoryM_bnd)
  also note w'(1)
  finally have "SpawnNPC E this a w = Inr (True, w')" .
  moreover have "npc_ids_only w ?w2" using w1 n by (simp add: npc_ids_only_def)
  then have "npc_ids_only w w'" using npc_ids_only_trans [OF _ pk_npc_ids_only [OF w'(2)]] by blast
  ultimately show ?thesis using w'(3) w1 by (intro exI conjI) (assumption | simp)+
qed

end
