(* ===== verification/ClientFunctions.thy ===== *)
theory ClientFunctions
  imports Spawn
begin

text \<open>
  The member functions of \<open>CConnClient\<close>: the constructor, \<open>loaddata\<close> and \<open>savedata\<close>
  (\<open>src/src/gameserver/game_client.cpp\<close>), the upkeep of the lists of visible clients and NPCs
  (\<open>game_clientfunctions.cpp\<close>) and the walking interpolation (\<open>game_player.cpp\<close>).

  The locale \<open>hysteresis\<close> is the contract of a view that is entered at a small distance and left
  at a larger one: what a scan over the listed objects keeps, that a second scan changes nothing, and
  that an object between the two radii keeps its status. It is interpreted for the players
  (\<open>players\<close>) and for the NPCs (\<open>mobs\<close>), and the loops of \<open>VisiblityList\<close> are shown to
  compute its \<open>view\<close>.
\<close>

section \<open>Construction\<close>

definition INVALID_SOCKET :: u32 where
  "INVALID_SOCKET = 0xFFFFFFFF"

definition CBaseSocket_new :: "CConnClient \<Rightarrow> CConnClient" where
  "CBaseSocket_new c = c\<lparr>sock := INVALID_SOCKET, isActive := False\<rparr>"

text \<open>
  \<open>junk\<close> is the object as \<open>new\<close> leaves it: members the constructors do not assign keep its values.
\<close>

definition CConnClient_new :: "CConnClient \<Rightarrow> CConnClient" where
  "CConnClient_new junk =
     (let c = CBaseSocket_new junk; st = PlayerStats c; pos = PlayerPosition c; i = PlayerInfo c in
      c\<lparr>PlayerSession := \<lparr>clientid = 0, charid = 0, userid = 0,
           username = replicate 17 NUL, password = replicate 33 NUL,
           accesslevel = 1, isLoggedIn = False, inGame = False\<rparr>,
        PlayerStats := st\<lparr>MaxHP := 0, MaxMP := 0, HP := 0, MP := 0, MaxWeight := 0,
           Str := 0, Dex := 0, Intel := 0, Con := 0, Attack_Power := 0, Defense := 0,
           Magic_Defense := 0, Accury := 0, Critical := 0, Dodge := 0, Attack_Speed := 0,
           Move_Speed := 0\<rparr>,
        PlayerPosition := pos\<lparr>current := \<lparr>fx = Fin 0, fy = Fin 0\<rparr>, destiny := \<lparr>fx = Fin 0, fy = Fin 0\<rparr>\<rparr>,
        PlayerInfo := i\<lparr>char_name := memcpy_front (char_name i) (replicate 17 NUL),
           classid := 0, Exp := 0, Gold := 0, Level := 0, mobid := 0, SkillPoints := 0,
           StatPoints := 0, Storage_Gold := 0\<rparr>,
        PlayerTime := \<lparr>lastAttackTime = 0, lastRegenTime = 0, lastMoveTime = 0, lastSaveTime = 0,
           lastGG = 0, initSkill = 0\<rparr>,
        Saved := False, ready := False, VisibleClients := [], isInvisibleMode := False,
        VisibleNPCs := []\<rparr>)"

section \<open>Loading a character\<close>

definition load_char_query :: string where
  "load_char_query = ''SELECT id,cexp,clevel,gold,skpoints,stpoints,max_hp, '' @ [CHR 0x09] @
     ''max_mp,cstr,cint,cdex,ccon,mobid,pos_x,pos_y,classid FROM characters '' @ [CHR 0x09] @
     ''WHERE name='' @ [CHR 0x27] @ ''%s'' @ [CHR 0x27] @ '' AND uid='' @ [CHR 0x27] @ ''%s'' @ [CHR 0x27]"

definition load_items_query :: string where
  "load_items_query =
     ''SELECT slotnum,itemid,add1,add2,add3,addval1,addval2,addval3 FROM char_items WHERE owner='' @
     [CHR 0x27] @ ''%s'' @ [CHR 0x27]"

definition load_char_row :: "u32 list \<Rightarrow> CConnClient \<Rightarrow> CConnClient" where
  "load_char_row v c =
     c\<lparr>PlayerSession := (PlayerSession c)\<lparr>charid := v ! 0\<rparr>,
       PlayerInfo := (PlayerInfo c)\<lparr>Exp := v ! 1, Level := v ! 2, Gold := v ! 3, SkillPoints := v ! 4,
         StatPoints := v ! 5, mobid := v ! 12, classid := v ! 15\<rparr>,
       PlayerStats := (PlayerStats c)\<lparr>MaxHP := ucast (v ! 6), MaxMP := ucast (v ! 7), HP := ucast (v ! 6),
         MP := ucast (v ! 7), Str := ucast (v ! 8), Intel := ucast (v ! 9), Dex := ucast (v ! 10),
         Con := ucast (v ! 11)\<rparr>,
       PlayerPosition := (PlayerPosition c)\<lparr>current :=
         \<lparr>fx = f_of_int (sint (v ! 13)), fy = f_of_int (sint (v ! 14))\<rparr>\<rparr>\<rparr>"

definition item_of_row :: "u32 list \<Rightarrow> CItem" where
  "item_of_row v = \<lparr>itemid = v ! 1, add1 = v ! 2, add2 = v ! 3, add3 = v ! 4,
     val1 = v ! 5, val2 = v ! 6, val3 = v ! 7\<rparr>"

fun load_items :: "nat \<Rightarrow> sql_row list \<Rightarrow> unit act" where
  "load_items this [] = ret ()"
| "load_items this (row # rows) =
     bnd (liftE (cells_u32 row [0..<8])) (\<lambda>v.
     if unat (v ! 0) < 78 then
       bnd (upd_client this (\<lambda>c. c\<lparr>items := (items c)(unat (v ! 0) := item_of_row v)\<rparr>)) (\<lambda>_.
       load_items this rows)
     else throw Out_of_bounds)"

definition loaddata :: "env \<Rightarrow> nat \<Rightarrow> bool act" where
  "loaddata E this =
     bnd (client this) (\<lambda>c.
     bnd (liftE (cstr (char_name (PlayerInfo c)))) (\<lambda>name.
     bnd (liftE (cstr (username (PlayerSession c)))) (\<lambda>user.
     bnd (DoSQL E load_char_query [VStr 0 name, VStr 0 user]) (\<lambda>ok.
     if \<not> ok then ret False
     else bnd mysql_store_result (\<lambda>rows.
       case rows of
         [] \<Rightarrow> throw Null_deref
       | row # _ \<Rightarrow>
           bnd (liftE (cells_u32 row [0..<16])) (\<lambda>v.
           bnd (upd_client this (load_char_row v)) (\<lambda>_.
           bnd (liftE (cell row 0)) (\<lambda>(p, s).
           bnd (DoSQL E load_items_query [VStr p s]) (\<lambda>ok.
           if \<not> ok then ret True
           else bnd mysql_store_result (\<lambda>rows.
             bnd (upd_client this (\<lambda>c. c\<lparr>items := (\<lambda>j. if j < 77 then ClearItem else items c j)\<rparr>)) (\<lambda>_.
             bnd (load_items this rows) (\<lambda>_.
             bnd (upd_client this (\<lambda>c. c\<lparr>PlayerSession := (PlayerSession c)\<lparr>isLoggedIn := True\<rparr>\<rparr>)) (\<lambda>_.
             ret True)))))))))))))"

definition savedata :: "nat \<Rightarrow> bool act" where
  "savedata this = ret True"

section \<open>Visibility\<close>

definition MAXVISUALRANGE :: int where
  "MAXVISUALRANGE = 50"

definition MINVISUALRANGE :: int where
  "MINVISUALRANGE = 30"

definition ClearObject :: "nat \<Rightarrow> u32 \<Rightarrow> bool act" where
  "ClearObject this otherclientid = ret True"

fun vis_clients :: "env \<Rightarrow> nat \<Rightarrow> nat list \<Rightarrow> nat list \<Rightarrow> nat list act" where
  "vis_clients E this [] newVisibleClients = ret newVisibleClients"
| "vis_clients E this (a # as) newVisibleClients =
     (if this = a then vis_clients E this as newVisibleClients
      else bnd (client a) (\<lambda>otherclient.
        if \<not> inGame (PlayerSession otherclient) then vis_clients E this as newVisibleClients
        else bnd (client this) (\<lambda>me.
          let d = distance (current (PlayerPosition me)) (current (PlayerPosition otherclient)) in
          if IsVisible me a then
            if f_less d (f_of_int MAXVISUALRANGE) \<and> \<not> isInvisibleMode otherclient
            then vis_clients E this as (newVisibleClients @ [a])
            else bnd (ClearObject this (clientid (PlayerSession otherclient))) (\<lambda>_.
              vis_clients E this as newVisibleClients)
          else
            if f_less d (f_of_int MINVISUALRANGE) \<and> \<not> isInvisibleMode otherclient
            then bnd (SpawnChar E this a) (\<lambda>_.
              vis_clients E this as (newVisibleClients @ [a]))
            else vis_clients E this as newVisibleClients)))"

fun vis_npcs :: "env \<Rightarrow> nat \<Rightarrow> nat list \<Rightarrow> nat list \<Rightarrow> nat list act" where
  "vis_npcs E this [] newVisibleNPCs = ret newVisibleNPCs"
| "vis_npcs E this (a # as) newVisibleNPCs =
     bnd (npc a) (\<lambda>thisnpc.
     bnd (client this) (\<lambda>me.
       let d = distance (current (PlayerPosition me)) (npc_pos thisnpc) in
       if IsVisibleNPC me a then
         if f_less d (f_of_int MAXVISUALRANGE)
         then vis_npcs E this as (newVisibleNPCs @ [a])
         else bnd (ClearObject this (ucast (npc_clientid thisnpc))) (\<lambda>_.
           vis_npcs E this as newVisibleNPCs)
       else
         if f_less d (f_of_int MINVISUALRANGE)
         then bnd (SpawnNPC E this a) (\<lambda>_. vis_npcs E this as (newVisibleNPCs @ [a]))
         else vis_npcs E this as newVisibleNPCs))"

definition VisiblityList :: "env \<Rightarrow> nat \<Rightarrow> bool act" where
  "VisiblityList E this =
     bnd (gets ClientList) (\<lambda>cs.
     bnd (vis_clients E this cs []) (\<lambda>newVisibleClients.
     bnd (gets NPCList) (\<lambda>ns.
     bnd (vis_npcs E this ns []) (\<lambda>newVisibleNPCs.
     bnd (upd_client this (\<lambda>c. c\<lparr>VisibleClients := newVisibleClients, VisibleNPCs := newVisibleNPCs\<rparr>)) (\<lambda>_.
     ret True)))))"

section \<open>Movement\<close>

text \<open>\<open>(float)(PlayerStats->Move_Speed * 0.01)\<close>: the product is computed in double precision.\<close>

definition speed_of :: "u32 \<Rightarrow> flt" where
  "speed_of ms =
     (case to_f64 (1 / 100) of
        Fin c \<Rightarrow> (case to_f64 (of_nat (unat ms) * c) of Fin y \<Rightarrow> to_f32 y | v \<Rightarrow> v)
      | v \<Rightarrow> v)"

definition PlayerMovement :: "env \<Rightarrow> nat \<Rightarrow> bool act" where
  "PlayerMovement E this =
     bnd (client this) (\<lambda>c.
     let cur = current (PlayerPosition c); dst = destiny (PlayerPosition c) in
     if \<not> inGame (PlayerSession c) \<or> \<not> isLoggedIn (PlayerSession c) then ret True
     else if f_eq (fx cur) (fx dst) \<and> f_eq (fy cur) (fy dst) then ret True
     else
       (let dx = f_sub (fx dst) (fx cur); dy = f_sub (fy dst) (fy cur);
            d = f_sqrt (f_add (f_mul dx dx) (f_mul dy dy)) in
        bnd (clockM E) (\<lambda>t.
        let etime = f_of_int (sint (t - lastMoveTime (PlayerTime c)));
            speed = speed_of (Move_Speed (PlayerStats c));
            ntime = f_mul (f_div d speed) (f_of_int 1000) in
        bnd (clockM E) (\<lambda>t'.
        bnd (upd_client this (\<lambda>c. c\<lparr>PlayerTime := (PlayerTime c)\<lparr>lastMoveTime := t'\<rparr>,
          PlayerPosition := (PlayerPosition c)\<lparr>current :=
            (if f_le ntime etime \<or> f_eq d (Fin 0) then dst
             else \<lparr>fx = f_add (f_mul dx (f_div etime ntime)) (fx cur),
                   fy = f_add (f_mul dy (f_div etime ntime)) (fy cur)\<rparr>)\<rparr>\<rparr>)) (\<lambda>_.
        ret True)))))"

section \<open>Views with hysteresis\<close>

definition hview :: "('a \<Rightarrow> bool) \<Rightarrow> ('a \<Rightarrow> bool) \<Rightarrow> 'a list \<Rightarrow> 'a list \<Rightarrow> 'a list" where
  "hview inner outer old xs = filter (\<lambda>a. if a \<in> set old then outer a else inner a) xs"

lemma hview_Nil [simp]: "hview inner outer old [] = []"
  by (simp add: hview_def)

lemma hview_Cons [simp]:
  "hview inner outer old (a # as) =
     (if (if a \<in> set old then outer a else inner a) then a # hview inner outer old as else hview inner outer old as)"
  by (simp add: hview_def)

locale hysteresis =
  fixes inner outer :: "'a \<Rightarrow> bool"
  assumes inner_outer: "inner a \<Longrightarrow> outer a"
begin

lemma view_again: "hview inner outer (hview inner outer old xs) xs = hview inner outer old xs"
  unfolding hview_def by (rule filter_cong) (auto simp: inner_outer)

lemma view_between:
  "a \<in> set xs \<Longrightarrow> outer a \<Longrightarrow> \<not> inner a \<Longrightarrow> a \<in> set (hview inner outer old xs) \<longleftrightarrow> a \<in> set old"
  by (auto simp: hview_def)

lemma view_inner: "a \<in> set xs \<Longrightarrow> inner a \<Longrightarrow> a \<in> set (hview inner outer old xs)"
  by (auto simp: hview_def inner_outer)

lemma view_outside: "\<not> outer a \<Longrightarrow> a \<notin> set (hview inner outer old xs)"
  by (auto simp: hview_def inner_outer)

lemma view_newcomers: "filter (\<lambda>a. a \<notin> set (hview inner outer old xs)) (hview inner outer old xs) = []"
  by (simp add: filter_empty_conv)

end

definition sees_client :: "world \<Rightarrow> nat \<Rightarrow> int \<Rightarrow> nat \<Rightarrow> bool" where
  "sees_client w this R a =
     (case (clients w this, clients w a) of
        (Some me, Some c) \<Rightarrow> this \<noteq> a \<and> inGame (PlayerSession c) \<and> \<not> isInvisibleMode c \<and>
          f_less (distance (current (PlayerPosition me)) (current (PlayerPosition c))) (f_of_int R)
      | _ \<Rightarrow> False)"

definition sees_npc :: "world \<Rightarrow> nat \<Rightarrow> int \<Rightarrow> nat \<Rightarrow> bool" where
  "sees_npc w this R a =
     (case (clients w this, npcs w a) of
        (Some me, Some n) \<Rightarrow> f_less (distance (current (PlayerPosition me)) (npc_pos n)) (f_of_int R)
      | _ \<Rightarrow> False)"

abbreviation client_view :: "world \<Rightarrow> nat \<Rightarrow> nat list \<Rightarrow> nat list \<Rightarrow> nat list" where
  "client_view w this \<equiv> hview (sees_client w this MINVISUALRANGE) (sees_client w this MAXVISUALRANGE)"

abbreviation npc_view :: "world \<Rightarrow> nat \<Rightarrow> nat list \<Rightarrow> nat list \<Rightarrow> nat list" where
  "npc_view w this \<equiv> hview (sees_npc w this MINVISUALRANGE) (sees_npc w this MAXVISUALRANGE)"

lemma f_of_int_range: "f_of_int MINVISUALRANGE = Fin 30" "f_of_int MAXVISUALRANGE = Fin 50"
  using to_f32_int [of 30] to_f32_int [of 50] by (simp_all add: f_of_int_def MINVISUALRANGE_def MAXVISUALRANGE_def)

lemma range_mono: "f_less d (f_of_int MINVISUALRANGE) \<Longrightarrow> f_less d (f_of_int MAXVISUALRANGE)"
  by (cases d) (simp_all add: f_of_int_range)

interpretation players: hysteresis "sees_client w this MINVISUALRANGE" "sees_client w this MAXVISUALRANGE" for w this
  by unfold_locales (auto simp: sees_client_def range_mono split: option.splits)

interpretation mobs: hysteresis "sees_npc w this MINVISUALRANGE" "sees_npc w this MAXVISUALRANGE" for w this
  by unfold_locales (auto simp: sees_npc_def range_mono split: option.splits)

section \<open>The scans compute the views\<close>

text \<open>A client whose name is a C string can be shown to others.\<close>

definition named :: "CConnClient \<Rightarrow> bool" where
  "named c \<longleftrightarrow> (\<exists>name. cstr (char_name (PlayerInfo c)) = Inr name \<and> length name \<le> 29)"

definition to_only :: "u32 \<Rightarrow> world \<Rightarrow> nat \<Rightarrow> world \<Rightarrow> bool" where
  "to_only s w n w' \<longleftrightarrow> (\<exists>ps. length ps = n \<and> deliveries (trace w') = deliveries (trace w) @ map (Pair s) ps)"

lemma to_only_refl: "to_only s w 0 w"
  by (simp add: to_only_def)

lemma to_only_one: "deliveries (trace w') = deliveries (trace w) @ [(s, p)] \<Longrightarrow> to_only s w 1 w'"
  by (auto simp: to_only_def intro!: exI [of _ "[p]"])

lemma to_only_trans: "to_only s w m w1 \<Longrightarrow> to_only s w1 n w2 \<Longrightarrow> to_only s w (m + n) w2"
proof -
  assume "to_only s w m w1" "to_only s w1 n w2"
  then obtain ps qs where "length ps = m" "deliveries (trace w1) = deliveries (trace w) @ map (Pair s) ps"
    "length qs = n" "deliveries (trace w2) = deliveries (trace w1) @ map (Pair s) qs"
    by (auto simp: to_only_def)
  then show ?thesis by (auto simp: to_only_def intro!: exI [of _ "ps @ qs"])
qed

abbreviation newcomers :: "nat list \<Rightarrow> nat list \<Rightarrow> nat" where
  "newcomers old new \<equiv> length (filter (\<lambda>a. a \<notin> set old) new)"

lemma sees_client_pk: "pk_only w w' \<Longrightarrow> sees_client w' = sees_client w"
  by (intro ext) (simp add: sees_client_def pk_onlyD)

lemma vis_clients_run:
  assumes "clients w this = Some me" and "\<And>a. a \<in> set as \<Longrightarrow> \<exists>c. clients w a = Some c \<and> named c"
  shows "\<exists>w'. vis_clients E this as acc w = Inr (acc @ client_view w this (VisibleClients me) as, w') \<and>
    pk_only w w' \<and> to_only (sock me) w (newcomers (VisibleClients me) (client_view w this (VisibleClients me) as)) w'"
  using assms
proof (induction as arbitrary: w acc)
  case Nil
  show ?case by (simp add: to_only_refl ret_def)
next
  case (Cons a as)
  obtain c name where c: "clients w a = Some c" and name: "cstr (char_name (PlayerInfo c)) = Inr name" "length name \<le> 29"
    using Cons.prems(2) [of a] by (auto simp: named_def)
  have tl: "\<And>b. b \<in> set as \<Longrightarrow> \<exists>c. clients w b = Some c \<and> named c" using Cons.prems(2) by simp
  note IH = Cons.IH [OF Cons.prems(1) tl]
  have sees: "sees_client w this R a \<longleftrightarrow> this \<noteq> a \<and> inGame (PlayerSession c) \<and> \<not> isInvisibleMode c \<and>
      f_less (distance (current (PlayerPosition me)) (current (PlayerPosition c))) (f_of_int R)" for R
    using Cons.prems(1) c by (simp add: sees_client_def)
  consider (enter) "a \<notin> set (VisibleClients me)" "sees_client w this MINVISUALRANGE a"
    | (keep) "a \<in> set (VisibleClients me)" "sees_client w this MAXVISUALRANGE a"
    | (drop) "\<not> (if a \<in> set (VisibleClients me) then sees_client w this MAXVISUALRANGE a
        else sees_client w this MINVISUALRANGE a)" by metis
  then show ?case
  proof cases
    case enter
    obtain w1 p where w1: "SpawnChar E this a w = Inr (True, w1)" "pk_only w w1"
      "deliveries (trace w1) = deliveries (trace w) @ [(sock me, p)]"
      using SpawnChar_run [OF Cons.prems(1) c name] by blast
    have "clients w1 this = Some me" using Cons.prems(1) w1(2) by (simp add: pk_onlyD)
    from Cons.IH [OF this, of "acc @ [a]"] tl w1(2) obtain w2 where
      w2: "vis_clients E this as (acc @ [a]) w1 = Inr (acc @ a # client_view w this (VisibleClients me) as, w2)"
        "pk_only w1 w2"
        "to_only (sock me) w1 (newcomers (VisibleClients me) (client_view w this (VisibleClients me) as)) w2"
      by (auto simp: pk_onlyD sees_client_pk)
    have "to_only (sock me) w (1 + newcomers (VisibleClients me) (client_view w this (VisibleClients me) as)) w2"
      using to_only_trans [OF to_only_one [OF w1(3)] w2(3)] .
    moreover have "pk_only w w2" using pk_only_trans [OF w1(2) w2(2)] .
    moreover have "vis_clients E this (a # as) acc w = vis_clients E this as (acc @ [a]) w1"
      using enter w1(1) Cons.prems(1) c by (simp add: sees IsVisible_def Let_def)
    ultimately show ?thesis using enter w2(1) by simp
  next
    case keep
    then have "vis_clients E this (a # as) acc w = vis_clients E this as (acc @ [a]) w"
      using Cons.prems(1) c by (simp add: sees IsVisible_def Let_def)
    with keep IH [of "acc @ [a]"] show ?thesis by simp
  next
    case drop
    then have "vis_clients E this (a # as) acc w = vis_clients E this as acc w"
      using Cons.prems(1) c by (cases "a \<in> set (VisibleClients me)") (auto simp: sees IsVisible_def Let_def ClearObject_def)
    with drop IH [of acc] show ?thesis by simp
  qed
qed

lemma sees_npc_ids: "npc_ids_only w w' \<Longrightarrow> sees_npc w' = sees_npc w"
proof (intro ext)
  fix this R a assume ids: "npc_ids_only w w'"
  show "sees_npc w' this R a = sees_npc w this R a"
  proof (cases "npcs w a")
    case None
    with npc_ids_onlyD(5) [OF ids, of a] show ?thesis
      by (simp add: sees_npc_def split: option.split)
  next
    case (Some n)
    with npc_ids_onlyD(4) [OF ids Some] npc_ids_onlyD(1) [OF ids] show ?thesis
      by (auto simp: sees_npc_def split: option.split)
  qed
qed

lemma vis_npcs_run:
  assumes "clients w this = Some me" and "\<And>a. a \<in> set as \<Longrightarrow> \<exists>n. npcs w a = Some n \<and> length (npcname n) \<le> 60000"
  shows "\<exists>w'. vis_npcs E this as acc w = Inr (acc @ npc_view w this (VisibleNPCs me) as, w') \<and>
    npc_ids_only w w' \<and> to_only (sock me) w (newcomers (VisibleNPCs me) (npc_view w this (VisibleNPCs me) as)) w'"
  using assms
proof (induction as arbitrary: w acc)
  case Nil
  show ?case by (simp add: to_only_refl ret_def)
next
  case (Cons a as)
  obtain n where n: "npcs w a = Some n" and len: "length (npcname n) \<le> 60000"
    using Cons.prems(2) [of a] by auto
  have tl: "\<And>b. b \<in> set as \<Longrightarrow> \<exists>n. npcs w b = Some n \<and> length (npcname n) \<le> 60000" using Cons.prems(2) by simp
  note IH = Cons.IH [OF Cons.prems(1) tl]
  have sees: "sees_npc w this R a \<longleftrightarrow>
      f_less (distance (current (PlayerPosition me)) (npc_pos n)) (f_of_int R)" for R
    using Cons.prems(1) n by (simp add: sees_npc_def)
  consider (enter) "a \<notin> set (VisibleNPCs me)" "sees_npc w this MINVISUALRANGE a"
    | (keep) "a \<in> set (VisibleNPCs me)" "sees_npc w this MAXVISUALRANGE a"
    | (drop) "\<not> (if a \<in> set (VisibleNPCs me) then sees_npc w this MAXVISUALRANGE a
        else sees_npc w this MINVISUALRANGE a)" by metis
  then show ?case
  proof cases
    case enter
    obtain w1 p where w1: "SpawnNPC E this a w = Inr (True, w1)" "npc_ids_only w w1"
      "deliveries (trace w1) = deliveries (trace w) @ [(sock me, p)]"
      using SpawnNPC_run [OF Cons.prems(1) n len] by blast
    have c1: "clients w1 this = Some me" using Cons.prems(1) npc_ids_onlyD [OF w1(2)] by simp
    have tl1: "\<exists>n. npcs w1 b = Some n \<and> length (npcname n) \<le> 60000" if "b \<in> set as" for b
      using tl [OF that] npc_ids_onlyD(4) [OF w1(2), of b] by fastforce
    from Cons.IH [OF c1 tl1, of "acc @ [a]"] obtain w2 where
      w2: "vis_npcs E this as (acc @ [a]) w1 = Inr (acc @ a # npc_view w this (VisibleNPCs me) as, w2)"
        "npc_ids_only w1 w2"
        "to_only (sock me) w1 (newcomers (VisibleNPCs me) (npc_view w this (VisibleNPCs me) as)) w2"
      by (auto simp: sees_npc_ids [OF w1(2)])
    have "to_only (sock me) w (1 + newcomers (VisibleNPCs me) (npc_view w this (VisibleNPCs me) as)) w2"
      using to_only_trans [OF to_only_one [OF w1(3)] w2(3)] .
    moreover have "npc_ids_only w w2" using npc_ids_only_trans [OF w1(2) w2(2)] .
    moreover have "vis_npcs E this (a # as) acc w = vis_npcs E this as (acc @ [a]) w1"
      using enter w1(1) Cons.prems(1) n by (simp add: sees IsVisibleNPC_def Let_def)
    ultimately show ?thesis using enter w2(1) by simp
  next
    case keep
    then have "vis_npcs E this (a # as) acc w = vis_npcs E this as (acc @ [a]) w"
      using Cons.prems(1) n by (simp add: sees IsVisibleNPC_def Let_def)
    with keep IH [of "acc @ [a]"] show ?thesis by simp
  next
    case drop
    then have "vis_npcs E this (a # as) acc w = vis_npcs E this as acc w"
      using Cons.prems(1) n by (cases "a \<in> set (VisibleNPCs me)") (simp_all add: sees IsVisibleNPC_def Let_def ClearObject_def)
    with drop IH [of acc] show ?thesis by simp
  qed
qed

text \<open>
  The world in which a scan is safe: \<open>this\<close> and everything listed exist and have names that fit.
\<close>

definition scannable :: "world \<Rightarrow> bool" where
  "scannable w \<longleftrightarrow> (\<forall>a \<in> set (ClientList w). \<exists>c. clients w a = Some c \<and> named c) \<and>
     (\<forall>a \<in> set (NPCList w). \<exists>n. npcs w a = Some n \<and> length (npcname n) \<le> 60000)"

lemma VisiblityList_run:
  assumes me: "clients w this = Some me" and ok: "scannable w"
  defines "vc \<equiv> client_view w this (VisibleClients me) (ClientList w)"
    and "vn \<equiv> npc_view w this (VisibleNPCs me) (NPCList w)"
  shows "\<exists>w'. VisiblityList E this w = Inr (True, w') \<and>
    clients w' = (clients w)(this \<mapsto> me\<lparr>VisibleClients := vc, VisibleNPCs := vn\<rparr>) \<and>
    npc_ids_only (w\<lparr>clients := clients w'\<rparr>) w' \<and>
    to_only (sock me) w (newcomers (VisibleClients me) vc + newcomers (VisibleNPCs me) vn) w'"
proof -
  obtain w1 where w1: "vis_clients E this (ClientList w) [] w = Inr (vc, w1)" "pk_only w w1"
    "to_only (sock me) w (newcomers (VisibleClients me) vc) w1"
    using vis_clients_run [OF me, of "ClientList w" E "[]"] ok by (auto simp: vc_def scannable_def)
  have me1: "clients w1 this = Some me" using me w1(2) by (simp add: pk_onlyD)
  have ok1: "\<exists>n. npcs w1 b = Some n \<and> length (npcname n) \<le> 60000" if "b \<in> set (NPCList w)" for b
    using that ok w1(2) by (simp add: pk_onlyD scannable_def)
  obtain w2 where w2: "vis_npcs E this (NPCList w) [] w1 = Inr (vn, w2)" "npc_ids_only w1 w2"
    "to_only (sock me) w1 (newcomers (VisibleNPCs me) vn) w2"
    using vis_npcs_run [where as = "NPCList w", OF me1 ok1, of E "[]"]
    by (auto simp: vn_def sees_npc_ids [OF pk_npc_ids_only [OF w1(2)]])
  let ?w3 = "w2\<lparr>clients := (clients w2)(this \<mapsto> me\<lparr>VisibleClients := vc, VisibleNPCs := vn\<rparr>)\<rparr>"
  have cl: "clients w2 = clients w" using npc_ids_onlyD(1) [OF w2(2)] w1(2) by (simp add: pk_onlyD)
  have "VisiblityList E this w = Inr (True, ?w3)"
    using w1(1) w2(1) me cl w1(2) by (simp add: VisiblityList_def pk_onlyD ret_def)
  moreover have "to_only (sock me) w (newcomers (VisibleClients me) vc + newcomers (VisibleNPCs me) vn) ?w3"
    using to_only_trans [OF w1(3) w2(3)] by (simp add: to_only_def)
  moreover have "npc_ids_only w w2" using npc_ids_only_trans [OF pk_npc_ids_only [OF w1(2)] w2(2)] .
  then have "npc_ids_only (w\<lparr>clients := clients ?w3\<rparr>) ?w3"
    by (simp add: npc_ids_only_def)
  ultimately show ?thesis using cl by (intro exI conjI) (assumption | simp)+
qed

section \<open>Movement with speed 0\<close>

lemma speed_of_0: "speed_of 0 = Fin 0"
  using to_f64_finite [of "1 / 100"] by (auto simp: speed_of_def)

lemma clockM_bnd [simp]: "bnd (clockM E) f w = f (clock_at E (tick w)) (w\<lparr>tick := Suc (tick w)\<rparr>)"
  by (simp add: clockM_def bnd_assoc)

lemma distance_point_pos:
  assumes "0 < (x1 - x2)\<^sup>2 + (y1 - y2)\<^sup>2" and "(x1 - x2)\<^sup>2 + (y1 - y2)\<^sup>2 < 16777216"
  shows "\<exists>r > 0. distance (point x1 y1) (point x2 y2) = Fin r"
proof -
  obtain r where r: "distance (point x1 y1) (point x2 y2) = Fin r"
    using f_sqrt_finite [of "of_int ((x1 - x2)\<^sup>2 + (y1 - y2)\<^sup>2)"] assms
    by (auto simp only: distance_point of_int_0_le_iff less_imp_le)
  have "\<not> f_less (distance (point x1 y1) (point x2 y2)) (Fin (of_int 1))"
    using assms by (subst distance_less_iff) simp_all
  with r have "0 < r" by simp
  with r show ?thesis by blast
qed

lemma f_sub_point:
  assumes "\<bar>a\<bar> < 8388608" "\<bar>b\<bar> < 8388608"
  shows "f_sub (Fin (of_int a)) (Fin (of_int b)) = Fin (of_int (a - b))"
proof -
  have "\<bar>a - b\<bar> < 16777216" using assms by linarith
  then show ?thesis using to_f32_diff by (simp add: f_sub_def)
qed

text \<open>
  C38. A character whose speed is 0, the only value the server ever gives it, stays where it is however
  often \<open>PlayerMovement\<close> runs: the walking time to its destination is infinite.
\<close>

theorem PlayerMovement_still:
  assumes c: "clients w this = Some c" and s: "Move_Speed (PlayerStats c) = 0"
    and pos: "current (PlayerPosition c) = point x y" "destiny (PlayerPosition c) = point x' y'"
    and rng: "\<bar>x\<bar> < 8388608" "\<bar>y\<bar> < 8388608" "\<bar>x'\<bar> < 8388608" "\<bar>y'\<bar> < 8388608"
      "(x' - x)\<^sup>2 + (y' - y)\<^sup>2 < 16777216"
  shows "\<exists>w' t. PlayerMovement E this w = Inr (True, w') \<and>
    clients w' = (clients w)(this \<mapsto> c\<lparr>PlayerTime := (PlayerTime c)\<lparr>lastMoveTime := t\<rparr>\<rparr>)"
proof (cases "(\<not> inGame (PlayerSession c) \<or> \<not> isLoggedIn (PlayerSession c)) \<or> (x = x' \<and> y = y')")
  case True
  then have "PlayerMovement E this w = Inr (True, w)"
    using c pos by (auto simp: PlayerMovement_def f_eq_def point_def Let_def ret_def)
  moreover have "clients w = (clients w)(this \<mapsto> c\<lparr>PlayerTime := (PlayerTime c)\<lparr>lastMoveTime := lastMoveTime (PlayerTime c)\<rparr>\<rparr>)"
    using c by (simp add: fun_upd_idem)
  ultimately show ?thesis by blast
next
  case False
  let ?dx = "f_sub (fx (point x' y')) (fx (point x y))" and ?dy = "f_sub (fy (point x' y')) (fy (point x y))"
  let ?d = "f_sqrt (f_add (f_mul ?dx ?dx) (f_mul ?dy ?dy))"
  let ?t = "clock_at E (Suc (tick w))"
  obtain e where e: "f_of_int (sint (clock_at E (tick w) - lastMoveTime (PlayerTime c))) = Fin e"
    using f_of_int_sint by blast
  have "0 < (x' - x)\<^sup>2 + (y' - y)\<^sup>2" using False by (auto simp: sum_power2_gt_zero_iff)
  from distance_point_pos [OF this rng(5)] obtain r where r: "?d = Fin r" "0 < r"
    by (auto simp: distance_def Let_def)
  have th: "f_of_int 1000 = Fin 1000" using to_f32_int [of 1000] by (simp add: f_of_int_def)
  have n: "f_mul (f_div ?d (speed_of 0)) (f_of_int 1000) = PInf"
    using r by (simp add: speed_of_0 th f_inf_def)
  have d: "f_add (f_mul ?dx (Fin 0)) (fx (point x y)) = fx (point x y)"
    "f_add (f_mul ?dy (Fin 0)) (fy (point x y)) = fy (point x y)"
    using rng to_f32_int [of x] to_f32_int [of y] by (simp_all add: point_def f_sub_point)
  have neq: "\<not> (f_eq (fx (point x y)) (fx (point x' y')) \<and> f_eq (fy (point x y)) (fy (point x' y')))"
    using False by (auto simp: f_eq_def point_def)
  have same: "(PlayerPosition c)\<lparr>current := \<lparr>fx = fx (point x y), fy = fy (point x y)\<rparr>\<rparr> = PlayerPosition c"
    by (simp flip: pos(1))
  have "PlayerMovement E this w = Inr (True, w\<lparr>tick := tick w + 2,
      clients := (clients w)(this \<mapsto> c\<lparr>PlayerTime := (PlayerTime c)\<lparr>lastMoveTime := ?t\<rparr>\<rparr>)\<rparr>)"
    using False c pos s r n e d
    by (simp add: PlayerMovement_def Let_def same if_not_P [OF neq] ret_def f_le_def f_eq_def [of "Fin r"] f_eq_def [of PInf])
  then show ?thesis by auto
qed

theorem PlayerMovement_still_witness:
  "\<exists>w' t. PlayerMovement sample_env 1 (sample_world\<lparr>clients := [1 \<mapsto> (sample_client 1 ''Ana'' 100 100 [])
       \<lparr>PlayerPosition := (PlayerPosition (sample_client 1 ''Ana'' 100 100 []))\<lparr>destiny := point 140 100\<rparr>\<rparr>]\<rparr>) = Inr (True, w') \<and>
     current (PlayerPosition (the (clients w' 1))) = point 100 100"
proof -
  let ?c = "(sample_client 1 ''Ana'' 100 100 [])
       \<lparr>PlayerPosition := (PlayerPosition (sample_client 1 ''Ana'' 100 100 []))\<lparr>destiny := point 140 100\<rparr>\<rparr>"
  let ?w = "sample_world\<lparr>clients := [1 \<mapsto> ?c]\<rparr>"
  have c: "clients ?w 1 = Some ?c" "Move_Speed (PlayerStats ?c) = 0" by (simp_all add: sample_client_def zero_stats_def)
  have pos: "current (PlayerPosition ?c) = point 100 100" "destiny (PlayerPosition ?c) = point 140 100"
    by (simp_all add: sample_client_def point_def)
  from PlayerMovement_still [OF c pos, of sample_env] show ?thesis using pos by auto
qed

section \<open>Properties of the views\<close>

text \<open>
  C14. Refinement of the visibility scan: \<open>VisiblityList\<close> replaces the two lists of the client by the
  views with hysteresis of the listed clients and NPCs (entered below distance 30, left at 50), sends
  one packet for each newcomer, only to this client, and changes nothing else but ids of NPCs.
\<close>

theorem visibility_refines_view:
  assumes "clients w this = Some me" and "scannable w"
  shows "\<exists>w'. VisiblityList E this w = Inr (True, w') \<and>
    clients w' = (clients w)(this \<mapsto> me
      \<lparr>VisibleClients := client_view w this (VisibleClients me) (ClientList w),
       VisibleNPCs := npc_view w this (VisibleNPCs me) (NPCList w)\<rparr>) \<and>
    npc_ids_only (w\<lparr>clients := clients w'\<rparr>) w' \<and>
    to_only (sock me) w
      (newcomers (VisibleClients me) (client_view w this (VisibleClients me) (ClientList w)) +
       newcomers (VisibleNPCs me) (npc_view w this (VisibleNPCs me) (NPCList w))) w'"
  using VisiblityList_run [OF assms] by blast

lemma sample_scannable: "scannable sample_world"
proof -
  have "named (sample_client 1 ''Ana'' 100 100 [2])" "named (sample_client 2 ''Bob'' 103 104 [1])"
    by (simp_all add: named_def sample_client_def cstr_def numeral_eq_Suc)
  then show ?thesis by (auto simp: scannable_def sample_world_def sample_npc_def)
qed

theorem visibility_refines_view_witness:
  "\<exists>w'. VisiblityList sample_env 1 sample_world = Inr (True, w') \<and> ClientList w' = [1, 2]"
proof -
  have "clients sample_world 1 = Some (sample_client 1 ''Ana'' 100 100 [2])" by simp
  from visibility_refines_view [OF this sample_scannable] show ?thesis
    by (auto simp: npc_ids_only_def sample_world_def)
qed

lemma view_upd:
  assumes "clients w this = Some me"
  shows "sees_client (w\<lparr>clients := (clients w)(this \<mapsto> me\<lparr>VisibleClients := vc, VisibleNPCs := vn\<rparr>)\<rparr>) this = sees_client w this"
    "sees_npc (w\<lparr>clients := (clients w)(this \<mapsto> me\<lparr>VisibleClients := vc, VisibleNPCs := vn\<rparr>)\<rparr>) this = sees_npc w this"
  using assms by (auto simp: sees_client_def sees_npc_def fun_eq_iff split: option.split)

lemma sees_client_cong: "clients w' = clients w \<Longrightarrow> sees_client w' = sees_client w"
  by (intro ext) (simp add: sees_client_def)

lemma scannable_after:
  assumes "clients w this = Some me" "scannable w" "npc_ids_only (w\<lparr>clients := clients w'\<rparr>) w'"
    and "clients w' = (clients w)(this \<mapsto> me\<lparr>VisibleClients := vc, VisibleNPCs := vn\<rparr>)"
  shows "scannable w'"
proof -
  have l: "ClientList w' = ClientList w" "NPCList w' = NPCList w" using npc_ids_onlyD [OF assms(3)] by simp_all
  have "\<exists>n. npcs w' a = Some n \<and> length (npcname n) \<le> 60000" if "a \<in> set (NPCList w)" for a
  proof -
    have "\<exists>n. npcs w a = Some n \<and> length (npcname n) \<le> 60000"
      using assms(2) that by (simp add: scannable_def)
    then obtain n where n: "npcs w a = Some n" "length (npcname n) \<le> 60000" by (elim exE conjE)
    from n(1) have "npcs (w\<lparr>clients := clients w'\<rparr>) a = Some n" by simp
    from npc_ids_onlyD(4) [OF assms(3) this] obtain i where "npcs w' a = Some (n\<lparr>npc_clientid := i\<rparr>)" ..
    with n(2) show ?thesis by simp
  qed
  moreover have "\<exists>c. clients w' a = Some c \<and> named c" if "a \<in> set (ClientList w)" for a
    using assms(1,2) that by (cases "a = this") (auto simp: assms(4) scannable_def named_def)
  ultimately show ?thesis by (simp add: scannable_def l)
qed

text \<open>
  C22. The scan settles: repeated at once, while nobody moves, it keeps both lists and sends nothing.
\<close>

theorem visibility_settles:
  assumes me: "clients w this = Some me" and ok: "scannable w"
  shows "\<exists>w1 w2. VisiblityList E this w = Inr (True, w1) \<and> VisiblityList E this w1 = Inr (True, w2) \<and>
    clients w2 = clients w1 \<and> deliveries (trace w2) = deliveries (trace w1)"
proof -
  let ?vc = "client_view w this (VisibleClients me) (ClientList w)"
    and ?vn = "npc_view w this (VisibleNPCs me) (NPCList w)"
  obtain w1 where w1: "VisiblityList E this w = Inr (True, w1)"
    "clients w1 = (clients w)(this \<mapsto> me\<lparr>VisibleClients := ?vc, VisibleNPCs := ?vn\<rparr>)"
    "npc_ids_only (w\<lparr>clients := clients w1\<rparr>) w1" using VisiblityList_run [OF me ok] by blast
  let ?me = "me\<lparr>VisibleClients := ?vc, VisibleNPCs := ?vn\<rparr>"
  have me1: "clients w1 this = Some ?me" using w1(2) by simp
  have l: "ClientList w1 = ClientList w" "NPCList w1 = NPCList w" using npc_ids_onlyD [OF w1(3)] by simp_all
  have "sees_client w1 this = sees_client w this"
    using view_upd(1) [OF me] sees_client_cong [of w1 "w\<lparr>clients := clients w1\<rparr>"] by (simp add: w1(2))
  moreover have "sees_npc w1 this = sees_npc w this"
    using view_upd(2) [OF me] sees_npc_ids [OF w1(3)] by (simp add: w1(2))
  ultimately have same: "client_view w1 this ?vc (ClientList w1) = ?vc" "npc_view w1 this ?vn (NPCList w1) = ?vn"
    using players.view_again mobs.view_again by (simp_all add: l)
  obtain w2 where w2: "VisiblityList E this w1 = Inr (True, w2)"
    "clients w2 = (clients w1)(this \<mapsto> ?me\<lparr>VisibleClients := client_view w1 this (VisibleClients ?me) (ClientList w1),
        VisibleNPCs := npc_view w1 this (VisibleNPCs ?me) (NPCList w1)\<rparr>)"
    "to_only (sock ?me) w1 (newcomers (VisibleClients ?me) (client_view w1 this (VisibleClients ?me) (ClientList w1)) +
        newcomers (VisibleNPCs ?me) (npc_view w1 this (VisibleNPCs ?me) (NPCList w1))) w2"
    using VisiblityList_run [OF me1 scannable_after [OF me ok w1(3,2)]] by blast
  have "deliveries (trace w2) = deliveries (trace w1)"
    using w2(3) by (simp add: same to_only_def filter_False)
  moreover have "clients w2 = clients w1"
    using w2(2) me1 by (simp add: same fun_upd_idem)
  ultimately show ?thesis using w1(1) w2(1) by blast
qed

theorem visibility_settles_witness:
  "\<exists>w1 w2. VisiblityList sample_env 1 sample_world = Inr (True, w1) \<and> VisiblityList sample_env 1 w1 = Inr (True, w2) \<and>
    deliveries (trace w2) = deliveries (trace w1)"
proof -
  have "clients sample_world 1 = Some (sample_client 1 ''Ana'' 100 100 [2])" by simp
  from visibility_settles [OF this sample_scannable] show ?thesis by blast
qed

text \<open>
  C23. On whole coordinates, as positions on the map are, the floating-point test of the scan is exact:
  another player in the game who is not invisible is within sight distance \<open>R\<close> exactly when
  the squared distance is below \<open>R\<close> squared.
\<close>

theorem sight_exact:
  assumes "clients w this = Some me" "clients w a = Some c" "this \<noteq> a" "inGame (PlayerSession c)" "\<not> isInvisibleMode c"
    and "current (PlayerPosition me) = point x1 y1" "current (PlayerPosition c) = point x2 y2"
    and "(x1 - x2)\<^sup>2 + (y1 - y2)\<^sup>2 < 16777216" and "0 < R" "R \<le> 4096"
  shows "sees_client w this R a \<longleftrightarrow> (x1 - x2)\<^sup>2 + (y1 - y2)\<^sup>2 < R\<^sup>2"
proof -
  have "f_of_int R = Fin (of_int R)" using to_f32_int [of R] assms(9,10) by (simp add: f_of_int_def)
  with assms distance_less_iff [OF assms(8-10)] show ?thesis by (simp add: sees_client_def)
qed

theorem sight_exact_witness: "sees_client sample_world 1 30 2"
proof -
  have "sees_client sample_world 1 30 2 \<longleftrightarrow> (100 - 103)\<^sup>2 + (100 - 104)\<^sup>2 < (30 :: int)\<^sup>2"
    by (rule sight_exact [of _ _ "sample_client 1 ''Ana'' 100 100 [2]" _ "sample_client 2 ''Bob'' 103 104 [1]"])
      (simp_all add: sample_client_def point_def)
  then show ?thesis by simp
qed

end
