(* ===== verification/Handlers.thy ===== *)
theory Handlers
  imports ClientFunctions
begin

text \<open>
  The handlers of \<open>src/src/gameserver/game_packets.cpp\<close> that act on the game itself: buying from a
  shop, attacking, moving items, chatting, walking, opening a shop window, and going back to the
  character list. \<open>P\<close> is the decrypted packet: a block of as many bytes as its first word announced
  (\<open>OnReceivePacket\<close> allocates exactly that), so that reading past it is a fault.
\<close>

section \<open>The handlers\<close>

definition shop_price_packet :: "cbuf \<Rightarrow> (bufwrite, unit) op" where
  "shop_price_packet P = seqM [Free, AddPrefix P 24, AddWord 30000 6, AddDWord 66000 20]"

definition shop_gold_packet :: "CConnClient \<Rightarrow> (bufwrite, unit) op" where
  "shop_gold_packet c = seqM
     [Free,
      AddWord 16 0,
      AddWord 0x03af 4,
      AddWord (ucast (clientid (PlayerSession c))) 6,
      AddDWord (Gold (PlayerInfo c)) 12]"

definition shop_item_packet :: "CConnClient \<Rightarrow> u16 \<Rightarrow> cbuf \<Rightarrow> (bufwrite, unit) op" where
  "shop_item_packet c item P = seqM
     [Free,
      AddWord 24 0,
      AddWord 0x0182 4,
      AddWord (ucast (clientid (PlayerSession c))) 6,
      AddByte 1 12,
      AddByte 2 14,
      AddWord item 16,
      bnd (liftE (rd8 P 14)) (\<lambda>b. AddByte b 18),
      bnd (liftE (rd8 P 15)) (\<lambda>b. AddByte b 19),
      bnd (liftE (rd8 P 16)) (\<lambda>b. AddByte b 20),
      bnd (liftE (rd8 P 17)) (\<lambda>b. AddByte b 21),
      bnd (liftE (rd8 P 18)) (\<lambda>b. AddByte b 22),
      bnd (liftE (rd8 P 19)) (\<lambda>b. AddByte b 23)]"

definition ShopItemBuy :: "env \<Rightarrow> nat \<Rightarrow> cbuf \<Rightarrow> bool act" where
  "ShopItemBuy E this P =
     bnd (client this) (\<lambda>c.
     if sint (Gold (PlayerInfo c)) < 66000 then
       bnd (SendServerMsg E this ''You need more gold'' []) (\<lambda>_. ret True)
     else
       bnd (on_packet (shop_price_packet P)) (\<lambda>_.
       bnd (SendPk E this 24) (\<lambda>_.
       bnd (upd_client this (\<lambda>c. c\<lparr>PlayerInfo := (PlayerInfo c)\<lparr>Gold := Gold (PlayerInfo c) - 66000\<rparr>\<rparr>)) (\<lambda>_.
       bnd (client this) (\<lambda>c.
       bnd (on_packet (shop_gold_packet c)) (\<lambda>_.
       bnd (SendPk E this 16) (\<lambda>_.
       bnd (liftE (rd16 P 12)) (\<lambda>item.
       bnd (on_packet (shop_item_packet c item P)) (\<lambda>_.
       bnd (SendPk E this 24) (\<lambda>_.
       ret True))))))))))"

definition PlayerAttack :: "env \<Rightarrow> nat \<Rightarrow> cbuf \<Rightarrow> bool act" where
  "PlayerAttack E this P =
     bnd (on_packet (seqM [Free, AddPrefix P 96])) (\<lambda>_.
     bnd (SendToVisible E this 96 False) (\<lambda>_. ret True))"

definition ChangeInventory :: "env \<Rightarrow> nat \<Rightarrow> cbuf \<Rightarrow> bool act" where
  "ChangeInventory E this P =
     bnd (on_packet (seqM [Free, AddPrefix P 21])) (\<lambda>_.
     bnd (SendPk E this 20) (\<lambda>_. ret True))"

definition SendChat :: "env \<Rightarrow> nat \<Rightarrow> cbuf \<Rightarrow> bool act" where
  "SendChat E this P =
     bnd (on_packet (seqM [Free, AddPrefix P 109])) (\<lambda>_.
     bnd (SendToVisible E this 108 False) (\<lambda>_. ret True))"

definition f_of_word :: "u16 \<Rightarrow> flt" where
  "f_of_word v = f_of_int (uint v)"

definition ObjectMove :: "env \<Rightarrow> nat \<Rightarrow> cbuf \<Rightarrow> bool act" where
  "ObjectMove E this P =
     bnd (liftE (rd16 P 6)) (\<lambda>sdid.
     bnd (liftE (rd16 P 12)) (\<lambda>cx.
     bnd (liftE (rd16 P 14)) (\<lambda>cy.
     bnd (liftE (rd16 P 24)) (\<lambda>dx.
     bnd (liftE (rd16 P 26)) (\<lambda>dy.
     bnd (on_packet (seqM [Free, AddPrefix P 53])) (\<lambda>_.
     bnd (SendToVisible E this 52 False) (\<lambda>_.
     bnd (upd_client this (\<lambda>c. c\<lparr>PlayerPosition := (PlayerPosition c)
       \<lparr>current := \<lparr>fx = f_of_word dx, fy = f_of_word dy\<rparr>,
        destiny := \<lparr>fx = f_of_word dx, fy = f_of_word dy\<rparr>\<rparr>\<rparr>)) (\<lambda>_.
     ret True))))))))"

definition sell_items :: "CNPC \<Rightarrow> (bufwrite, unit) op" where
  "sell_items n = forM_upto 26 (\<lambda>i. let it = shopitems n i in
     AddSlot (itemid it) (add1 it) (val1 it) (add2 it) (val2 it) (add3 it) (val3 it) (8 * i + 16))"

definition sell_packet :: "CNPC \<Rightarrow> (bufwrite, unit) op" where
  "sell_packet n = seqM
     [(if mobcode n = 1 then seqM [AddWord 1 12, sell_items n]
       else if mobcode n = 19 then seqM [AddWord 3 12, sell_items n]
       else ret ()),
      AddByte 10 232]"

definition SendNPCSellItems :: "env \<Rightarrow> nat \<Rightarrow> cbuf \<Rightarrow> bool act" where
  "SendNPCSellItems E this P =
     bnd (liftE (rd16 P 12)) (\<lambda>tmpid.
     bnd (GetNPCByID (ucast tmpid)) (\<lambda>thisnpc.
     bnd (on_packet (seqM [Free, AddWord 236 0, AddWord 0x017C 4, AddWord 30000 6])) (\<lambda>_.
     case thisnpc of
       None \<Rightarrow> throw Null_deref
     | Some a \<Rightarrow>
         bnd (npc a) (\<lambda>n.
         bnd (on_packet (sell_packet n)) (\<lambda>_.
         bnd (SendPk E this 236) (\<lambda>_. ret True))))))"

definition GameToCharList :: "env \<Rightarrow> nat \<Rightarrow> cbuf \<Rightarrow> bool act" where
  "GameToCharList E this P =
     bnd (client this) (\<lambda>c.
     bnd (on_packet (seqM [AddWord 12 0, AddWord 0x0116 4, AddWord (ucast (clientid (PlayerSession c))) 6])) (\<lambda>_.
     bnd (SendPk E this 12) (\<lambda>_. ret True)))"

section \<open>Buying\<close>

lemma shop_price_layout:
  assumes "24 \<le> blen P"
  shows "\<exists>f. lays (shop_price_packet P) f \<and> (\<forall>d. w16 (f d) 6 = 30000 \<and> w32 (f d) 20 = 66000 \<and>
     (\<forall>i < 6. f d i = bdat P i) \<and> (\<forall>i \<in> {8..<20}. f d i = bdat P i))"
  unfolding shop_price_packet_def
  by (rule exI, rule conjI, (rule lays_rules | (use assms in \<open>simp; fail\<close>))+) (simp add: layout_simps)

lemma shop_gold_layout:
  "\<exists>f. lays (shop_gold_packet c) f \<and> (\<forall>d. w16 (f d) 0 = 16 \<and> w16 (f d) 4 = 0x03af \<and>
     w16 (f d) 6 = ucast (clientid (PlayerSession c)) \<and> w32 (f d) 12 = Gold (PlayerInfo c))"
  unfolding shop_gold_packet_def
  by (rule exI, rule conjI, (rule lays_rules | (simp; fail))+) (simp add: layout_simps)

lemma shop_item_layout:
  assumes "20 \<le> blen P"
  shows "\<exists>f. lays (shop_item_packet c item P) f \<and> (\<forall>d. w16 (f d) 0 = 24 \<and> w16 (f d) 4 = 0x0182 \<and>
     w16 (f d) 6 = ucast (clientid (PlayerSession c)) \<and> f d 14 = 2 \<and> w16 (f d) 16 = item \<and>
     map (f d) [18, 19, 20, 21, 22, 23] = map (bdat P) [14, 15, 16, 17, 18, 19])"
  unfolding shop_item_packet_def
  by (rule exI, rule conjI, (rule lays_rules | (use assms in \<open>simp; fail\<close>))+)
    (simp add: layout_simps)

text \<open>
  A purchase that goes through: the price is taken once and three packets go to the buyer alone: his
  request with the price filled in, his new gold, and the item he asked for.
\<close>

definition buys :: "nat \<Rightarrow> CConnClient \<Rightarrow> world \<Rightarrow> world \<Rightarrow> bool" where
  "buys this c w w' \<longleftrightarrow>
     (\<exists>w1. pk_only w w1 \<and>
       pk_only (w1\<lparr>clients := (clients w)(this \<mapsto> c\<lparr>PlayerInfo := (PlayerInfo c)\<lparr>Gold := Gold (PlayerInfo c) - 66000\<rparr>\<rparr>)\<rparr>) w')"

text \<open>
  C18. A purchase that goes through, for a packet of full length from a client with at least 66000 gold:
  the price is taken exactly once, and three packets go to the buyer and to nobody else: the request
  with the price filled in, the new amount of gold, and the item with its six effect bytes.
\<close>

theorem ShopItemBuy_run:
  assumes c: "clients w this = Some c" and gold: "66000 \<le> sint (Gold (PlayerInfo c))" and P: "24 \<le> blen P"
  shows "\<exists>w' p1 p2 p3. ShopItemBuy E this P w = Inr (True, w') \<and> buys this c w w' \<and>
    deliveries (trace w') = deliveries (trace w) @ [(sock c, p1), (sock c, p2), (sock c, p3)] \<and>
    length p1 = 24 \<and> le32 p1 20 = 66000 \<and>
    length p2 = 16 \<and> le16 p2 4 = 0x03af \<and> le32 p2 12 = Gold (PlayerInfo c) - 66000 \<and>
    length p3 = 24 \<and> le16 p3 4 = 0x0182 \<and> le16 p3 16 = word16 (bdat P 12) (bdat P 13) \<and>
    drop 18 p3 = map (bdat P) [14, 15, 16, 17, 18, 19]"
proof -
  let ?c = "c\<lparr>PlayerInfo := (PlayerInfo c)\<lparr>Gold := Gold (PlayerInfo c) - 66000\<rparr>\<rparr>"
  let ?item = "word16 (bdat P 12) (bdat P 13)"
  obtain f1 where f1: "lays (shop_price_packet P) f1" "\<And>d. w32 (f1 d) 20 = 66000"
    using shop_price_layout [OF P] by blast
  obtain f2 where f2: "lays (shop_gold_packet ?c) f2"
    "\<And>d. w16 (f2 d) 4 = 0x03af \<and> w32 (f2 d) 12 = Gold (PlayerInfo c) - 66000"
    using shop_gold_layout [of ?c] by auto
  obtain f3 where f3: "lays (shop_item_packet ?c ?item P) f3"
    "\<And>d. w16 (f3 d) 4 = 0x0182 \<and> w16 (f3 d) 16 = ?item \<and>
       map (f3 d) [18, 19, 20, 21, 22, 23] = map (bdat P) [14, 15, 16, 17, 18, 19]"
    using shop_item_layout [of P ?c ?item] P by auto
  obtain w1 where w1: "\<And>k :: bool act. bnd (on_packet (shop_price_packet P)) (\<lambda>_. bnd (SendPk E this 24) (\<lambda>_. k)) w = k w1"
    "pk_only w w1" "deliveries (trace w1) = deliveries (trace w) @ [(sock c, map (f1 (bufD (packet w))) [0..<unat (24 :: u16)])]"
    using send_step [OF f1(1) c] by blast
  let ?w1 = "w1\<lparr>clients := (clients w)(this \<mapsto> ?c)\<rparr>"
  have c1: "clients ?w1 this = Some ?c" by simp
  obtain w2 where w2: "\<And>k :: bool act. bnd (on_packet (shop_gold_packet ?c)) (\<lambda>_. bnd (SendPk E this 16) (\<lambda>_. k)) ?w1 = k w2"
    "pk_only ?w1 w2" "deliveries (trace w2) = deliveries (trace ?w1) @ [(sock ?c, map (f2 (bufD (packet ?w1))) [0..<unat (16 :: u16)])]"
    using send_step [OF f2(1) c1] by blast
  have c2: "clients w2 this = Some ?c" using w2(2) by (simp add: pk_onlyD)
  obtain w3 where w3: "\<And>k :: bool act. bnd (on_packet (shop_item_packet ?c ?item P)) (\<lambda>_. bnd (SendPk E this 24) (\<lambda>_. k)) w2 = k w3"
    "pk_only w2 w3" "deliveries (trace w3) = deliveries (trace w2) @ [(sock ?c, map (f3 (bufD (packet w2))) [0..<unat (24 :: u16)])]"
    using send_step [OF f3(1) c2] by blast
  have "clients w1 = clients w" using w1(2) by (simp add: pk_onlyD)
  then have "ShopItemBuy E this P w = Inr (True, w3)"
    using c gold P by (simp add: ShopItemBuy_def w1(1) w2(1) w3(1) liftE_def ret_def)
  moreover have "buys this c w w3"
    using w1(2) pk_only_trans [OF w2(2) w3(2)] by (auto simp: buys_def)
  moreover have "drop 18 (map f [0..<24]) = map f [18, 19, 20, 21, 22, 23]" for f :: bytes
    by (simp add: upt_rec numeral_eq_Suc)
  ultimately show ?thesis
    using f1(2) f2(2) f3(2) w1(3) w2(3) w3(3)
    by (intro exI conjI) (assumption | simp add: le16_map le32_map)+
qed

lemma word16_0101: "word16 1 1 = 0x0101"
  by (simp add: word16_def)

lemma server_msg_layout:
  assumes "length co \<le> 60000"
  shows "\<exists>f. lays (seqM [Free, AddWord 108 0, AddByte 0x01 4, AddByte 0x01 5, AddStr frame co 12]) f \<and>
    (\<forall>d. w16 (f d) 0 = 108 \<and> w16 (f d) 4 = 0x0101 \<and> (\<forall>i < length co. f d (12 + i) = frame i))"
  by (rule exI, rule conjI, (rule lays_rules lays_AddStr | (use assms in \<open>simp; fail\<close>))+)
    (simp add: layout_simps word16_0101)

lemma SendServerMsg_run:
  assumes c: "clients w this = Some c" and s: "sprintf_buf 2000 f as = Inr s"
  shows "\<exists>w' p. SendServerMsg E this f as w = Inr (True, w') \<and> pk_only w w' \<and>
    deliveries (trace w') = deliveries (trace w) @ [(sock c, p)] \<and> length p = 108 \<and> le16 p 4 = 0x0101 \<and>
    (\<forall>i < length s. 12 + i < 108 \<longrightarrow> p ! (12 + i) = memory_at E (tick w) i)"
proof -
  let ?m = "\<lambda>fr. seqM [Free, AddWord 108 0, AddByte 0x01 4, AddByte 0x01 5, AddStr fr (map c2b s) 12]"
  have "length (map c2b s) \<le> 60000" using s by (auto simp: sprintf_buf_def split: sum.splits if_splits)
  from server_msg_layout [OF this] obtain g where g: "lays (?m (memory_at E (tick w))) g"
    "\<And>d. w16 (g d) 4 = 0x0101 \<and> (\<forall>i < length (map c2b s). g d (12 + i) = memory_at E (tick w) i)" by blast
  have eq: "SendServerMsg E this f as w = bnd (memoryM E) (\<lambda>fr. bnd (on_packet (?m fr))
      (\<lambda>_. bnd (SendPk E this 108) (\<lambda>_. ret True))) w"
    using s by (simp add: SendServerMsg_def liftE_def)
  obtain w' where "SendServerMsg E this f as w = Inr (True, w')" "pk_only w w'"
    "deliveries (trace w') = deliveries (trace w) @ [(sock c, map (g (bufD (packet w))) [0..<unat (108 :: u16)])]"
    using memory_send_run [where m = ?m, OF g(1) c, of 108 True] unfolding eq by blast
  then show ?thesis
    using g(2) by (intro exI conjI) (assumption | simp add: le16_map)+
qed

text \<open>
  A client with less than 66000 gold is refused: the server message is sent and neither the gold
  nor anything else of the game changes, whatever the packet holds.
\<close>

lemma ShopItemBuy_refused:
  assumes c: "clients w this = Some c" and gold: "sint (Gold (PlayerInfo c)) < 66000"
  shows "\<exists>w' p. ShopItemBuy E this P w = Inr (True, w') \<and> pk_only w w' \<and>
    deliveries (trace w') = deliveries (trace w) @ [(sock c, p)] \<and> le16 p 4 = 0x0101"
proof -
  have "sprintf_buf 2000 ''You need more gold'' [] = Inr ''You need more gold''"
    by (simp add: sprintf_buf_def)
  from SendServerMsg_run [OF c this] obtain w' p where
    "SendServerMsg E this ''You need more gold'' [] w = Inr (True, w')" "pk_only w w'"
    "deliveries (trace w') = deliveries (trace w) @ [(sock c, p)]" "le16 p 4 = 0x0101" by blast
  then show ?thesis using c gold by (auto simp: ShopItemBuy_def ret_def)
qed

lemma short_packet_faults:
  assumes "blen P < n" "n \<le> 65355"
  shows "bnd (on_packet (seqM (Free # AddPrefix P n # ms))) k w = Inl Out_of_bounds"
proof -
  obtain p where p: "Free (packet w) = Inr ((), p)" by (simp add: Free_def modify_def)
  have "AddPrefix P n p = Inl Out_of_bounds" using AddPrefix_short assms by (simp add: buf_cap_def)
  then have "seqM (Free # AddPrefix P n # ms) (packet w) = Inl Out_of_bounds" using p by simp
  then show ?thesis by (simp add: on_packet_fault)
qed

section \<open>Relaying to the visible players\<close>

lemma relay_layout:
  "n \<le> blen P \<Longrightarrow> n \<le> 65355 \<Longrightarrow>
    lays (seqM [Free, AddPrefix P n]) (\<lambda>d j. if j < n then bdat P j else if j < 65355 then 0 else d j)"
  using lays_seqM_Cons [OF lays_Free lays_seqM_Cons [OF lays_AddPrefix lays_seqM_Nil], of n P] by simp

lemma relay_run:
  assumes c: "clients w this = Some c"
    and alive: "\<And>a. a \<in> set (VisibleClients c) \<Longrightarrow> clients w a \<noteq> None"
    and n: "n \<le> blen P" "n \<le> 65355" "unat len \<le> n"
  obtains w' where "\<And>k :: 'k act. bnd (on_packet (seqM [Free, AddPrefix P n])) (\<lambda>_. bnd (SendToVisible E this len False) (\<lambda>_. k)) w = k w'"
    and "pk_only w w'" and "deliveries (trace w') = deliveries (trace w) @
       map (\<lambda>a. (sock (the (clients w a)), map (bdat P) [0..<unat len])) (VisibleClients c)"
proof -
  obtain p where p: "seqM [Free, AddPrefix P n] (packet w) = Inr ((), p)"
    and d: "bufD p = (\<lambda>j. if j < n then bdat P j else if j < 65355 then 0 else bufD (packet w) j)"
    using relay_layout [OF n(1,2)] by (rule laysE)
  let ?w = "w\<lparr>packet := p\<rparr>"
  obtain w' where w': "SendToVisible E this len False ?w = Inr ((), w')" "io_only ?w w'"
    "deliveries (trace w') = deliveries (trace ?w) @
       map (\<lambda>a. (sock (the (clients ?w a)), plain ?w len)) (VisibleClients c @ (if False then [this] else []))"
    using SendToVisible_run [of ?w this c] c alive by fastforce
  have "plain ?w len = map (bdat P) [0..<unat len]"
    using n(3) by (simp add: plain_def d)
  moreover have "pk_only w w'" using pk_only_trans [OF pk_only_packet io_pk_only [OF w'(2)]] .
  ultimately show thesis
    using that w' p by (simp add: on_packet_ok)
qed

text \<open>
  Attacks are relayed: the 96 bytes of the packet reach every client in the attacker's list of
  visible clients, in order and unchanged, and no state of the game changes.
\<close>

lemma PlayerAttack_run:
  assumes "clients w this = Some c" "\<And>a. a \<in> set (VisibleClients c) \<Longrightarrow> clients w a \<noteq> None" "96 \<le> blen P"
  shows "\<exists>w'. PlayerAttack E this P w = Inr (True, w') \<and> pk_only w w' \<and>
    deliveries (trace w') = deliveries (trace w) @
      map (\<lambda>a. (sock (the (clients w a)), map (bdat P) [0..<96])) (VisibleClients c)"
proof -
  obtain w' where "\<And>k :: bool act. bnd (on_packet (seqM [Free, AddPrefix P 96])) (\<lambda>_. bnd (SendToVisible E this 96 False) (\<lambda>_. k)) w = k w'"
    "pk_only w w'" "deliveries (trace w') = deliveries (trace w) @
       map (\<lambda>a. (sock (the (clients w a)), map (bdat P) [0..<unat (96 :: u16)])) (VisibleClients c)"
    by (rule relay_run [OF assms(1,2), of 96 P 96]) (use assms(3) in auto)
  then show ?thesis by (simp add: PlayerAttack_def ret_def)
qed

text \<open>
  C21. Chat: the first 108 bytes of the packet reach every client in the sender's list of visible
  clients, in order and unchanged, and nobody else.
\<close>

theorem SendChat_run:
  assumes "clients w this = Some c" "\<And>a. a \<in> set (VisibleClients c) \<Longrightarrow> clients w a \<noteq> None" "109 \<le> blen P"
  shows "\<exists>w'. SendChat E this P w = Inr (True, w') \<and> pk_only w w' \<and>
    deliveries (trace w') = deliveries (trace w) @
      map (\<lambda>a. (sock (the (clients w a)), map (bdat P) [0..<108])) (VisibleClients c)"
proof -
  obtain w' where "\<And>k :: bool act. bnd (on_packet (seqM [Free, AddPrefix P 109])) (\<lambda>_. bnd (SendToVisible E this 108 False) (\<lambda>_. k)) w = k w'"
    "pk_only w w'" "deliveries (trace w') = deliveries (trace w) @
       map (\<lambda>a. (sock (the (clients w a)), map (bdat P) [0..<unat (108 :: u16)])) (VisibleClients c)"
    by (rule relay_run [OF assms(1,2), of 109 P 108]) (use assms(3) in auto)
  then show ?thesis by (simp add: SendChat_def ret_def)
qed

lemma f_of_word_exact: "f_of_word v = Fin (of_int (uint v))"
proof -
  have "\<bar>uint v\<bar> < 16777216" using uint_lt2p [of v] by simp
  from to_f32_int [OF this] show ?thesis by (simp add: f_of_word_def f_of_int_def)
qed

text \<open>
  C20. Walking: the position and the destination of the client become the target the packet names, and
  the clients in its own list of visible clients, those it sees, receive the first 52 bytes of the packet. Whether they see
  the walker is not asked.
\<close>

theorem ObjectMove_run:
  assumes c: "clients w this = Some c" and alive: "\<And>a. a \<in> set (VisibleClients c) \<Longrightarrow> clients w a \<noteq> None"
    and P: "53 \<le> blen P"
  defines "dst \<equiv> point (uint (word16 (bdat P 24) (bdat P 25))) (uint (word16 (bdat P 26) (bdat P 27)))"
  shows "\<exists>w'. ObjectMove E this P w = Inr (True, w') \<and>
    clients w' = (clients w)(this \<mapsto> c\<lparr>PlayerPosition := (PlayerPosition c)\<lparr>current := dst, destiny := dst\<rparr>\<rparr>) \<and>
    deliveries (trace w') = deliveries (trace w) @
      map (\<lambda>a. (sock (the (clients w a)), map (bdat P) [0..<52])) (VisibleClients c)"
proof -
  obtain w1 where w1: "\<And>k :: bool act. bnd (on_packet (seqM [Free, AddPrefix P 53])) (\<lambda>_. bnd (SendToVisible E this 52 False) (\<lambda>_. k)) w = k w1"
    "pk_only w w1" "deliveries (trace w1) = deliveries (trace w) @
       map (\<lambda>a. (sock (the (clients w a)), map (bdat P) [0..<unat (52 :: u16)])) (VisibleClients c)"
    by (rule relay_run [OF c alive, of 53 P 52]) (use P in auto)
  have "clients w1 = clients w" using w1(2) by (simp add: pk_onlyD)
  then have "ObjectMove E this P w = Inr (True, w1\<lparr>clients := (clients w)(this \<mapsto>
      c\<lparr>PlayerPosition := (PlayerPosition c)\<lparr>current := dst, destiny := dst\<rparr>\<rparr>)\<rparr>)"
    using P c by (simp add: ObjectMove_def liftE_def w1(1) f_of_word_exact dst_def point_def ret_def del: seqM.simps)
  then show ?thesis using w1(3) by simp
qed

section \<open>Shop windows and stale bytes\<close>

lemma find_npc_None:
  assumes "\<And>a. a \<in> set as \<Longrightarrow> \<exists>n. npcs w a = Some n \<and> ucast (npc_clientid n) \<noteq> i"
  shows "find_npc i as w = Inr (None, w)"
  using assms
proof (induction as)
  case Nil
  show ?case by (simp add: ret_def)
next
  case (Cons a as)
  from Cons.prems [of a] obtain n where "npcs w a = Some n" "ucast (npc_clientid n) \<noteq> i" by auto
  with Cons show ?case by simp
qed

text \<open>
  A shop request that names an id no NPC has ends in a null pointer access, which any client can
  cause.
\<close>

lemma SendNPCSellItems_unknown:
  assumes "14 \<le> blen P"
    and "\<And>a. a \<in> set (NPCList w) \<Longrightarrow> \<exists>n. npcs w a = Some n \<and> npc_clientid n \<noteq> word16 (bdat P 12) (bdat P 13)"
  shows "SendNPCSellItems E this P w = Inl Null_deref"
proof -
  let ?i = "ucast (word16 (bdat P 12) (bdat P 13)) :: u32"
  have "find_npc ?i (NPCList w) w = Inr (None, w)"
    using assms(2) by (intro find_npc_None) simp
  moreover obtain p where "seqM [Free, AddWord 236 0, AddWord 0x017C 4, AddWord 30000 6] (packet w) = Inr ((), p)"
    by (auto simp: Free_def modify_def AddWord_def buf_cap_def ret_def)
  ultimately show ?thesis
    using assms(1) by (simp add: SendNPCSellItems_def GetNPCByID_def liftE_def on_packet_ok throw_def)
qed

text \<open>
  The answer to leaving the game is built without clearing the buffer: the bytes 2-3 and 8-11 of
  the packet are what the previous packet, possibly another client's, left there.
\<close>

lemma GameToCharList_run:
  assumes c: "clients w this = Some c"
  shows "\<exists>w' p. GameToCharList E this P w = Inr (True, w') \<and> pk_only w w' \<and>
    deliveries (trace w') = deliveries (trace w) @ [(sock c, p)] \<and> length p = 12 \<and>
    le16 p 0 = 12 \<and> le16 p 4 = 0x0116 \<and> le16 p 6 = ucast (clientid (PlayerSession c)) \<and>
    le16 p 2 = w16 (bufD (packet w)) 2 \<and> le32 p 8 = w32 (bufD (packet w)) 8"
proof -
  let ?m = "seqM [AddWord 12 0, AddWord 0x0116 4, AddWord (ucast (clientid (PlayerSession c))) 6]"
  have "\<exists>f. lays ?m f \<and> (\<forall>d. w16 (f d) 0 = 12 \<and> w16 (f d) 4 = 0x0116 \<and>
      w16 (f d) 6 = ucast (clientid (PlayerSession c)) \<and> w16 (f d) 2 = w16 d 2 \<and> w32 (f d) 8 = w32 d 8)"
    by (rule exI, rule conjI, (rule lays_rules | (simp; fail))+) (simp add: layout_simps)
  then obtain f where f: "lays ?m f" "\<And>d. w16 (f d) 0 = 12 \<and> w16 (f d) 4 = 0x0116 \<and>
      w16 (f d) 6 = ucast (clientid (PlayerSession c)) \<and> w16 (f d) 2 = w16 d 2 \<and> w32 (f d) 8 = w32 d 8" by blast
  obtain w' where "\<And>k :: bool act. bnd (on_packet ?m) (\<lambda>_. bnd (SendPk E this 12) (\<lambda>_. k)) w = k w'"
    "pk_only w w'" "deliveries (trace w') = deliveries (trace w) @ [(sock c, map (f (bufD (packet w))) [0..<unat (12 :: u16)])]"
    using send_step [OF f(1) c] by blast
  moreover from this(1) have "GameToCharList E this P w = Inr (True, w')"
    using c by (simp add: GameToCharList_def ret_def del: seqM.simps)
  ultimately show ?thesis
    using f(2) [of "bufD (packet w)"] by (intro exI conjI) (assumption | simp add: le16_map le32_map)+
qed

section \<open>Witnesses\<close>

lemma sample_gold: "66000 \<le> sint (Gold (PlayerInfo (sample_client n nm x y v)))"
  by (simp add: sample_client_def)

theorem ShopItemBuy_run_witness:
  "\<exists>w' p1 p2 p3. ShopItemBuy sample_env 1 (sample_packet 24) sample_world = Inr (True, w') \<and>
    deliveries (trace w') = deliveries (trace sample_world) @ [(101, p1), (101, p2), (101, p3)] \<and> le32 p2 12 = 4000"
proof -
  have c: "clients sample_world 1 = Some (sample_client 1 ''Ana'' 100 100 [2])" by simp
  have "24 \<le> blen (sample_packet 24)" by simp
  from ShopItemBuy_run [OF c sample_gold this, of sample_env] show ?thesis
    by (auto simp: sample_client_def)
qed

lemma sample_alive: "a \<in> set (VisibleClients (sample_client 1 ''Ana'' 100 100 [2])) \<Longrightarrow> clients sample_world a \<noteq> None"
  by (simp add: sample_client_def)

theorem SendChat_run_witness:
  "\<exists>w'. SendChat sample_env 1 (sample_packet 109) sample_world = Inr (True, w') \<and>
    map fst (deliveries (trace w')) = [102]"
proof -
  have c: "clients sample_world 1 = Some (sample_client 1 ''Ana'' 100 100 [2])" by simp
  have "109 \<le> blen (sample_packet 109)" by simp
  from SendChat_run [OF c sample_alive this, of sample_env] show ?thesis
    by (auto simp: sample_client_def sample_world_def)
qed

theorem ObjectMove_run_witness:
  "\<exists>w' c. ObjectMove sample_env 1 (sample_packet 53) sample_world = Inr (True, w') \<and> clients w' 1 = Some c \<and>
    current (PlayerPosition c) = point 6424 6938"
proof -
  have c: "clients sample_world 1 = Some (sample_client 1 ''Ana'' 100 100 [2])" by simp
  have "53 \<le> blen (sample_packet 53)" by simp
  from ObjectMove_run [OF c sample_alive this, of sample_env] show ?thesis
    by (auto simp: sample_packet_def word16_def push_bit_eq_mult)
qed

section \<open>Short packets\<close>

text \<open>
  The handlers that relay a packet read a fixed number of bytes whatever length the packet
  announced: a shorter packet makes each of them read past the end of its buffer.
\<close>

lemma short_relay_faults:
  assumes "blen P < 53"
  shows "SendChat E this P w = Inl Out_of_bounds \<and> PlayerAttack E this P w = Inl Out_of_bounds \<and>
    ObjectMove E this P w = Inl Out_of_bounds"
proof -
  have "ObjectMove E this P w = Inl Out_of_bounds"
    using assms by (simp add: ObjectMove_def bnd_liftE rd16_def short_packet_faults del: seqM.simps)
  then show ?thesis
    using assms by (simp add: SendChat_def PlayerAttack_def short_packet_faults del: seqM.simps)
qed

end
