(* ===== verification/CharList.thy ===== *)
theory CharList
  imports Handlers
begin

text \<open>
  The character list: \<open>ResendCharList\<close> and \<open>SendCharList\<close> of
  \<open>src/src/gameserver/game_packets.cpp\<close>. Both read the account's characters and their items into a
  local array \<open>CCharacter chars[6]\<close>, look up the position of each character once more by name, and
  lay the list out in the packet; \<open>SendCharList\<close> adds the account's storage.

  The local arrays start as whatever the stack holds: the first four characters have their 15 items
  cleared, and so have 125 of the 126 storage slots. A row whose slot number lies outside the array
  (15 items per character, 126 in the storage) or a seventh character is a fault.

  Shown: the table that the item rows fill, and where the fields of every character are in the list, as it is laid out
  and after \<open>SendCharList\<close> has written the storage and the client id over it.
\<close>

section \<open>Local arrays\<close>

text \<open>An object in uninitialised memory, by the layout of the struct (32-bit members).\<close>

definition mem_item :: "bytes \<Rightarrow> nat \<Rightarrow> CItem" where
  "mem_item m i = \<lparr>itemid = w32 m i, add1 = w32 m (i + 4), add2 = w32 m (i + 8), add3 = w32 m (i + 12),
     val1 = w32 m (i + 16), val2 = w32 m (i + 20), val3 = w32 m (i + 24)\<rparr>"

definition mem_chars :: "bytes \<Rightarrow> nat \<Rightarrow> CCharacter" where
  "mem_chars m k =
     (let b = 484 * k in
      \<lparr>ch_name = map (\<lambda>i. b2c (m (b + i))) [0..<30], ch_Level = w32 m (b + 32), ch_Exp = w32 m (b + 36),
       ch_Mobid = w32 m (b + 40), ch_Str = w32 m (b + 44), ch_Int = w32 m (b + 48), ch_Dex = w32 m (b + 52),
       ch_Con = w32 m (b + 56), ch_gold = w32 m (b + 60), eqitems = (\<lambda>j. mem_item m (b + 64 + 28 * j))\<rparr>)"

definition clear_chars :: "(nat \<Rightarrow> CCharacter) \<Rightarrow> nat \<Rightarrow> CCharacter" where
  "clear_chars chars k =
     (if k < 4 then (chars k)\<lparr>eqitems := (\<lambda>j. if j < 15 then ClearItem else eqitems (chars k) j)\<rparr>
      else chars k)"

section \<open>Reading the characters\<close>

definition char_list_query :: string where
  "char_list_query = ''SELECT id,name,cexp,clevel,gold, '' @ [CHR 0x09] @
     ''cstr,cint,cdex,ccon,mobid,posid FROM characters '' @ [CHR 0x09] @
     ''WHERE uid='' @ [CHR 0x27] @ ''%s'' @ [CHR 0x27]"

definition char_pos_query :: string where
  "char_pos_query = ''SELECT posid FROM characters WHERE name='' @ [CHR 0x27] @ ''%s'' @ [CHR 0x27]"

definition storage_query :: string where
  "storage_query =
     ''SELECT slotnum,itemid,add1,add2,add3,addval1,addval2,addval3 FROM storage WHERE owner='' @
     [CHR 0x27] @ ''%s'' @ [CHR 0x27]"

fun fill_items :: "nat \<Rightarrow> sql_row list \<Rightarrow> (nat \<Rightarrow> CItem) \<Rightarrow> (nat \<Rightarrow> CItem) res" where
  "fill_items n [] its = Inr its"
| "fill_items n (row # rows) its =
     (case cells_u32 row [0..<8] of
        Inl e \<Rightarrow> Inl e
      | Inr v \<Rightarrow>
          if unat (v ! 0) < n then fill_items n rows (its(unat (v ! 0) := item_of_row v))
          else Inl Out_of_bounds)"

definition char_of_row :: "string \<Rightarrow> u32 list \<Rightarrow> CCharacter \<Rightarrow> CCharacter" where
  "char_of_row nm v c =
     c\<lparr>ch_name := nm, ch_Exp := v ! 0, ch_Level := v ! 1, ch_gold := v ! 2, ch_Str := v ! 3,
       ch_Int := v ! 4, ch_Dex := v ! 5, ch_Con := v ! 6, ch_Mobid := v ! 7\<rparr>"

text \<open>The \<open>while\<close> loop over the characters; \<^const>\<open>None\<close> is its early \<open>return true\<close>.\<close>

fun fill_chars :: "env \<Rightarrow> sql_row list \<Rightarrow> nat \<Rightarrow> (nat \<Rightarrow> CCharacter) \<Rightarrow> (nat \<times> (nat \<Rightarrow> CCharacter)) option act" where
  "fill_chars E [] posid chars = ret (Some (posid, chars))"
| "fill_chars E (row # rows) posid chars =
     (if 6 \<le> posid then throw Out_of_bounds
      else
        bnd (liftE (cell row 1)) (\<lambda>(_, name).
        bnd (liftE (strcpy (ch_name (chars posid)) name)) (\<lambda>nm.
        bnd (liftE (cells_u32 row [2..<10])) (\<lambda>v.
        bnd (liftE (cell row 0)) (\<lambda>(p, i).
        bnd (DoSQL E load_items_query [VStr p i]) (\<lambda>ok.
        if \<not> ok then ret None
        else
          bnd mysql_store_result (\<lambda>rows2.
          bnd (liftE (fill_items 15 rows2 (eqitems (chars posid)))) (\<lambda>its.
          fill_chars E rows (Suc posid)
            (chars(posid := (char_of_row nm v (chars posid))\<lparr>eqitems := its\<rparr>))))))))))"

section \<open>Laying the characters out\<close>

text \<open>\<open>charpos\<close> after the loop over the rows of the position query: the last row's value.\<close>

fun last_pos :: "u32 \<Rightarrow> sql_row list \<Rightarrow> u32 res" where
  "last_pos charpos [] = Inr charpos"
| "last_pos charpos (row # rows) =
     (case cell_u32 row 0 of Inl e \<Rightarrow> Inl e | Inr v \<Rightarrow> last_pos v rows)"

text \<open>\<open>k * charpos + c\<close>, converted to the \<open>unsigned int\<close> offset.\<close>

definition coff :: "u32 \<Rightarrow> u32 \<Rightarrow> u32 \<Rightarrow> nat" where
  "coff k charpos c = unat (k * charpos + c)"

definition char_slots :: "CCharacter \<Rightarrow> u32 \<Rightarrow> (bufwrite, unit) op" where
  "char_slots c charpos = forM_upto 15 (\<lambda>slotnum. let it = eqitems c slotnum in
     AddSlot (itemid it) (add1 it) (val1 it) (add2 it) (val2 it) (add3 it) (val3 it)
       (coff 128 charpos (8 * of_nat slotnum + 212)))"

definition char_packet :: "bytes \<Rightarrow> CCharacter \<Rightarrow> string \<Rightarrow> u32 \<Rightarrow> (bufwrite, unit) op" where
  "char_packet frame c name charpos = seqM
     [AddByte 0x41 (coff 2 charpos 12),
      AddByte 0x08 (coff 2 charpos 13),
      AddByte 0x30 (coff 2 charpos 20),
      AddByte 0x08 (coff 2 charpos 21),
      AddWord (ucast (ch_Level c)) (coff 28 charpos 92),
      AddStr frame (map c2b name) (coff 16 charpos 28),
      AddByte (ucast (ch_Mobid c)) (coff 128 charpos 204),
      AddWord (ucast (ch_Str c)) (coff 28 charpos 108),
      AddWord (ucast (ch_Int c)) (coff 28 charpos 110),
      AddWord (ucast (ch_Dex c)) (coff 28 charpos 112),
      AddWord (ucast (ch_Con c)) (coff 28 charpos 114),
      AddDWord (ch_gold c) (coff 4 charpos 724),
      AddDWord (ch_Exp c) (coff 4 charpos 740),
      char_slots c charpos]"

fun put_chars :: "env \<Rightarrow> nat list \<Rightarrow> (nat \<Rightarrow> CCharacter) \<Rightarrow> bool act" where
  "put_chars E [] chars = ret True"
| "put_chars E (k # ks) chars =
     bnd (liftE (cstr (ch_name (chars k)))) (\<lambda>name.
     bnd (DoSQL E char_pos_query [VStr 0 name]) (\<lambda>ok.
     if \<not> ok then ret False
     else
       bnd mysql_store_result (\<lambda>rows.
       bnd (wordM E) (\<lambda>junk.
       bnd (liftE (last_pos junk rows)) (\<lambda>charpos.
       bnd (memoryM E) (\<lambda>frame.
       bnd (on_packet (char_packet frame (chars k) name charpos)) (\<lambda>_.
       put_chars E ks chars)))))))"

definition ResendCharList :: "env \<Rightarrow> nat \<Rightarrow> cbuf \<Rightarrow> bool act" where
  "ResendCharList E this P =
     bnd (on_packet (seqM [Free, AddWord 1824 0, AddWord 274 4])) (\<lambda>_.
     bnd (client this) (\<lambda>c.
     bnd (liftE (cstr (username (PlayerSession c)))) (\<lambda>user.
     bnd (DoSQL E char_list_query [VStr 0 user]) (\<lambda>ok.
     if \<not> ok then ret False
     else
       bnd mysql_store_result (\<lambda>rows.
       bnd (memoryM E) (\<lambda>stack.
       bnd (fill_chars E rows 0 (clear_chars (mem_chars stack))) (\<lambda>r.
       case r of
         None \<Rightarrow> ret True
       | Some (posid, chars) \<Rightarrow>
           bnd (put_chars E [0..<posid] chars) (\<lambda>ok.
           if \<not> ok then ret False
           else bnd (SendPk E this 756) (\<lambda>_. ret True)))))))))"

section \<open>The list with the storage\<close>

definition storage_slots :: "(nat \<Rightarrow> CItem) \<Rightarrow> (bufwrite, unit) op" where
  "storage_slots its = forM_upto 126 (\<lambda>i. let it = its i in
     AddSlot (itemid it) (add1 it) (val1 it) (add2 it) (val2 it) (add3 it) (val3 it) (8 * i + 756))"

definition char_list_tail :: "CConnClient \<Rightarrow> (nat \<Rightarrow> CItem) \<Rightarrow> bytes \<Rightarrow> bytes \<Rightarrow> string \<Rightarrow> (bufwrite, unit) op" where
  "char_list_tail c its frame frame' user = (let cid = ucast (clientid (PlayerSession c)) in seqM
     [storage_slots its,
      AddDWord 1500000000 1780,
      AddStr frame (map c2b user) 1800,
      AddData frame' 1816 7,
      AddWord cid 120,
      AddWord cid 122,
      AddWord cid 124,
      AddWord cid 126])"

definition SendCharList :: "env \<Rightarrow> nat \<Rightarrow> cbuf \<Rightarrow> bool act" where
  "SendCharList E this P =
     bnd (client this) (\<lambda>c.
     bnd (on_packet (seqM [Free, AddWord 1824 0, AddWord 0x010a 4, AddWord (ucast (userid (PlayerSession c))) 6])) (\<lambda>_.
     bnd (liftE (cstr (username (PlayerSession c)))) (\<lambda>user.
     bnd (DoSQL E char_list_query [VStr 0 user]) (\<lambda>ok.
     if \<not> ok then ret False
     else
       bnd mysql_store_result (\<lambda>rows.
       bnd (memoryM E) (\<lambda>stack.
       bnd (fill_chars E rows 0 (clear_chars (mem_chars stack))) (\<lambda>r.
       case r of
         None \<Rightarrow> ret True
       | Some (posid, chars) \<Rightarrow>
           bnd (DoSQL E storage_query [VStr 0 user]) (\<lambda>ok.
           if \<not> ok then ret False
           else
             bnd mysql_store_result (\<lambda>rows.
             bnd (memoryM E) (\<lambda>stack.
             bnd (liftE (fill_items 126 rows (\<lambda>j. if j < 125 then ClearItem else mem_item stack (28 * j)))) (\<lambda>its.
             bnd (put_chars E [0..<posid] chars) (\<lambda>ok.
             if \<not> ok then ret False
             else
               bnd (memoryM E) (\<lambda>frame.
               bnd (memoryM E) (\<lambda>frame'.
               bnd (on_packet (char_list_tail c its frame frame' user)) (\<lambda>_.
               bnd (SendPk E this 1823) (\<lambda>_. ret True))))))))))))))))"

section \<open>Item tables\<close>

text \<open>
  The reference for the loop over item rows: each slot holds the last row that names it.
\<close>

definition item_table :: "u32 list list \<Rightarrow> (nat \<Rightarrow> CItem) \<Rightarrow> nat \<Rightarrow> CItem" where
  "item_table vs its j =
     (case map_of (rev (map (\<lambda>v. (unat (v ! 0), item_of_row v)) vs)) j of None \<Rightarrow> its j | Some it \<Rightarrow> it)"

lemma item_table_Cons: "item_table (v # vs) its = item_table vs (its(unat (v ! 0) := item_of_row v))"
  by (rule ext) (auto simp: item_table_def map_add_def split: option.splits)

text \<open>
  C30. Reading item rows from the database, for an array of \<open>n\<close> slots: when every row's slot number
  lies in the array, each slot ends up with the last row that names it and the others keep their
  contents; one row outside it makes the loop write out of bounds.
\<close>

theorem fill_items_table:
  assumes "list_all2 (\<lambda>row v. cells_u32 row [0..<8] = Inr v) rows vs"
  shows "fill_items n rows its =
    (if \<forall>v \<in> set vs. unat (v ! 0) < n then Inr (item_table vs its) else Inl Out_of_bounds)"
  using assms
proof (induction arbitrary: its rule: list_all2_induct)
  case Nil
  then show ?case by (simp add: item_table_def fun_eq_iff)
next
  case (Cons row rows v vs)
  then show ?case by (simp add: item_table_Cons)
qed

definition sample_row :: sql_row where
  "sample_row = [Some (0, ''3''), Some (0, ''400''), Some (0, ''43''), Some (0, ''0''), Some (0, ''0''),
     Some (0, ''9''), Some (0, ''0''), Some (0, ''0'')]"

lemma sample_row_cells: "cells_u32 sample_row [0..<8] = Inr [3, 400, 43, 0, 0, 9, 0, 0]"
  by (simp add: cells_u32_def sample_row_def cell_u32_def cell_def upt_rec numeral_eq_Suc atou_def atoi_def
      is_blank_def is_digit_def digit_val_def sat32_def)

theorem fill_items_table_witness:
  "(\<exists>its. fill_items 15 [sample_row] (\<lambda>_. ClearItem) = Inr its \<and> itemid (its 3) = 400) \<and>
   fill_items 3 [sample_row] (\<lambda>_. ClearItem) = Inl Out_of_bounds"
proof -
  have "list_all2 (\<lambda>row v. cells_u32 row [0..<8] = Inr v) [sample_row] [[3, 400, 43, 0, 0, 9, 0, 0]]"
    by (simp add: sample_row_cells)
  from fill_items_table [OF this, of 15] fill_items_table [OF this, of 3] show ?thesis
    by (simp add: item_table_def item_of_row_def)
qed

section \<open>Layout of the list\<close>

lemma coff_slot:
  "i < 15 \<Longrightarrow> p \<in> {0, 1, 2, 3} \<Longrightarrow> coff 128 p (8 * of_nat i + 212) = 128 * unat p + 8 * i + 212"
proof -
  assume i: "i < 15" and p: "p \<in> {0, 1, 2, 3}"
  have "unat p \<le> 3" using p by auto
  moreover have "unat (of_nat i :: u32) = i" using i by (simp add: unsigned_of_nat take_bit_eq_mod)
  ultimately show ?thesis using i by (simp add: coff_def unat_word_ariths)
qed

text \<open>A loop that lays one item slot per round, and the bytes of a slot.\<close>

definition slot_bytes :: "CItem \<Rightarrow> byte list" where
  "slot_bytes it = [byte_of16 (ucast (itemid it)) 0, byte_of16 (ucast (itemid it)) 1, ucast (add1 it), ucast (val1 it),
     ucast (add2 it), ucast (val2 it), ucast (add3 it), ucast (val3 it)]"

lemma lays_slots:
  assumes "base + 8 * n \<le> 65355" and off: "\<And>i. i < n \<Longrightarrow> off i = base + 8 * i"
  shows "lays (forM_upto n (\<lambda>i. AddSlot (itemid (its i)) (add1 (its i)) (val1 (its i)) (add2 (its i)) (val2 (its i))
      (add3 (its i)) (val3 (its i)) (off i))) (fill_table base 8 n (\<lambda>i. slot_bytes (its i)))"
proof (rule lays_table)
  fix i :: nat
  assume i: "i < n"
  with assms(1) have "base + 8 * i + 8 \<le> 65355" by linarith
  from lays_AddSlot [OF this] show "lays (AddSlot (itemid (its i)) (add1 (its i)) (val1 (its i)) (add2 (its i)) (val2 (its i))
      (add3 (its i)) (val3 (its i)) (off i)) (overlay (base + 8 * i) (slot_bytes (its i)))"
    by (simp add: off [OF i] slot_bytes_def)
qed (simp_all add: slot_bytes_def)

lemma lays_char_slots:
  assumes "p \<in> {0, 1, 2, 3}"
  shows "lays (char_slots c p) (fill_table (128 * unat p + 212) 8 15 (\<lambda>i. slot_bytes (eqitems c i)))"
  unfolding char_slots_def Let_def
proof (rule lays_slots)
  have "unat p \<le> 3" using assms by auto
  then show "128 * unat p + 212 + 8 * 15 \<le> 65355" by linarith
qed (use assms in \<open>simp add: coff_slot\<close>)

text \<open>
  What the list says of a character at a position: every byte the builder writes but those of its level, with \<open>fr\<close> the
  stack that \<open>AddStr\<close> copies from instead of the name; and the places these bytes are in.
\<close>

definition char_fields :: "CCharacter \<Rightarrow> bytes \<Rightarrow> string \<Rightarrow> nat \<Rightarrow> bytes \<Rightarrow> bool" where
  "char_fields c fr name p d \<longleftrightarrow> d (2 * p + 12) = 0x41 \<and> d (2 * p + 13) = 0x08 \<and> d (2 * p + 20) = 0x30 \<and> d (2 * p + 21) = 0x08 \<and>
     (\<forall>i < length name. d (16 * p + 28 + i) = fr i) \<and> d (128 * p + 204) = ucast (ch_Mobid c) \<and>
     w16 d (28 * p + 108) = ucast (ch_Str c) \<and> w16 d (28 * p + 110) = ucast (ch_Int c) \<and>
     w16 d (28 * p + 112) = ucast (ch_Dex c) \<and> w16 d (28 * p + 114) = ucast (ch_Con c) \<and>
     w32 d (4 * p + 724) = ch_gold c \<and> w32 d (4 * p + 740) = ch_Exp c \<and>
     (\<forall>i < 15. \<forall>j < 8. d (128 * p + 212 + (8 * i + j)) = slot_bytes (eqitems c i) ! j)"

definition covers :: "(nat \<times> nat) list \<Rightarrow> nat \<Rightarrow> bool" where
  "covers bs j \<longleftrightarrow> (\<exists>a \<in> set bs. fst a \<le> j \<and> j < fst a + snd a)"

definition char_area :: "nat \<Rightarrow> nat \<Rightarrow> bool" where
  "char_area p = covers [(2 * p + 12, 2), (2 * p + 20, 2), (16 * p + 28, 16), (28 * p + 108, 8), (128 * p + 204, 1),
     (128 * p + 212, 120), (4 * p + 724, 4), (4 * p + 740, 4)]"

definition level_area :: "nat \<Rightarrow> nat \<Rightarrow> bool" where
  "level_area p = covers [(28 * p + 92, 2)]"

lemmas area_defs = char_area_def level_area_def covers_def

lemma covers_disjoint:
  assumes "covers bs j" "\<forall>b \<in> set bs. \<forall>c \<in> set cs. fst b + snd b \<le> fst c \<or> fst c + snd c \<le> fst b"
  shows "\<not> covers cs j"
  using assms by (fastforce simp: covers_def)

lemma char_fields_cong:
  assumes "\<And>j. char_area p j \<Longrightarrow> d' j = d j" "length name \<le> 16"
  shows "char_fields c fr name p d' \<longleftrightarrow> char_fields c fr name p d"
proof -
  have "d' (2 * p + 12) = d (2 * p + 12)" "d' (2 * p + 13) = d (2 * p + 13)" "d' (2 * p + 20) = d (2 * p + 20)"
    "d' (2 * p + 21) = d (2 * p + 21)" "d' (128 * p + 204) = d (128 * p + 204)"
    by (rule assms(1); simp add: area_defs)+
  moreover have "d' (16 * p + 28 + i) = d (16 * p + 28 + i)" if "i < length name" for i
    by (rule assms(1)) (use that assms(2) in \<open>simp add: area_defs\<close>)
  moreover have "w16 d' (28 * p + 108) = w16 d (28 * p + 108)" "w16 d' (28 * p + 110) = w16 d (28 * p + 110)"
    "w16 d' (28 * p + 112) = w16 d (28 * p + 112)" "w16 d' (28 * p + 114) = w16 d (28 * p + 114)"
    unfolding w16_def by (intro arg_cong2 [where f = word16] assms(1); simp add: area_defs)+
  moreover have "w32 d' (4 * p + 724) = w32 d (4 * p + 724)" "w32 d' (4 * p + 740) = w32 d (4 * p + 740)"
    using assms(1) by (simp_all add: w32_def area_defs)
  moreover have "d' (128 * p + 212 + (8 * i + j)) = d (128 * p + 212 + (8 * i + j))" if "i < 15" "j < 8" for i j
    by (rule assms(1)) (use that in \<open>simp add: area_defs\<close>)
  ultimately show ?thesis by (simp add: char_fields_def cong: conj_cong)
qed

lemma areas_disjoint:
  assumes "p \<le> 3" "q \<le> 3" "p \<noteq> q" "char_area p j \<or> level_area p j"
  shows "\<not> char_area q j" "\<not> level_area q j"
proof -
  have "(p = 0 \<or> p = 1 \<or> p = 2 \<or> p = 3) \<and> (q = 0 \<or> q = 1 \<or> q = 2 \<or> q = 3)" using assms(1,2) by linarith
  with assms(3,4) show "\<not> char_area q j" "\<not> level_area q j"
    unfolding char_area_def level_area_def by (elim conjE disjE; simp; elim covers_disjoint; simp)+
qed

text \<open>Builders that write in an area only.\<close>

definition lays_in :: "(nat \<Rightarrow> bool) \<Rightarrow> (bufwrite, unit) op \<Rightarrow> (bytes \<Rightarrow> bytes) \<Rightarrow> bool" where
  "lays_in A m f \<longleftrightarrow> lays m f \<and> (\<forall>d j. \<not> A j \<longrightarrow> f d j = d j)"

lemma lays_in_seq:
  "lays_in A (seqM []) (\<lambda>d. d)"
  "lays_in A m f \<Longrightarrow> lays_in A (seqM ms) g \<Longrightarrow> lays_in A (seqM (m # ms)) (\<lambda>d. g (f d))"
  by (simp_all add: lays_in_def lays_rules del: seqM.simps)

lemma lays_in_overlay:
  assumes "lays m (overlay off bs)" "\<forall>i < length bs. A (off + i)"
  shows "lays_in A m (overlay off bs)"
proof -
  have "overlay off bs d j = d j" if "\<not> A j" for d j
    using assms(2) that by (auto simp: overlay_def dest: spec [of _ "j - off"])
  with assms(1) show ?thesis by (simp add: lays_in_def)
qed

lemma lays_in_table:
  assumes "lays m (fill_table base k n ent)" "\<forall>i < k * n. A (base + i)"
  shows "lays_in A m (fill_table base k n ent)"
proof -
  have "fill_table base k n ent d j = d j" if "\<not> A j" for d j
    using assms(2) that by (auto simp: fill_table_def dest: spec [of _ "j - base"])
  with assms(1) show ?thesis by (simp add: lays_in_def)
qed

lemma char_packet_layout:
  assumes "p \<in> {0, 1, 2, 3}" and "length name \<le> 16"
  shows "\<exists>f. lays_in (\<lambda>j. char_area (unat p) j \<or> level_area (unat p) j) (char_packet frame c name p) f \<and>
    (\<forall>d. char_fields c frame name (unat p) (f d) \<and> w16 (f d) (28 * unat p + 92) = ucast (ch_Level c))"
proof -
  have p: "p = 0 \<or> p = 1 \<or> p = 2 \<or> p = 3" using assms(1) by simp
  have n: "length (map c2b name) \<le> 16" using assms(2) by simp
  have b: "coff 2 p 21 < 65355" "coff 2 p 20 < 65355" "coff 2 p 13 < 65355" "coff 2 p 12 < 65355"
    "coff 28 p 92 + 2 \<le> 65355" "coff 16 p 28 + length (map c2b name) \<le> 65355" "coff 128 p 204 < 65355"
    "coff 28 p 108 + 2 \<le> 65355" "coff 28 p 110 + 2 \<le> 65355" "coff 28 p 112 + 2 \<le> 65355"
    "coff 28 p 114 + 2 \<le> 65355" "coff 4 p 724 + 4 \<le> 65355" "coff 4 p 740 + 4 \<le> 65355"
    using assms(1) n by (auto simp: coff_def)
  let ?A = "\<lambda>j. char_area (unat p) j \<or> level_area (unat p) j"
  have c: "coff 2 p 12 = 2 * unat p + 12" "coff 2 p 13 = 2 * unat p + 13" "coff 2 p 20 = 2 * unat p + 20"
    "coff 2 p 21 = 2 * unat p + 21" "coff 28 p 92 = 28 * unat p + 92" "coff 16 p 28 = 16 * unat p + 28"
    "coff 128 p 204 = 128 * unat p + 204" "coff 28 p 108 = 28 * unat p + 108" "coff 28 p 110 = 28 * unat p + 110"
    "coff 28 p 112 = 28 * unat p + 112" "coff 28 p 114 = 28 * unat p + 114" "coff 4 p 724 = 4 * unat p + 724"
    "coff 4 p 740 = 4 * unat p + 740"
    using assms(1) by (auto simp: coff_def)
  have a: "\<forall>i < 1. ?A (coff 2 p 12 + i)" "\<forall>i < 1. ?A (coff 2 p 13 + i)" "\<forall>i < 1. ?A (coff 2 p 20 + i)" "\<forall>i < 1. ?A (coff 2 p 21 + i)"
    "\<forall>i < 2. ?A (coff 28 p 92 + i)" "\<forall>i < length name. ?A (coff 16 p 28 + i)" "\<forall>i < 1. ?A (coff 128 p 204 + i)"
    "\<forall>i < 2. ?A (coff 28 p 108 + i)" "\<forall>i < 2. ?A (coff 28 p 110 + i)" "\<forall>i < 2. ?A (coff 28 p 112 + i)" "\<forall>i < 2. ?A (coff 28 p 114 + i)"
    "\<forall>i < 4. ?A (coff 4 p 724 + i)" "\<forall>i < 4. ?A (coff 4 p 740 + i)" "\<forall>i < 8 * 15. ?A (128 * unat p + 212 + i)"
    using assms(2) unfolding c area_defs by (simp_all; presburger?)+
  show ?thesis
    unfolding char_packet_def
    by (rule exI, rule conjI,
        (rule lays_in_seq lays_in_overlay [OF lays_AddByte] lays_in_overlay [OF lays_AddWord] lays_in_overlay [OF lays_AddDWord]
          lays_in_overlay [OF lays_AddStr] lays_in_table [OF lays_char_slots] assms(1) b | (use a in \<open>simp; fail\<close>))+)
      (insert p assms(2), elim disjE; simp add: layout_simps coff_def Let_def char_fields_def)
qed

lemma lays_storage_slots: "lays (storage_slots its) (fill_table 756 8 126 (\<lambda>i. slot_bytes (its i)))"
  unfolding storage_slots_def Let_def by (rule lays_slots) simp_all

text \<open>
  The end of \<open>SendCharList\<close> lays out the storage and writes the client id over the words 120 to 126. Of the characters
  it touches the level of the second, which sits at offset 120, and nothing else.
\<close>

definition tail_fields :: "CConnClient \<Rightarrow> (nat \<Rightarrow> CItem) \<Rightarrow> bytes \<Rightarrow> string \<Rightarrow> bytes \<Rightarrow> bool" where
  "tail_fields c its fr user d \<longleftrightarrow> (\<forall>k < 4. w16 d (120 + 2 * k) = ucast (clientid (PlayerSession c))) \<and> w32 d 1780 = 1500000000 \<and>
     (\<forall>i < length user. d (1800 + i) = fr i) \<and> (\<forall>i < 126. \<forall>j < 8. d (756 + (8 * i + j)) = slot_bytes (its i) ! j)"

lemma char_list_tail_layout:
  assumes "length user \<le> 16"
  shows "\<exists>g. lays_in (\<lambda>j. 756 \<le> j \<or> 120 \<le> j \<and> j < 128) (char_list_tail c its frame frame' user) g \<and>
    (\<forall>d. tail_fields c its frame user (g d))"
proof -
  have n: "length (map c2b user) \<le> 16" using assms by simp
  have four: "(\<forall>k < 4. P k) \<longleftrightarrow> P 0 \<and> P 1 \<and> P 2 \<and> P 3" for P :: "nat \<Rightarrow> bool"
    by (auto simp: numeral_eq_Suc less_Suc_eq)
  show ?thesis
    unfolding char_list_tail_def Let_def
    by (rule exI, rule conjI,
        (rule lays_in_seq lays_in_overlay [OF lays_AddWord] lays_in_overlay [OF lays_AddDWord] lays_in_overlay [OF lays_AddData]
          lays_in_overlay [OF lays_AddStr] lays_in_table [OF lays_storage_slots] | (use n in \<open>auto; fail\<close>))+)
      (insert n, simp add: layout_simps tail_fields_def four)
qed

lemma char_below: "p \<le> 3 \<Longrightarrow> char_area p j \<Longrightarrow> j < 756 \<and> \<not> (120 \<le> j \<and> j < 128)"
proof -
  assume p: "p \<le> 3" and a: "char_area p j"
  from p have "p = 0 \<or> p = 1 \<or> p = 2 \<or> p = 3" by linarith
  with a show ?thesis unfolding area_defs by (elim disjE) (simp; linarith)+
qed

section \<open>The list as it is sent\<close>

text \<open>The database knows the position of the character, whenever it is asked.\<close>

definition position_known :: "env \<Rightarrow> CCharacter \<Rightarrow> string \<Rightarrow> u32 \<Rightarrow> bool" where
  "position_known E c name p \<longleftrightarrow> cstr (ch_name c) = Inr name \<and> length name \<le> 16 \<and> p \<in> {0, 1, 2, 3} \<and>
     (\<exists>q. sprintf_buf 2000 char_pos_query [VStr 0 name] = Inr q \<and>
       (\<forall>qs. \<exists>rows. mysql_answer E qs q = Sql_ok rows \<and> (\<forall>junk. last_pos junk rows = Inr p)))"

text \<open>\<open>lvl\<close> is the word in the place of the level.\<close>

definition listed :: "env \<Rightarrow> CCharacter \<Rightarrow> string \<Rightarrow> u32 \<Rightarrow> u16 \<Rightarrow> bytes \<Rightarrow> bool" where
  "listed E c name p lvl d \<longleftrightarrow> (\<exists>t. char_fields c (memory_at E t) name (unat p) d) \<and> w16 d (28 * unat p + 92) = lvl"

lemma listed_cong:
  assumes "\<And>j. char_area (unat p) j \<or> level_area (unat p) j \<Longrightarrow> d' j = d j" "length name \<le> 16"
  shows "listed E c name p lvl d' \<longleftrightarrow> listed E c name p lvl d"
  using char_fields_cong [of "unat p" d' d name c] assms by (simp add: listed_def w16_def area_defs)

lemma put_chars_step:
  assumes "position_known E (chars k) name p"
  shows "\<exists>w1. put_chars E (k # ks) chars w = put_chars E ks chars w1 \<and> listed E (chars k) name p (ucast (ch_Level (chars k))) (bufD (packet w1)) \<and>
    (\<forall>j. \<not> char_area (unat p) j \<and> \<not> level_area (unat p) j \<longrightarrow> bufD (packet w1) j = bufD (packet w) j)"
proof -
  obtain q where nm: "cstr (ch_name (chars k)) = Inr name" "length name \<le> 16" and p: "p \<in> {0, 1, 2, 3}"
    and q: "sprintf_buf 2000 char_pos_query [VStr 0 name] = Inr q"
      "\<And>qs. \<exists>rows. mysql_answer E qs q = Sql_ok rows \<and> (\<forall>junk. last_pos junk rows = Inr p)"
    using assms unfolding position_known_def by blast
  obtain rows where rows: "mysql_answer E (queries w) q = Sql_ok rows" "\<And>junk. last_pos junk rows = Inr p" using q(2) by blast
  let ?v = "w\<lparr>trace := trace w @ [Ev_Query q], queries := queries w @ [q], sqlres := rows, tick := Suc (Suc (tick w))\<rparr>"
    and ?fr = "memory_at E (Suc (tick w))"
  obtain f where f: "lays_in (\<lambda>j. char_area (unat p) j \<or> level_area (unat p) j) (char_packet ?fr (chars k) name p) f"
    "\<And>d. char_fields (chars k) ?fr name (unat p) (f d) \<and> w16 (f d) (28 * unat p + 92) = ucast (ch_Level (chars k))"
    using char_packet_layout [OF p nm(2), of ?fr "chars k"] by blast
  obtain b where b: "char_packet ?fr (chars k) name p (packet w) = Inr ((), b)" "bufD b = f (bufD (packet w))"
    using f(1) unfolding lays_in_def by (blast elim: laysE)
  have "put_chars E (k # ks) chars w = put_chars E ks chars (?v\<lparr>packet := b\<rparr>)"
    using nm q(1) rows b(1)
    by (simp add: bnd_liftE bnd_DoSQL mysql_store_result_def wordM_def tickM_def on_packet_def)
  moreover have "listed E (chars k) name p (ucast (ch_Level (chars k))) (bufD b)"
    using f(2) b(2) unfolding listed_def by auto
  ultimately show ?thesis using f(1) b(2) by (intro exI [of _ "?v\<lparr>packet := b\<rparr>"]) (simp add: lays_in_def)
qed

lemma position_slot: "position_known E c name p \<Longrightarrow> unat p \<le> 3 \<and> length name \<le> 16"
  by (auto simp: position_known_def)

lemma level_below: "p \<le> 3 \<Longrightarrow> p \<noteq> 1 \<Longrightarrow> level_area p j \<Longrightarrow> j < 756 \<and> \<not> (120 \<le> j \<and> j < 128)"
  by (auto simp: area_defs)

text \<open>A character that was listed stays so after the end of the packet, but for the level at offset 120.\<close>

lemma listed_after:
  assumes k: "position_known E c name p" and l: "listed E c name p (ucast (ch_Level c)) d"
    and t: "tail_fields cl its fr user d'" and same: "\<And>j. j < 756 \<and> \<not> (120 \<le> j \<and> j < 128) \<Longrightarrow> d' j = d j"
  shows "listed E c name p (if p = 1 then ucast (clientid (PlayerSession cl)) else ucast (ch_Level c)) d'"
proof (cases "p = 1")
  case False
  then have "unat p \<noteq> 1" by (simp add: word_unat_eq_iff)
  then have "d' j = d j" if "char_area (unat p) j \<or> level_area (unat p) j" for j
    using that char_below [of "unat p" j] level_below [of "unat p" j] position_slot [OF k] same by blast
  then have "listed E c name p (ucast (ch_Level c)) d' \<longleftrightarrow> listed E c name p (ucast (ch_Level c)) d"
    by (rule listed_cong) (assumption, rule position_slot [OF k, THEN conjunct2])
  with l False show ?thesis by simp
next
  case True
  have "w16 d' 120 = ucast (clientid (PlayerSession cl))" using t by (auto simp: tail_fields_def dest: spec [of _ 0])
  moreover have "char_fields c (memory_at E t) name (unat p) d' \<longleftrightarrow> char_fields c (memory_at E t) name (unat p) d" for t
    by (rule char_fields_cong) (use char_below [of "unat p"] position_slot [OF k] same in blast)+
  ultimately show ?thesis using l True by (simp add: listed_def)
qed

lemma put_chars_listed:
  assumes "\<forall>k \<in> set ks. position_known E (chars k) (name k) (pos k)" and "distinct (map pos ks)"
  shows "\<exists>w'. put_chars E ks chars w = Inr (True, w') \<and>
    (\<forall>k \<in> set ks. listed E (chars k) (name k) (pos k) (ucast (ch_Level (chars k))) (bufD (packet w'))) \<and>
    (\<forall>j. (\<forall>k \<in> set ks. \<not> char_area (unat (pos k)) j \<and> \<not> level_area (unat (pos k)) j) \<longrightarrow>
      bufD (packet w') j = bufD (packet w) j)"
  using assms
proof (induction ks arbitrary: w)
  case (Cons k ks)
  let ?L = "\<lambda>k. listed E (chars k) (name k) (pos k) (ucast (ch_Level (chars k)))"
  from Cons.prems(1) have k: "position_known E (chars k) (name k) (pos k)" by simp
  obtain w1 where w1: "put_chars E (k # ks) chars w = put_chars E ks chars w1" "?L k (bufD (packet w1))"
    "\<And>j. \<not> char_area (unat (pos k)) j \<and> \<not> level_area (unat (pos k)) j \<Longrightarrow> bufD (packet w1) j = bufD (packet w) j"
    using put_chars_step [where chars = chars and k = k and ks = ks and w = w, OF k] by blast
  obtain w' where w': "put_chars E ks chars w1 = Inr (True, w')" "\<And>i. i \<in> set ks \<Longrightarrow> ?L i (bufD (packet w'))"
    "\<And>j. \<forall>i \<in> set ks. \<not> char_area (unat (pos i)) j \<and> \<not> level_area (unat (pos i)) j \<Longrightarrow>
      bufD (packet w') j = bufD (packet w1) j"
    using Cons.IH [of w1] Cons.prems by auto
  have "?L k (bufD (packet w')) \<longleftrightarrow> ?L k (bufD (packet w1))"
  proof (rule listed_cong)
    fix j
    assume j: "char_area (unat (pos k)) j \<or> level_area (unat (pos k)) j"
    show "bufD (packet w') j = bufD (packet w1) j"
    proof (rule w'(3), intro ballI)
      fix i
      assume i: "i \<in> set ks"
      then have "pos k \<noteq> pos i" using Cons.prems(2) by auto
      then have "unat (pos k) \<noteq> unat (pos i)" by (simp add: word_unat_eq_iff)
      moreover have "unat (pos k) \<le> 3" "unat (pos i) \<le> 3"
        using position_slot [OF k] position_slot [of E "chars i" "name i" "pos i"] Cons.prems(1) i by auto
      ultimately show "\<not> char_area (unat (pos i)) j \<and> \<not> level_area (unat (pos i)) j" using areas_disjoint j by blast
    qed
  qed (use k in \<open>simp add: position_known_def\<close>)
  with w1 w' show ?case by (intro exI [of _ w']) simp
qed simp


definition sample_char :: CCharacter where
  "sample_char = \<lparr>ch_name = ''Ana'' @ replicate 27 NUL, ch_Level = 12, ch_Exp = 100, ch_Mobid = 1, ch_Str = 8, ch_Int = 4,
     ch_Dex = 7, ch_Con = 6, ch_gold = 500, eqitems = (\<lambda>j. ClearItem)\<rparr>"

lemma sample_position:
  "position_known (sample_env\<lparr>mysql_answer := (\<lambda>qs q. Sql_ok [[Some (0, ''1'')]])\<rparr>) sample_char ''Ana'' 1"
proof -
  have "\<exists>q. sprintf_buf 2000 char_pos_query [VStr 0 ''Ana''] = Inr q"
    by (simp add: sprintf_buf_def char_pos_query_def)
  then show ?thesis
    by (simp add: position_known_def sample_char_def cstr_def cell_u32_def cell_def atou_def atoi_def
        is_blank_def is_digit_def digit_val_def sat32_def)
qed


end
