(* ===== verification/LoadFiles.thy ===== *)
theory LoadFiles
  imports CharList
begin

text \<open>
  The loaders of \<open>src/src/gameserver/game_loadfiles.cpp\<close>: configuration, language file, NPC list and
  NPC files, item list, and the start equipment of a new character. An XML document is what libxml's
  \<open>xmlParseFile\<close> returns (an argument, \<open>xmlParseFile\<close> of the environment): the root element and
  its siblings, each with attributes and children.

  A new object gets the number of the current \<open>tick\<close> as its address, which no earlier object has.
\<close>

section \<open>Documents\<close>

text \<open>A Windows path: its parts with a backslash between them.\<close>

fun win_path :: "string list \<Rightarrow> string" where
  "win_path [] = []"
| "win_path [s] = s"
| "win_path (s # ss) = s @ CHR 0x5C # win_path ss"

text \<open>
  \<open>with_root E file rootname f\<close>: parse, compare the name of the root element and run \<open>f\<close> on its
  children; a missing file or another root is \<open>return false\<close>.
\<close>

definition with_root :: "env \<Rightarrow> string \<Rightarrow> string \<Rightarrow> (xml list \<Rightarrow> bool act) \<Rightarrow> bool act" where
  "with_root E file rootname f =
     (case xmlParseFile E file of
        None \<Rightarrow> ret False
      | Some [] \<Rightarrow> throw Null_deref
      | Some (r # _) \<Rightarrow> if xname r \<noteq> rootname then ret False else f (xchildren r))"

definition set_str :: "xml \<Rightarrow> string \<Rightarrow> (string \<Rightarrow> 'r \<Rightarrow> 'r) \<Rightarrow> 'r \<Rightarrow> 'r" where
  "set_str p tag f r = (case readXMLString p tag of None \<Rightarrow> r | Some s \<Rightarrow> f s r)"

definition set_int :: "xml \<Rightarrow> string \<Rightarrow> (u32 \<Rightarrow> 'r \<Rightarrow> 'r) \<Rightarrow> 'r \<Rightarrow> 'r" where
  "set_int p tag f r = (case readXMLInteger p tag of None \<Rightarrow> r | Some i \<Rightarrow> f i r)"

section \<open>serverconfig.xml\<close>

definition config_entry :: "xml \<Rightarrow> CConfig \<Rightarrow> CConfig" where
  "config_entry p =
     (if xname p = ''ipadress'' then set_str p ''value'' (\<lambda>v c. c\<lparr>ipadress := v\<rparr>)
      else if xname p = ''port'' then set_int p ''value'' (\<lambda>v c. c\<lparr>port := ucast v\<rparr>)
      else if xname p = ''mysql_port'' then set_int p ''value'' (\<lambda>v c. c\<lparr>myport := v\<rparr>)
      else if xname p = ''mysql_host'' then set_str p ''value'' (\<lambda>v c. c\<lparr>myhost := v\<rparr>)
      else if xname p = ''mysql_user'' then set_str p ''value'' (\<lambda>v c. c\<lparr>myuser := v\<rparr>)
      else if xname p = ''mysql_pass'' then set_str p ''value'' (\<lambda>v c. c\<lparr>mypass := v\<rparr>)
      else if xname p = ''mysql_db'' then set_str p ''value'' (\<lambda>v c. c\<lparr>mydb := v\<rparr>)
      else if xname p = ''servername'' then set_str p ''value'' (\<lambda>v c. c\<lparr>srvname := v\<rparr>)
      else if xname p = ''autoacc'' then set_int p ''value'' (\<lambda>v c. c\<lparr>autoacc := v\<rparr>)
      else if xname p = ''xp_rate'' then set_int p ''value'' (\<lambda>v c. c\<lparr>xprate := v\<rparr>)
      else if xname p = ''drop_rate'' then set_int p ''value'' (\<lambda>v c. c\<lparr>droprate := v\<rparr>)
      else if xname p = ''gold_rate'' then set_int p ''value'' (\<lambda>v c. c\<lparr>goldrate := v\<rparr>)
      else if xname p = ''gold_dropchance'' then set_int p ''value'' (\<lambda>v c. c\<lparr>goldchance := v\<rparr>)
      else if xname p = ''client_version'' then set_int p ''value'' (\<lambda>v c. c\<lparr>cliversion := v\<rparr>)
      else id)"

definition LoadConfigs :: "env \<Rightarrow> bool act" where
  "LoadConfigs E = with_root E (win_path [''.'', ''serverconfig.xml'']) ''wydserver'' (\<lambda>ps.
     bnd (modify (\<lambda>w. w\<lparr>conf := fold config_entry ps (conf w)\<rparr>)) (\<lambda>_. ret True))"

section \<open>Language.xml\<close>

definition lang_entry :: "xml \<Rightarrow> CLanguage \<Rightarrow> CLanguage" where
  "lang_entry p =
     (if xname p = ''id_invalid'' then set_str p ''value'' (\<lambda>v c. c\<lparr>id_invalid := v\<rparr>)
      else if xname p = ''id_online'' then set_str p ''value'' (\<lambda>v c. c\<lparr>id_online := v\<rparr>)
      else if xname p = ''id_notactive'' then set_str p ''value'' (\<lambda>v c. c\<lparr>id_notactive := v\<rparr>)
      else if xname p = ''pwd_invalid'' then set_str p ''value'' (\<lambda>v c. c\<lparr>pwd_invalid := v\<rparr>)
      else if xname p = ''name_alreadyexist'' then set_str p ''value'' (\<lambda>v c. c\<lparr>name_alreadyexist := v\<rparr>)
      else if xname p = ''wrong_cliver'' then set_str p ''value'' (\<lambda>v c. c\<lparr>wrong_cliver := v\<rparr>)
      else id)"

definition new_language :: CLanguage where
  "new_language = \<lparr>id_invalid = [], id_online = [], id_notactive = [], pwd_invalid = [],
     name_alreadyexist = [], wrong_cliver = []\<rparr>"

definition LoadLanguage :: "env \<Rightarrow> bool act" where
  "LoadLanguage E =
     bnd (modify (\<lambda>w. w\<lparr>lang := new_language\<rparr>)) (\<lambda>_.
     with_root E (win_path [''.'', ''data'', ''Language.xml'']) ''language'' (\<lambda>ps.
     bnd (modify (\<lambda>w. w\<lparr>lang := fold lang_entry ps (lang w)\<rparr>)) (\<lambda>_. ret True)))"

section \<open>NPC files\<close>

definition mem_npc :: "bytes \<Rightarrow> CNPC" where
  "mem_npc m = \<lparr>npc_clientid = w16 m 0, npc_pos = \<lparr>fx = Fin 0, fy = Fin 0\<rparr>, npc_dir = Fin 0, npcname = [],
     inventory = (\<lambda>j. mem_item m (44 + 28 * j)), shopitems = (\<lambda>j. mem_item m (464 + 28 * j)),
     npc_mobid = w32 m 1304, mobcode = w32 m 1308, npc_level = w32 m 1312, n_str = w32 m 1316,
     n_dex = w32 m 1320, n_int = w32 m 1324, n_con = w32 m 1328\<rparr>"

text \<open>
  One attribute of an \<open>item\<close> element: it goes to slot \<open>slotnum\<close> of an array of \<open>n\<close> items, if the
  attribute is there at all.
\<close>

definition item_attr :: "nat \<Rightarrow> xml \<Rightarrow> u32 \<Rightarrow> string \<Rightarrow> (u32 \<Rightarrow> CItem \<Rightarrow> CItem) \<Rightarrow> (nat \<Rightarrow> CItem) \<Rightarrow> (nat \<Rightarrow> CItem) res" where
  "item_attr n z slotnum tag f its =
     (case readXMLInteger z tag of
        None \<Rightarrow> Inr its
      | Some v \<Rightarrow>
          if unat slotnum < n then Inr (its(unat slotnum := f v (its (unat slotnum)))) else Inl Out_of_bounds)"

definition item_attrs :: "(string \<times> (u32 \<Rightarrow> CItem \<Rightarrow> CItem)) list" where
  "item_attrs =
     [(''itemid'', \<lambda>v i. i\<lparr>itemid := v\<rparr>),
      (''add1'', \<lambda>v i. i\<lparr>add1 := v\<rparr>), (''val1'', \<lambda>v i. i\<lparr>val1 := v\<rparr>),
      (''add2'', \<lambda>v i. i\<lparr>add2 := v\<rparr>), (''val2'', \<lambda>v i. i\<lparr>val2 := v\<rparr>),
      (''add3'', \<lambda>v i. i\<lparr>add3 := v\<rparr>), (''val3'', \<lambda>v i. i\<lparr>val3 := v\<rparr>)]"

fun put_attrs :: "nat \<Rightarrow> xml \<Rightarrow> u32 \<Rightarrow> (string \<times> (u32 \<Rightarrow> CItem \<Rightarrow> CItem)) list \<Rightarrow> (nat \<Rightarrow> CItem) \<Rightarrow> (nat \<Rightarrow> CItem) res" where
  "put_attrs n z slotnum [] its = Inr its"
| "put_attrs n z slotnum ((tag, f) # as) its =
     (case item_attr n z slotnum tag f its of Inl e \<Rightarrow> Inl e | Inr its' \<Rightarrow> put_attrs n z slotnum as its')"

text \<open>The \<open>item\<close> elements of an \<open>inventory\<close> or \<open>shopitems\<close> element; \<open>slotnum\<close> is kept between items.\<close>

fun npc_items :: "nat \<Rightarrow> xml list \<Rightarrow> u32 \<Rightarrow> (nat \<Rightarrow> CItem) \<Rightarrow> (u32 \<times> (nat \<Rightarrow> CItem)) res" where
  "npc_items n [] slotnum its = Inr (slotnum, its)"
| "npc_items n (z # zs) slotnum its =
     (if xname z = ''item'' then
        (let slotnum = (case readXMLInteger z ''slotnum'' of None \<Rightarrow> slotnum | Some v \<Rightarrow> v) in
         case put_attrs n z slotnum item_attrs its of
           Inl e \<Rightarrow> Inl e
         | Inr its' \<Rightarrow> npc_items n zs slotnum its')
      else npc_items n zs slotnum its)"

fun npc_children :: "xml list \<Rightarrow> u32 \<Rightarrow> CNPC \<Rightarrow> (u32 \<times> CNPC) res" where
  "npc_children [] slotnum n = Inr (slotnum, n)"
| "npc_children (p # ps) slotnum n =
     (if xname p = ''inventory'' then
        (case npc_items 15 (xchildren p) slotnum (inventory n) of
           Inl e \<Rightarrow> Inl e
         | Inr (slotnum, its) \<Rightarrow> npc_children ps slotnum (n\<lparr>inventory := its\<rparr>))
      else if xname p = ''shopitems'' then
        (case npc_items 30 (xchildren p) slotnum (shopitems n) of
           Inl e \<Rightarrow> Inl e
         | Inr (slotnum, its) \<Rightarrow> npc_children ps slotnum (n\<lparr>shopitems := its\<rparr>))
      else npc_children ps slotnum n)"

definition npc_attrs :: "xml \<Rightarrow> CNPC \<Rightarrow> CNPC" where
  "npc_attrs p n =
     (set_int p ''con'' (\<lambda>v n. n\<lparr>n_con := v\<rparr>)
     (set_int p ''dex'' (\<lambda>v n. n\<lparr>n_dex := v\<rparr>)
     (set_int p ''int'' (\<lambda>v n. n\<lparr>n_int := v\<rparr>)
     (set_int p ''str'' (\<lambda>v n. n\<lparr>n_str := v\<rparr>)
     (set_int p ''level'' (\<lambda>v n. n\<lparr>npc_level := v\<rparr>)
     (set_int p ''mobcode'' (\<lambda>v n. n\<lparr>mobcode := v\<rparr>)
     (set_int p ''mobid'' (\<lambda>v n. n\<lparr>npc_mobid := v\<rparr>)
     (set_str p ''name'' (\<lambda>v n. n\<lparr>npcname := v\<rparr>) n))))))))"

text \<open>The loop over the root element and its siblings: every \<open>npc\<close> element pushes the one object.\<close>

fun npc_roots :: "nat \<Rightarrow> xml list \<Rightarrow> u32 \<Rightarrow> unit act" where
  "npc_roots a [] slotnum = ret ()"
| "npc_roots a (r # rs) slotnum =
     (if xname r = ''npc'' then
        bnd (npc a) (\<lambda>n.
        bnd (liftE (npc_children (xchildren r) slotnum (npc_attrs r n))) (\<lambda>(slotnum, n).
        bnd (upd_npc a (\<lambda>_. n)) (\<lambda>_.
        bnd (modify (\<lambda>w. w\<lparr>NPCList := NPCList w @ [a]\<rparr>)) (\<lambda>_.
        npc_roots a rs slotnum))))
      else npc_roots a rs slotnum)"

definition LoadNPCFile :: "env \<Rightarrow> string \<Rightarrow> u32 \<Rightarrow> u32 \<Rightarrow> bool act" where
  "LoadNPCFile E filename posx posy =
     bnd tickM (\<lambda>a.
     bnd (memoryM E) (\<lambda>heap.
     bnd (modify (\<lambda>w. w\<lparr>npcs := (npcs w)(a \<mapsto> (mem_npc heap)
       \<lparr>inventory := (\<lambda>j. if j < 15 then ClearItem else inventory (mem_npc heap) j),
        npc_pos := \<lparr>fx = f_of_int (sint posx), fy = f_of_int (sint posy)\<rparr>\<rparr>)\<rparr>)) (\<lambda>_.
     case xmlParseFile E (win_path [''.'', ''npcs'', filename]) of
       None \<Rightarrow> ret False
     | Some roots \<Rightarrow>
         bnd (wordM E) (\<lambda>slotnum.
         bnd (npc_roots a roots slotnum) (\<lambda>_. ret True)))))"

fun npc_list :: "env \<Rightarrow> xml list \<Rightarrow> unit act" where
  "npc_list E [] = ret ()"
| "npc_list E (p # ps) =
     bnd (if xname p = ''npc'' then
            (case (readXMLInteger p ''pos_x'', readXMLInteger p ''pos_y'', readXMLString p ''npcfile'') of
               (Some posx, Some posy, Some file) \<Rightarrow> bnd (LoadNPCFile E file posx posy) (\<lambda>_. ret ())
             | _ \<Rightarrow> ret ())
          else ret ()) (\<lambda>_.
     npc_list E ps)"

definition LoadNPCList :: "env \<Rightarrow> bool act" where
  "LoadNPCList E = with_root E (win_path [''.'', ''data'', ''NpcList.xml'']) ''npclist'' (\<lambda>ps.
     bnd (npc_list E ps) (\<lambda>_. ret True))"

section \<open>ItemList.xml\<close>

definition mem_equip :: "bytes \<Rightarrow> CEquip" where
  "mem_equip m = \<lparr>eq_itemid = w32 m 0, eq_name = [], rlvl = w32 m 32, eq_pos = w32 m 36, mesh = w32 m 40,
     wtype = w32 m 44, req_str = w32 m 48, req_int = w32 m 52, req_dex = w32 m 56, req_con = w32 m 60,
     price = w32 m 64, effects = (\<lambda>j. \<lparr>effectid = w32 m (68 + 8 * j), effvalue = w32 m (72 + 8 * j)\<rparr>)\<rparr>"

definition equip_attrs :: "xml \<Rightarrow> CEquip \<Rightarrow> CEquip" where
  "equip_attrs p e =
     (set_int p ''pos'' (\<lambda>v e. e\<lparr>eq_pos := v\<rparr>)
     (set_int p ''equip_type'' (\<lambda>v e. e\<lparr>wtype := v\<rparr>)
     (set_int p ''pos'' (\<lambda>v e. e\<lparr>eq_pos := v\<rparr>)
     (set_int p ''price'' (\<lambda>v e. e\<lparr>price := v\<rparr>)
     (set_int p ''req_con'' (\<lambda>v e. e\<lparr>req_con := v\<rparr>)
     (set_int p ''req_dex'' (\<lambda>v e. e\<lparr>req_dex := v\<rparr>)
     (set_int p ''req_int'' (\<lambda>v e. e\<lparr>req_int := v\<rparr>)
     (set_int p ''req_str'' (\<lambda>v e. e\<lparr>req_str := v\<rparr>)
     (set_int p ''req_lvl'' (\<lambda>v e. e\<lparr>rlvl := v\<rparr>)
     (set_int p ''mesh'' (\<lambda>v e. e\<lparr>mesh := v\<rparr>)
     (set_str p ''name'' (\<lambda>v e. e\<lparr>eq_name := v\<rparr>)
     (set_int p ''id'' (\<lambda>v e. e\<lparr>eq_itemid := v\<rparr>) e))))))))))))"

text \<open>\<open>N0 V0 \<dots> N11 V11\<close> go to \<open>effects[0] \<dots> effects[11]\<close>; the array has 11 elements.\<close>

definition set_effect :: "nat \<Rightarrow> (CEffect \<Rightarrow> CEffect) \<Rightarrow> CEquip \<Rightarrow> CEquip res" where
  "set_effect k f e =
     (if k < 11 then Inr (e\<lparr>effects := (effects e)(k := f (effects e k))\<rparr>) else Inl Out_of_bounds)"

fun equip_effects :: "xml \<Rightarrow> nat list \<Rightarrow> CEquip \<Rightarrow> CEquip res" where
  "equip_effects p [] e = Inr e"
| "equip_effects p (k # ks) e =
     (case (case readXMLInteger p (''N'' @ dec_nat k) of
              None \<Rightarrow> Inr e
            | Some v \<Rightarrow> set_effect k (\<lambda>x. x\<lparr>effectid := v\<rparr>) e) of
        Inl err \<Rightarrow> Inl err
      | Inr e \<Rightarrow>
          (case (case readXMLInteger p (''V'' @ dec_nat k) of
                   None \<Rightarrow> Inr e
                 | Some v \<Rightarrow> set_effect k (\<lambda>x. x\<lparr>effvalue := v\<rparr>) e) of
             Inl err \<Rightarrow> Inl err
           | Inr e \<Rightarrow> equip_effects p ks e))"

fun item_list :: "nat \<Rightarrow> xml list \<Rightarrow> unit act" where
  "item_list a [] = ret ()"
| "item_list a (p # ps) =
     (if xname p = ''item'' then
        bnd (gets equips) (\<lambda>es.
        case es a of
          None \<Rightarrow> throw Dangling
        | Some e \<Rightarrow>
            bnd (liftE (equip_effects p [0..<12] (equip_attrs p e))) (\<lambda>e'.
            bnd (modify (\<lambda>w. w\<lparr>equips := (equips w)(a \<mapsto> e'), EquipList := EquipList w @ [a]\<rparr>)) (\<lambda>_.
            item_list a ps)))
      else item_list a ps)"

definition LoadItemList :: "env \<Rightarrow> bool act" where
  "LoadItemList E =
     bnd tickM (\<lambda>a.
     bnd (memoryM E) (\<lambda>heap.
     bnd (modify (\<lambda>w. w\<lparr>equips := (equips w)(a \<mapsto> mem_equip heap)\<rparr>)) (\<lambda>_.
     with_root E (win_path [''.'', ''data'', ''ItemList.xml'']) ''itemlist'' (\<lambda>ps.
     bnd (item_list a ps) (\<lambda>_. ret True)))))"

section \<open>StartChar.xml\<close>

definition class_name :: "nat \<Rightarrow> string option" where
  "class_name charclass =
     (if charclass = 0 then Some ''transknight''
      else if charclass = 1 then Some ''foema''
      else if charclass = 2 then Some ''bestmaster''
      else if charclass = 3 then Some ''hunter''
      else None)"

fun read_ints :: "xml \<Rightarrow> string list \<Rightarrow> u32 list option" where
  "read_ints p [] = Some []"
| "read_ints p (t # ts) =
     (case readXMLInteger p t of
        None \<Rightarrow> None
      | Some v \<Rightarrow> map_option (Cons v) (read_ints p ts))"

definition create_char_query :: string where
  "create_char_query =
     ''INSERT INTO characters (name,uid,mobid,max_hp,max_mp,cstr,cint,cdex,ccon,gold,posid,classid,skpoints,stpoints,skmpoints,clevel) ''
     @ replicate 20 (CHR '' '') @ ''VALUES ('' @ [CHR 0x27] @ ''%s'' @ [CHR 0x27] @ '', '' @ [CHR 0x27] @ ''%s'' @ [CHR 0x27]
     @ concat (map (\<lambda>s. '', '' @ s)
         ([[CHR 0x27] @ ''%i'' @ [CHR 0x27], ''50'', ''10''] @ replicate 4 ([CHR 0x27] @ ''%i'' @ [CHR 0x27])
          @ [''0''] @ replicate 6 ([CHR 0x27] @ ''%i'' @ [CHR 0x27]))) @ '')''"

definition create_item_query :: string where
  "create_item_query =
     ''INSERT INTO char_items (owner,slotnum,itemid,add1,addval1,add2,addval2,add3,addval3) ''
     @ replicate 28 (CHR '' '') @ ''VALUES ('' @ [CHR 0x27] @ ''%i'' @ [CHR 0x27]
     @ concat (replicate 8 ('', '' @ [CHR 0x27] @ ''%i'' @ [CHR 0x27])) @ '')''"

definition char_id_query :: string where
  "char_id_query = ''SELECT id FROM characters WHERE name='' @ [CHR 0x27] @ ''%s'' @ [CHR 0x27]"

fun start_items :: "env \<Rightarrow> u32 \<Rightarrow> xml list \<Rightarrow> unit act" where
  "start_items E char_no [] = ret ()"
| "start_items E char_no (p # ps) =
     bnd (if xname p = ''inventory'' then
            (case read_ints p [''slot'', ''itemid'', ''add1'', ''add2'', ''add3'', ''val1'', ''val2'', ''val3''] of
               None \<Rightarrow> ret ()
             | Some v \<Rightarrow>
                 bnd (DoSQL E create_item_query (map VInt
                   [char_no, v ! 0, v ! 1, v ! 2, v ! 5, v ! 3, v ! 6, v ! 4, v ! 7])) (\<lambda>_. ret ()))
          else ret ()) (\<lambda>_.
     start_items E char_no ps)"

text \<open>
  The loop over the classes of the file. \<open>char_no\<close> is carried along (it is uninitialised until a
  class with all attributes has been inserted); \<open>False\<close> is the early \<open>return false\<close>.
\<close>

fun start_classes :: "env \<Rightarrow> string \<Rightarrow> string \<Rightarrow> u32 \<Rightarrow> u32 \<Rightarrow> u32 \<Rightarrow> xml list \<Rightarrow> bool act" where
  "start_classes E user charname charclass destpos char_no [] = ret True"
| "start_classes E user charname charclass destpos char_no (p # ps) =
     (case class_name (unat charclass) of
        None \<Rightarrow> throw Uninitialised
      | Some cname \<Rightarrow>
          if xname p \<noteq> cname then start_classes E user charname charclass destpos char_no ps
          else
            bnd (case read_ints p [''mobid'', ''level'', ''str'', ''int'', ''dex'', ''con'', ''skpts'', ''stpts'', ''skmpts''] of
                   None \<Rightarrow> ret (Some char_no)
                 | Some v \<Rightarrow>
                     bnd (DoSQL E create_char_query ([VStr 0 charname, VStr 0 user] @ map VInt
                       [v ! 0, v ! 2, v ! 3, v ! 4, v ! 5, destpos, charclass, v ! 6, v ! 7, v ! 8, v ! 1])) (\<lambda>_.
                     bnd (DoSQL E char_id_query [VStr 0 charname]) (\<lambda>ok.
                     if \<not> ok then ret None
                     else
                       bnd mysql_store_result (\<lambda>rows.
                       case rows of
                         [] \<Rightarrow> throw Null_deref
                       | row # _ \<Rightarrow> bnd (liftE (cell_u32 row 0)) (\<lambda>i. ret (Some i))))))
              (\<lambda>r. case r of
                 None \<Rightarrow> ret False
               | Some char_no \<Rightarrow>
                   bnd (start_items E char_no (xchildren p)) (\<lambda>_.
                   start_classes E user charname charclass destpos char_no ps)))"

definition LoadCreateChar :: "env \<Rightarrow> nat \<Rightarrow> u32 \<Rightarrow> string \<Rightarrow> u32 \<Rightarrow> bool act" where
  "LoadCreateChar E this charclass charname destpos =
     bnd (client this) (\<lambda>c.
     bnd (liftE (cstr (username (PlayerSession c)))) (\<lambda>user.
     bnd (wordM E) (\<lambda>char_no.
     with_root E (win_path [''.'', ''data'', ''StartChar.xml'']) ''startitems'' (\<lambda>ps.
     start_classes E user charname charclass destpos char_no ps))))"

section \<open>Configuration\<close>

text \<open>The value of the last entry with a given name.\<close>

fun last_val :: "string \<Rightarrow> xml list \<Rightarrow> string option" where
  "last_val tag [] = None"
| "last_val tag (p # ps) =
     (case last_val tag ps of
        Some v \<Rightarrow> Some v
      | None \<Rightarrow> if xname p = tag then xmlGetProp p ''value'' else None)"

definition conf_val :: "(string \<Rightarrow> 'a) \<Rightarrow> string \<Rightarrow> xml list \<Rightarrow> 'a \<Rightarrow> 'a" where
  "conf_val f tag ps old = (case last_val tag ps of None \<Rightarrow> old | Some v \<Rightarrow> f v)"

lemma conf_Nil [simp]: "conf_val f tag [] old = old"
  by (simp add: conf_val_def)

lemma conf_Cons:
  "conf_val f tag (p # ps) old =
     conf_val f tag ps (if xname p = tag then (case xmlGetProp p ''value'' of None \<Rightarrow> old | Some v \<Rightarrow> f v) else old)"
  by (auto simp: conf_val_def split: option.split)

text \<open>A field that an entry of one name sets and no other entry touches takes the last value of that name.\<close>

lemma fold_field:
  assumes "\<And>p c. fld (g p c) = (if xname p = tag then (case xmlGetProp p ''value'' of None \<Rightarrow> fld c | Some v \<Rightarrow> f v) else fld c)"
  shows "fld (fold g ps c) = conf_val f tag ps (fld c)"
  by (induction ps arbitrary: c) (simp_all add: conf_Cons assms)

lemmas entry_defs = config_entry_def lang_entry_def set_int_def set_str_def readXMLInteger_def readXMLString_def

lemma config_rates:
  "port (fold config_entry ps c) = conf_val (\<lambda>v. ucast (atou v)) ''port'' ps (port c)"
  "cliversion (fold config_entry ps c) = conf_val atou ''client_version'' ps (cliversion c)"
  "autoacc (fold config_entry ps c) = conf_val atou ''autoacc'' ps (autoacc c)"
  "xprate (fold config_entry ps c) = conf_val atou ''xp_rate'' ps (xprate c)"
  "droprate (fold config_entry ps c) = conf_val atou ''drop_rate'' ps (droprate c)"
  by (rule fold_field; simp add: entry_defs split: option.split)+

lemma config_database:
  "goldrate (fold config_entry ps c) = conf_val atou ''gold_rate'' ps (goldrate c)"
  "goldchance (fold config_entry ps c) = conf_val atou ''gold_dropchance'' ps (goldchance c)"
  "myport (fold config_entry ps c) = conf_val atou ''mysql_port'' ps (myport c)"
  "myhost (fold config_entry ps c) = conf_val id ''mysql_host'' ps (myhost c)"
  "myuser (fold config_entry ps c) = conf_val id ''mysql_user'' ps (myuser c)"
  by (rule fold_field; simp add: entry_defs split: option.split)+

lemma config_names:
  "mypass (fold config_entry ps c) = conf_val id ''mysql_pass'' ps (mypass c)"
  "mydb (fold config_entry ps c) = conf_val id ''mysql_db'' ps (mydb c)"
  "srvname (fold config_entry ps c) = conf_val id ''servername'' ps (srvname c)"
  "ipadress (fold config_entry ps c) = conf_val id ''ipadress'' ps (ipadress c)"
  by (rule fold_field; simp add: entry_defs split: option.split)+

text \<open>
  The configuration file: every setting takes the value of the last entry with its name (numbers
  through \<open>atoi\<close>, the port cut to 16 bits), settings without an entry keep their value, and entries
  with other names have no effect.
\<close>

lemma LoadConfigs_last_wins:
  assumes "xmlParseFile E (win_path [''.'', ''serverconfig.xml'']) = Some (Xml ''wydserver'' attrs ps # rest)"
  shows "\<exists>c. LoadConfigs E w = Inr (True, w\<lparr>conf := c\<rparr>) \<and>
    port c = conf_val (\<lambda>v. ucast (atou v)) ''port'' ps (port (conf w)) \<and>
    cliversion c = conf_val atou ''client_version'' ps (cliversion (conf w)) \<and>
    autoacc c = conf_val atou ''autoacc'' ps (autoacc (conf w)) \<and>
    xprate c = conf_val atou ''xp_rate'' ps (xprate (conf w)) \<and>
    droprate c = conf_val atou ''drop_rate'' ps (droprate (conf w)) \<and>
    goldrate c = conf_val atou ''gold_rate'' ps (goldrate (conf w)) \<and>
    goldchance c = conf_val atou ''gold_dropchance'' ps (goldchance (conf w)) \<and>
    myport c = conf_val atou ''mysql_port'' ps (myport (conf w)) \<and>
    myhost c = conf_val id ''mysql_host'' ps (myhost (conf w)) \<and>
    myuser c = conf_val id ''mysql_user'' ps (myuser (conf w)) \<and>
    mypass c = conf_val id ''mysql_pass'' ps (mypass (conf w)) \<and>
    mydb c = conf_val id ''mysql_db'' ps (mydb (conf w)) \<and>
    srvname c = conf_val id ''servername'' ps (srvname (conf w)) \<and>
    ipadress c = conf_val id ''ipadress'' ps (ipadress (conf w))"
proof -
  have "LoadConfigs E w = Inr (True, w\<lparr>conf := fold config_entry ps (conf w)\<rparr>)"
    using assms by (simp add: LoadConfigs_def with_root_def ret_def)
  then show ?thesis
    by (intro exI conjI, assumption) (rule config_rates config_database config_names)+
qed

section \<open>Items\<close>

text \<open>
  \<open>LoadItemList\<close> creates one object and lists it once for every item of the file: all entries of
  \<open>EquipList\<close> are the same object.
\<close>

lemma LoadItemList_one_object:
  assumes "xmlParseFile E (win_path [''.'', ''data'', ''ItemList.xml'']) = Some (Xml ''itemlist'' attrs ps # rest)"
    and "LoadItemList E w = Inr (r, w')"
  shows "EquipList w' = EquipList w @ replicate (length (filter (\<lambda>p. xname p = ''item'') ps)) (tick w)"
proof -
  have loop: "EquipList v' = EquipList v @ replicate (length (filter (\<lambda>p. xname p = ''item'') ps)) a"
    if "item_list a ps v = Inr (x, v')" for a x v v'
    using that
  proof (induction ps arbitrary: v)
    case Nil
    then show ?case by simp
  next
    case (Cons p ps)
    show ?case
    proof (cases "xname p = ''item''")
      case False
      with Cons show ?thesis by simp
    next
      case True
      with Cons.prems obtain e' where
        "item_list a ps (v\<lparr>equips := (equips v)(a \<mapsto> e'), EquipList := EquipList v @ [a]\<rparr>) = Inr (x, v')"
        by (auto simp: bnd_eq_Inr gets_def modify_def liftE_def split: option.splits sum.splits)
      from Cons.IH [OF this] True show ?thesis by simp
    qed
  qed
  from assms(2) assms(1) show ?thesis
    by (auto simp: LoadItemList_def with_root_def bnd_eq_Inr dest!: loop)
qed

lemma fold_N11: "(''N'' @ dec_nat 11) = ''N11''"
  by code_simp

text \<open>
  An item with a twelfth effect (attribute \<open>N11\<close>, which the loader reads) makes it write behind
  the eleven elements of the effects array.
\<close>

lemma twelfth_effect_overflows:
  assumes "readXMLInteger p ''N11'' = Some v"
  shows "equip_effects p [0..<12] e = Inl Out_of_bounds"
proof -
  have "equip_effects p (ks @ [11]) e = Inl Out_of_bounds" if "\<forall>k \<in> set ks. k < 11" for ks e
    using that
  proof (induction ks arbitrary: e)
    case Nil
    show ?case using assms by (simp add: fold_N11 [simplified] set_effect_def)
  next
    case (Cons k ks)
    then show ?case by (auto simp: set_effect_def split: option.split)
  qed
  from this [of "[0..<11]" e] show ?thesis by (simp add: upt_rec numeral_eq_Suc)
qed

section \<open>New characters\<close>

text \<open>
  A request for a character class the server does not know (4 or more) makes it compare element
  names with an uninitialised pointer, as soon as the start file has any element.
\<close>

lemma unknown_class_faults:
  assumes "4 \<le> unat cls" and "clients w this = Some c" and "cstr (username (PlayerSession c)) = Inr user"
    and "xmlParseFile E (win_path [''.'', ''data'', ''StartChar.xml'']) = Some (Xml ''startitems'' attrs (p # ps) # rest)"
  shows "LoadCreateChar E this cls name dst w = Inl Uninitialised"
  using assms
  by (simp add: LoadCreateChar_def bnd_liftE wordM_def bnd_assoc with_root_def class_name_def throw_def)

end
