(* ===== verification/Frames.thy ===== *)
theory Frames
  imports LoadFiles "HOL-Library.Sublist"
begin

text \<open>
  What the operations leave alone. \<open>quiet\<close> relates worlds that differ only in the packet under
  construction, the output, the statements sent (which only grow) and the bookkeeping of the server; most operations stay in it. The others
  change, besides, the record of the one client they serve: the locale \<open>client_frame\<close> states what a
  relation must admit for that (\<open>quiet\<close> changes, and the updates \<open>ok\<close> of the client's record), and inside it
  every handler is shown to stay in the relation. Its interpretations say which client a packet may
  change (\<open>own\<close>), which of its fields stay (\<open>same_view\<close>), and that its record stays well formed (\<open>typed\<close>).
\<close>

section \<open>Operations that change no object\<close>

definition quiet :: "world \<Rightarrow> world \<Rightarrow> bool" where
  "quiet w w' \<longleftrightarrow> ClientList w' = ClientList w \<and> clients w' = clients w \<and> NPCList w' = NPCList w \<and>
     npcs w' = npcs w \<and> EquipList w' = EquipList w \<and> equips w' = equips w \<and> conf w' = conf w \<and>
     lang w' = lang w \<and> CKeys w' = CKeys w \<and> srv_isActive w' = srv_isActive w \<and>
     ServerOnline w' = ServerOnline w \<and> srv_sock w' = srv_sock w \<and> tick w \<le> tick w' \<and>
     prefix (queries w) (queries w')"

interpretation qt: framed quiet
  by unfold_locales (auto simp: quiet_def intro: prefix_order.trans)

named_theorems quiet_keeps "operations that change no object"

lemmas qt_intros = qt.keeps_ret qt.keeps_gets qt.keeps_liftE qt.keeps_bnd qt.keeps_forM_list
  qt.keeps_whenM keeps_throw keeps_if keeps_option keeps_list keeps_prod keeps_sql keeps_let

lemma quiet_primitives [quiet_keeps]:
  "keeps quiet tickM" "keeps quiet (emit ev)" "keeps quiet (on_packet m)" "keeps quiet (client a)"
  "keeps quiet (npc a)" "keeps quiet mysql_store_result"
  by (auto intro!: keepsI simp: tickM_def emit_def modify_def on_packet_def client_def npc_def mysql_store_result_def
      gets_def quiet_def split: sum.splits option.splits)

lemma quiet_derived [quiet_keeps]:
  "keeps quiet (memoryM E)" "keeps quiet (wordM E)" "keeps quiet (clockM E)" "keeps quiet (Decrypt E src len keys)"
  unfolding memoryM_def wordM_def clockM_def Decrypt_def by (rule qt_intros quiet_keeps)+

lemma quiet_SendPk [quiet_keeps]: "keeps quiet (SendPk E a len)"
  unfolding SendPk_def SendEncbuf_def SendPacket_def EncryptPacket_def Encrypt_def
  by ((rule qt_intros quiet_keeps keeps_modify) | (simp add: quiet_def; fail))+

lemma quiet_DoSQL [quiet_keeps]: "keeps quiet (DoSQL E f as)"
  by (rule keepsI) (auto simp: DoSQL_run quiet_def Let_def split: sum.splits sql_result.splits)

lemma quiet_id_loop [quiet_keeps]: "keeps quiet (id_loop E i)"
proof (rule keepsI)
  fix w r w'
  assume "id_loop E i w = Inr (r, w')"
  then show "quiet w w'"
  proof (induction E i w rule: id_loop.induct)
    case (1 E i w)
    show ?case
    proof (cases "65535 < i \<or> ClientIDList w i = 0")
      case True
      with 1 show ?thesis by (cases "65535 < i") (auto simp: id_loop.simps [of E i w] quiet_def)
    next
      case False
      show ?thesis
      proof (cases "10 < time_at E (tick w) - uint (ClientIDList w i)")
        case True
        with False "1.prems" show ?thesis by (auto simp: id_loop.simps [of E i w] quiet_def)
      next
        case f: False
        with False "1.prems" have "id_loop E (i + 1) (w\<lparr>tick := Suc (tick w)\<rparr>) = Inr (r, w')"
          by (simp add: id_loop.simps [of E i w])
        with "1.IH"(2) [OF _ _ refl refl] False f have "quiet (w\<lparr>tick := Suc (tick w)\<rparr>) w'" by simp
        then show ?thesis by (auto simp: quiet_def)
      qed
    qed
  qed
qed

lemmas [quiet_keeps] = quiet_id_loop [where i = 1, folded GetNewClientID_def]

lemma quiet_sends [quiet_keeps]:
  "keeps quiet (SendToAll E sz)" "keeps quiet (SendToVisible E a sz self)" "keeps quiet (SendServerMsg E a f as)"
  unfolding SendToAll_def SendToVisible_def SendServerMsg_def by (rule qt_intros quiet_keeps)+

lemma quiet_find_npc [quiet_keeps]: "keeps quiet (find_npc i as)"
  by (induction as) (simp, (rule qt_intros quiet_keeps | assumption)+)+

lemma quiet_relays [quiet_keeps]:
  "keeps quiet (PlayerAttack E a P)" "keeps quiet (ChangeInventory E a P)" "keeps quiet (SendChat E a P)"
  "keeps quiet (GameToCharList E a P)" "keeps quiet (SendNPCSellItems E a P)"
  unfolding PlayerAttack_def ChangeInventory_def SendChat_def GameToCharList_def SendNPCSellItems_def GetNPCByID_def
  by (rule qt_intros quiet_keeps)+

lemma quiet_fill_chars [quiet_keeps]: "keeps quiet (fill_chars E rows posid chars)"
  by (induction rows arbitrary: posid chars)
    (simp_all only: fill_chars.simps, (rule qt_intros quiet_keeps | assumption | (simp; fail))+)

lemma quiet_put_chars [quiet_keeps]: "keeps quiet (put_chars E ks chars)"
  by (induction ks) (simp, (rule qt_intros quiet_keeps | assumption)+)+

lemma quiet_char_lists [quiet_keeps]:
  "keeps quiet (ResendCharList E a P)" "keeps quiet (SendCharList E a P)"
  unfolding ResendCharList_def SendCharList_def by (rule qt_intros quiet_keeps)+

lemma quiet_start_items [quiet_keeps]: "keeps quiet (start_items E n ps)"
  by (induction ps) (simp_all only: start_items.simps, (rule qt_intros quiet_keeps | assumption)+)

lemma quiet_start_classes [quiet_keeps]: "keeps quiet (start_classes E user name cl dst n ps)"
  by (induction ps arbitrary: n) (simp, (rule qt_intros quiet_keeps | assumption | (simp; fail))+)+

lemma quiet_with_root [quiet_keeps]: "(\<And>ps. keeps quiet (f ps)) \<Longrightarrow> keeps quiet (with_root E file r f)"
  unfolding with_root_def by (rule qt_intros quiet_keeps | assumption)+

lemma quiet_LoadCreateChar [quiet_keeps]: "keeps quiet (LoadCreateChar E a cl name dst)"
  unfolding LoadCreateChar_def by (rule qt_intros quiet_keeps)+

section \<open>Operations that change one client\<close>

locale client_frame = framed R for R :: "world \<Rightarrow> world \<Rightarrow> bool" +
  fixes this :: nat and ok :: "(CConnClient \<Rightarrow> CConnClient) \<Rightarrow> bool"
  assumes frame_quiet: "quiet w w' \<Longrightarrow> R w w'"
    and frame_upd: "ok f \<Longrightarrow> clients w this = Some c \<Longrightarrow> R w (w\<lparr>clients := (clients w)(this \<mapsto> f c)\<rparr>)"
begin

lemma keeps_quiet: "keeps quiet m \<Longrightarrow> keeps R m"
  by (auto simp: keeps_def frame_quiet)

lemma keeps_upd: "ok f \<Longrightarrow> keeps R (upd_client this f)"
  by (rule keepsI) (auto simp: upd_client_def frame_upd split: option.splits)

lemmas frame_intros = keeps_ret keeps_gets keeps_liftE keeps_bnd keeps_forM_list keeps_whenM
  keeps_throw keeps_if keeps_option keeps_list keeps_prod keeps_sql keeps_let keeps_upd quiet_keeps [THEN keeps_quiet]

lemma keeps_ShopItemBuy:
  assumes "ok (\<lambda>c. c\<lparr>PlayerInfo := (PlayerInfo c)\<lparr>Gold := Gold (PlayerInfo c) - 66000\<rparr>\<rparr>)"
  shows "keeps R (ShopItemBuy E this P)"
  unfolding ShopItemBuy_def by (rule frame_intros assms)+

lemma keeps_ObjectMove:
  assumes "\<And>p. ok (\<lambda>c. c\<lparr>PlayerPosition := (PlayerPosition c)\<lparr>current := p, destiny := p\<rparr>\<rparr>)"
  shows "keeps R (ObjectMove E this P)"
  unfolding ObjectMove_def by (rule frame_intros assms)+

lemma keeps_load_items:
  assumes "\<And>f. ok (\<lambda>c. c\<lparr>items := f (items c)\<rparr>)"
  shows "keeps R (load_items this rows)"
  by (induction rows)
    (simp_all only: load_items.simps, (rule frame_intros assms [of "\<lambda>g. g(i := x)" for i x] | assumption)+)

lemma keeps_loaddata:
  assumes its: "\<And>f. ok (\<lambda>c. c\<lparr>items := f (items c)\<rparr>)" and row: "\<And>v. ok (load_char_row v)"
    and log: "ok (\<lambda>c. c\<lparr>PlayerSession := (PlayerSession c)\<lparr>isLoggedIn := True\<rparr>\<rparr>)"
  shows "keeps R (loaddata E this)"
  unfolding loaddata_def
  by (rule frame_intros keeps_load_items its its [of "\<lambda>g j. if j < 77 then ClearItem else g j"] row log)+

end

section \<open>Three interpretations\<close>

text \<open>\<open>own this\<close>: only client \<open>this\<close>, the output and the bookkeeping of the server may differ.\<close>

definition own :: "nat \<Rightarrow> world \<Rightarrow> world \<Rightarrow> bool" where
  "own this w w' \<longleftrightarrow> ClientList w' = ClientList w \<and> (\<forall>a. a \<noteq> this \<longrightarrow> clients w' a = clients w a) \<and>
     dom (clients w') = dom (clients w) \<and> NPCList w' = NPCList w \<and> npcs w' = npcs w \<and>
     EquipList w' = EquipList w \<and> equips w' = equips w \<and> conf w' = conf w \<and> lang w' = lang w \<and>
     CKeys w' = CKeys w \<and> srv_isActive w' = srv_isActive w \<and> ServerOnline w' = ServerOnline w \<and>
     srv_sock w' = srv_sock w \<and> tick w \<le> tick w'"

interpretation own: client_frame "own this" this "\<lambda>_. True" for this
  by unfold_locales (auto simp: own_def quiet_def)

text \<open>\<open>same_view v this\<close>: what \<open>v\<close> reads of client \<open>this\<close> is as before.\<close>

definition same_view :: "(CConnClient \<Rightarrow> 'b) \<Rightarrow> nat \<Rightarrow> world \<Rightarrow> world \<Rightarrow> bool" where
  "same_view v this w w' \<longleftrightarrow> map_option v (clients w' this) = map_option v (clients w this)"

interpretation vw: client_frame "same_view v this" this "\<lambda>f. \<forall>c. v (f c) = v c" for v this
  by unfold_locales (auto simp: same_view_def quiet_def)

lemma same_viewD:
  "same_view v this w w' \<Longrightarrow> clients w this = Some c \<Longrightarrow> \<exists>c'. clients w' this = Some c' \<and> v c' = v c"
  by (auto simp: same_view_def)

text \<open>\<open>typed I\<close>: if every client record satisfies \<open>I\<close> before, so it does after.\<close>

definition all_clients :: "(CConnClient \<Rightarrow> bool) \<Rightarrow> world \<Rightarrow> bool" where
  "all_clients I w \<longleftrightarrow> (\<forall>a c. clients w a = Some c \<longrightarrow> I c)"

definition typed :: "(CConnClient \<Rightarrow> bool) \<Rightarrow> world \<Rightarrow> world \<Rightarrow> bool" where
  "typed I w w' \<longleftrightarrow> (all_clients I w \<longrightarrow> all_clients I w')"

lemma all_clientsD: "all_clients I w \<Longrightarrow> clients w a = Some c \<Longrightarrow> I c"
  by (simp add: all_clients_def)

lemma all_clients_cong: "clients w' = clients w \<Longrightarrow> all_clients I w' = all_clients I w"
  by (simp add: all_clients_def)

lemma all_clients_upd: "all_clients I w \<Longrightarrow> I c \<Longrightarrow> all_clients I (w\<lparr>clients := (clients w)(a \<mapsto> c)\<rparr>)"
  by (simp add: all_clients_def)

interpretation ty: client_frame "typed I" this "\<lambda>f. \<forall>c. I c \<longrightarrow> I (f c)" for I this
proof unfold_locales
  show "typed I w w'" if "quiet w w'" for w w'
    using that all_clients_cong [of w' w I] by (simp add: typed_def quiet_def)
  show "typed I w (w\<lparr>clients := (clients w)(this \<mapsto> f c)\<rparr>)"
    if "\<forall>c. I c \<longrightarrow> I (f c)" "clients w this = Some c" for w f c
    unfolding typed_def using that by (blast intro: all_clients_upd dest: all_clientsD)
qed (auto simp: typed_def)

end
