(* ===== verification/Login.thy ===== *)
theory Login
  imports Frames
begin

text \<open>
  The life of a session in \<open>src/src/gameserver/game_packets.cpp\<close>: \<open>CheckLogin\<close>,
  \<open>CharCreate\<close>, \<open>CharDelete\<close> and the entry into the world, \<open>SendToWorld\<close>.
\<close>

section \<open>Creating and deleting characters\<close>

abbreviation quoted :: string where
  "quoted \<equiv> [CHR 0x27] @ ''%s'' @ [CHR 0x27]"

definition account_query :: string where
  "account_query = ''SELECT * FROM accounts WHERE username='' @ quoted @ '' AND password='' @ quoted"

definition delete_items_query :: string where
  "delete_items_query = ''DELETE FROM char_items WHERE owner='' @ [CHR 0x27] @ ''%i'' @ [CHR 0x27]"

definition delete_char_query :: string where
  "delete_char_query = ''DELETE FROM characters WHERE name='' @ quoted"

text \<open>
  \<open>row[0]\<close> as a variadic argument: the pointer itself, which \<open>%i\<close> prints as a number.
\<close>

definition cell_arg :: "sql_row \<Rightarrow> nat \<Rightarrow> varg res" where
  "cell_arg row k =
     (if k < length row then Inr (case row ! k of None \<Rightarrow> VInt 0 | Some (p, s) \<Rightarrow> VStr p s)
      else Inl Out_of_bounds)"

definition CharDelete :: "env \<Rightarrow> nat \<Rightarrow> cbuf \<Rightarrow> bool act" where
  "CharDelete E this P =
     bnd (liftE (rdn P 16 15)) (\<lambda>delcharname.
     bnd (liftE (rdn P 32 12)) (\<lambda>delpassword.
     bnd (client this) (\<lambda>c.
     bnd (liftE (cstr (username (PlayerSession c)))) (\<lambda>user.
     bnd (liftE (cstr delpassword)) (\<lambda>pwd.
     bnd (DoSQL E account_query [VStr 0 user, VStr 0 pwd]) (\<lambda>ok.
     if \<not> ok then ret False
     else
       bnd mysql_store_result (\<lambda>rows.
       if length rows = 1 then
         bnd (liftE (cstr delcharname)) (\<lambda>name.
         bnd (DoSQL E char_id_query [VStr 0 name]) (\<lambda>ok.
         if \<not> ok then ret False
         else
           bnd mysql_store_result (\<lambda>rows2.
           case rows2 of
             [] \<Rightarrow> throw Null_deref
           | row2 # _ \<Rightarrow>
               bnd (liftE (cell_arg row2 0)) (\<lambda>arg.
               bnd (DoSQL E delete_items_query [arg]) (\<lambda>_.
               bnd (DoSQL E delete_char_query [VStr 0 name]) (\<lambda>_.
               ResendCharList E this P))))))
       else
         bnd (gets lang) (\<lambda>l. SendServerMsg E this (pwd_invalid l) []))))))))"

definition name_query :: string where
  "name_query = ''SELECT name FROM characters WHERE name='' @ quoted"

definition CharCreate :: "env \<Rightarrow> nat \<Rightarrow> cbuf \<Rightarrow> bool act" where
  "CharCreate E this P =
     bnd (liftE (rdn P 16 15)) (\<lambda>newcharname.
     bnd (liftE (cstr newcharname)) (\<lambda>name.
     bnd (DoSQL E name_query [VStr 0 name]) (\<lambda>ok.
     if \<not> ok then ret False
     else
       bnd mysql_store_result (\<lambda>rows.
       if rows = [] then
         bnd (liftE (rd8 P 32)) (\<lambda>charclass.
         bnd (liftE (rd8 P 12)) (\<lambda>destpos.
         bnd (LoadCreateChar E this (ucast charclass) name (ucast destpos)) (\<lambda>_.
         ResendCharList E this P)))
       else
         bnd (gets lang) (\<lambda>l. SendServerMsg E this (name_alreadyexist l) [])))))"

section \<open>Entering the world\<close>

definition select_char_query :: string where
  "select_char_query = ''SELECT name FROM characters WHERE uid='' @ quoted @ '' AND posid='' @
     [CHR 0x27] @ ''%i'' @ [CHR 0x27]"

fun copy_names :: "nat \<Rightarrow> sql_row list \<Rightarrow> unit act" where
  "copy_names this [] = ret ()"
| "copy_names this (row # rows) =
     bnd (liftE (cell row 0)) (\<lambda>(_, s).
     bnd (client this) (\<lambda>c.
     bnd (liftE (strcpy (char_name (PlayerInfo c)) s)) (\<lambda>nm.
     bnd (upd_client this (\<lambda>c. c\<lparr>PlayerInfo := (PlayerInfo c)\<lparr>char_name := nm\<rparr>\<rparr>)) (\<lambda>_.
     copy_names this rows))))"

definition add_bytes :: "nat \<Rightarrow> byte list \<Rightarrow> (bufwrite, unit) op list" where
  "add_bytes off bs = map (\<lambda>k. AddByte (bs ! k) (off + k)) [0..<length bs]"

definition world_head :: "CConnClient \<Rightarrow> bytes \<Rightarrow> string \<Rightarrow> (bufwrite, unit) op list" where
  "world_head c frame name =
     (let pos = current (PlayerPosition c); i = PlayerInfo c; st = PlayerStats c in
      [AddWord (coord (fx pos)) 12,
       AddWord (coord (fy pos)) 14,
       AddStr frame (map c2b name) 16,
       AddByte 150 28,
       AddDWord (Gold i) 40,
       AddDWord (Exp i) 44,
       AddWord (coord (fx pos)) 48,
       AddWord (coord (fy pos)) 50,
       AddByte (ucast (classid i)) 36,
       AddWord 1536 38]
      @ add_bytes 52
        [0x20, 0x00, 0x24, 0x00, 0x05, 0x00, 0x00, 0x52, 0x78, 0x00, 0xCF, 0x00, 0x46, 0x00, 0x37, 0x00,
         0x3D, 0x00, 0x32, 0x00, 0x33, 0x00, 0x0E, 0x00, 0x0D, 0x00, 0x2C, 0x01]
      @ [AddWord (ucast (Level i)) 80,
       AddWord (ucast (Defense st)) 82,
       AddWord (ucast (Attack_Power st)) 84,
       AddByte 4 87,
       AddWord (MaxHP st) 88,
       AddWord (MaxMP st) 90,
       AddWord (HP st) 92,
       AddWord (MP st) 94,
       AddWord (Str st) 96,
       AddWord (Intel st) 98,
       AddWord (Dex st) 100,
       AddWord (Con st) 102]
      @ add_bytes 104 [1, 2, 3, 4]
      @ [AddByte (ucast (mobid i)) 108]
      @ add_bytes 110 [43, 0, 86, 0, 28, 1])"

definition world_tail :: "CConnClient \<Rightarrow> (bufwrite, unit) op list" where
  "world_tail c =
     add_bytes 744 [0x4D, 0x4D, 0x4D, 0x00, 0x7F, 0x7F, 0x7F, 0x00]
     @ [AddWord 750 752, AddWord 400 754, AddWord 290 756]
     @ add_bytes 760 [0xFF, 0xFF, 0xFF, 0xFF]
     @ add_bytes 768 [18, 18, 18, 18]
     @ add_bytes 778 (replicate 16 0xFF)
     @ add_bytes 794 [0xCC, 0xCC]
     @ add_bytes 828 [0x22, 0x00, 0x06, 0x00, 0x51, 0x4A, 0x01, 0x00]
     @ [AddWord (ucast (clientid (PlayerSession c))) 774]"

definition inventory_slots :: "(nat \<Rightarrow> CItem) \<Rightarrow> (bufwrite, unit) op" where
  "inventory_slots its = forM_upto 78 (\<lambda>i. let it = its i in
     AddSlot (itemid it) (add1 it) (val1 it) (add2 it) (val2 it) (add3 it) (val3 it) (8 * i + 116))"

definition world_packet :: "CConnClient \<Rightarrow> bytes \<Rightarrow> string \<Rightarrow> (bufwrite, unit) op" where
  "world_packet c frame name = seqM (world_head c frame name @ world_tail c @ [inventory_slots (items c)])"

text \<open>\<open>SendToWorld\<close> from the return of \<open>loaddata\<close> on: two packets and the flags of the client.\<close>

definition world_end :: "env \<Rightarrow> nat \<Rightarrow> bool act" where
  "world_end E this =
     bnd (client this) (\<lambda>c.
     bnd (liftE (cstr (char_name (PlayerInfo c)))) (\<lambda>name.
     bnd (memoryM E) (\<lambda>frame.
     bnd (on_packet (world_packet c frame name)) (\<lambda>_.
     bnd (SendPk E this 1244) (\<lambda>_.
     bnd (upd_client this (\<lambda>c. c\<lparr>PlayerSession := (PlayerSession c)\<lparr>inGame := True\<rparr>, ready := True\<rparr>)) (\<lambda>_.
     bnd (client this) (\<lambda>c.
     bnd (memoryM E) (\<lambda>frame.
     bnd (on_packet (spawn_char_packet c frame name)) (\<lambda>_.
     bnd (SendPk E this 172) (\<lambda>_.
     ret True))))))))))"

definition SendToWorld :: "env \<Rightarrow> nat \<Rightarrow> cbuf \<Rightarrow> bool act" where
  "SendToWorld E this P =
     bnd (on_packet Free) (\<lambda>_.
     bnd (client this) (\<lambda>c.
     bnd (liftE (cstr (username (PlayerSession c)))) (\<lambda>user.
     bnd (liftE (rd8 P 12)) (\<lambda>posid.
     bnd (DoSQL E select_char_query [VStr 0 user, VInt (ucast posid)]) (\<lambda>ok.
     if \<not> ok then ret False
     else
       bnd mysql_store_result (\<lambda>rows.
       bnd (on_packet (seqM [AddWord 1244 0, AddWord 276 4, AddWord (ucast (clientid (PlayerSession c))) 6])) (\<lambda>_.
       bnd (copy_names this rows) (\<lambda>_.
       bnd (loaddata E this) (\<lambda>_.
       world_end E this)))))))))"

section \<open>Login\<close>

definition login_query :: string where
  "login_query = ''SELECT username,password,active,online FROM accounts WHERE username='' @ quoted"

definition login_pwd_query :: string where
  "login_pwd_query = ''SELECT username,password,active,online FROM accounts WHERE username='' @ quoted @
     '' AND password='' @ quoted"

definition login_active_query :: string where
  "login_active_query = ''SELECT username,password,active,online FROM accounts WHERE username='' @ quoted @
     '' AND active='' @ [CHR 0x27] @ ''1'' @ [CHR 0x27]"

definition login_online_query :: string where
  "login_online_query = ''SELECT id,username,password,active,online FROM accounts WHERE username='' @ quoted @
     '' AND online='' @ [CHR 0x27] @ ''0'' @ [CHR 0x27]"

definition login_id_query :: string where
  "login_id_query = ''SELECT id, acesslevel FROM accounts WHERE username='' @ quoted"

definition account_by_name_query :: string where
  "account_by_name_query = ''SELECT * FROM accounts WHERE username='' @ quoted"

definition insert_account_query :: string where
  "insert_account_query = ''INSERT INTO `accounts` (`username`,`password`,`active`) VALUES ('' @ quoted @ '','' @
     quoted @ '','' @ [CHR 0x27] @ ''1'' @ [CHR 0x27] @ '')''"

definition upd_session :: "nat \<Rightarrow> (CAccount \<Rightarrow> CAccount) \<Rightarrow> unit act" where
  "upd_session this f = upd_client this (\<lambda>c. c\<lparr>PlayerSession := f (PlayerSession c)\<rparr>)"

fun auto_rows :: "nat \<Rightarrow> sql_row list \<Rightarrow> unit act" where
  "auto_rows this [] = ret ()"
| "auto_rows this (row # rows) =
     bnd (liftE (cell_u32 row 0)) (\<lambda>i.
     bnd (liftE (cell_u32 row 6)) (\<lambda>lvl.
     bnd (upd_session this (\<lambda>s. s\<lparr>userid := 40000 + i, accesslevel := lvl\<rparr>)) (\<lambda>_.
     auto_rows this rows)))"

fun login_rows :: "env \<Rightarrow> nat \<Rightarrow> sql_row list \<Rightarrow> bool act" where
  "login_rows E this [] = ret True"
| "login_rows E this (row # rows) =
     bnd (liftE (cell_u32 row 0)) (\<lambda>i.
     bnd (upd_session this (\<lambda>s. s\<lparr>userid := i\<rparr>)) (\<lambda>_.
     bnd (GetNewClientID E) (\<lambda>n.
     bnd (upd_session this (\<lambda>s. s\<lparr>clientid := n\<rparr>)) (\<lambda>_.
     if n \<le> 0 then ret False
     else
       bnd (upd_session this (\<lambda>s. s\<lparr>isLoggedIn := True\<rparr>)) (\<lambda>_.
       bnd (liftE (cell_u32 row 1)) (\<lambda>lvl.
       bnd (upd_session this (\<lambda>s. s\<lparr>accesslevel := lvl\<rparr>)) (\<lambda>_.
       login_rows E this rows)))))))"

text \<open>The account exists: password, active flag, online flag, then the new client id.\<close>

definition login_known :: "env \<Rightarrow> nat \<Rightarrow> cbuf \<Rightarrow> string \<Rightarrow> string \<Rightarrow> bool act" where
  "login_known E this P user pw =
     bnd (liftE (cstr pw)) (\<lambda>pwd.
     bnd (DoSQL E login_pwd_query [VStr 0 user, VStr 0 pwd]) (\<lambda>ok.
     if \<not> ok then ret False
     else
       bnd mysql_store_result (\<lambda>rows.
       if rows = [] then bnd (gets lang) (\<lambda>l. SendServerMsg E this (pwd_invalid l) [])
       else
         bnd (DoSQL E login_active_query [VStr 0 user]) (\<lambda>ok.
         if \<not> ok then ret False
         else
           bnd mysql_store_result (\<lambda>rows.
           if rows = [] then bnd (gets lang) (\<lambda>l. SendServerMsg E this (id_notactive l) [VStr 0 user])
           else
             bnd (DoSQL E login_online_query [VStr 0 user]) (\<lambda>ok.
             if \<not> ok then ret False
             else
               bnd mysql_store_result (\<lambda>rows.
               if rows = [] then bnd (gets lang) (\<lambda>l. SendServerMsg E this (id_online l) [VStr 0 user])
               else
                 bnd (DoSQL E login_id_query [VStr 0 user]) (\<lambda>ok.
                 if \<not> ok then ret False
                 else
                   bnd mysql_store_result (\<lambda>rows.
                   bnd (login_rows E this rows) (\<lambda>ok.
                   if \<not> ok then ret False else SendCharList E this P))))))))))"

definition login_new :: "env \<Rightarrow> nat \<Rightarrow> cbuf \<Rightarrow> string \<Rightarrow> string \<Rightarrow> bool act" where
  "login_new E this P user pw =
     bnd (gets conf) (\<lambda>cf.
     if autoacc cf = 1 then
       bnd (liftE (cstr pw)) (\<lambda>pwd.
       bnd (DoSQL E insert_account_query [VStr 0 user, VStr 0 pwd]) (\<lambda>ok.
       if \<not> ok then ret False
       else
         bnd (DoSQL E account_by_name_query [VStr 0 user]) (\<lambda>ok.
         if \<not> ok then ret False
         else
           bnd mysql_store_result (\<lambda>rows.
           bnd (auto_rows this rows) (\<lambda>_. SendCharList E this P)))))
     else bnd (gets lang) (\<lambda>l. SendServerMsg E this (id_invalid l) [VStr 0 user]))"

text \<open>\<open>CheckLogin\<close> from the test of the client version on: the account is looked up by its name.\<close>

definition login_checked :: "env \<Rightarrow> nat \<Rightarrow> cbuf \<Rightarrow> string \<Rightarrow> string \<Rightarrow> u16 \<Rightarrow> bool act" where
  "login_checked E this P user pw cliver =
     bnd (gets conf) (\<lambda>cf.
     if sint (cliversion cf) \<le> uint cliver then
       bnd (DoSQL E login_query [VStr 0 user]) (\<lambda>ok.
       if \<not> ok then ret False
       else
         bnd mysql_store_result (\<lambda>rows.
         if rows = [] then login_new E this P user pw
         else login_known E this P user pw))
     else
       bnd (SendServerMsg E this ''Wrong Client Version, Download Correct Version.'' []) (\<lambda>_.
       ret True))"

definition CheckLogin :: "env \<Rightarrow> nat \<Rightarrow> cbuf \<Rightarrow> bool act" where
  "CheckLogin E this P =
     bnd (liftE (rdn P 64 16)) (\<lambda>keys.
     bnd (modify (\<lambda>w. w\<lparr>KeysLogin := (\<lambda>i. if i < 16 then c2b (keys ! i) else KeysLogin w i)\<rparr>)) (\<lambda>_.
     bnd (liftE (rdn P 12 12)) (\<lambda>pw.
     bnd (liftE (rdn P 24 12)) (\<lambda>un.
     bnd (upd_session this (\<lambda>s. s\<lparr>password := memcpy_front (password s) pw,
       username := memcpy_front (username s) un\<rparr>)) (\<lambda>_.
     bnd (liftE (rd16 P 92)) (\<lambda>cliver.
     bnd (client this) (\<lambda>c.
     bnd (liftE (cstr (username (PlayerSession c)))) (\<lambda>user.
     bnd (modify (\<lambda>w. w\<lparr>Hash1 := GetHash1 E (KeysLogin w) (recvpkts c)\<rparr>)) (\<lambda>_.
     login_checked E this P user (password (PlayerSession c)) cliver)))))))))"

section \<open>Statements and messages\<close>

lemma SendServerMsg_Inr:
  assumes "SendServerMsg E this f as w = Inr (r, w')"
  obtains c p where "r" "pk_only w w'" "clients w this = Some c" "deliveries (trace w') = deliveries (trace w) @ [(sock c, p)]"
proof -
  obtain s where s: "sprintf_buf 2000 f as = Inr s"
    using assms by (auto simp: SendServerMsg_def bnd_liftE split: sum.splits)
  obtain c where c: "clients w this = Some c"
  proof (cases "clients w this")
    case None
    with assms show thesis
      by (auto simp: SendServerMsg_def bnd_eq_Inr liftE_def memoryM_def tickM_def on_packet_def SendPk_dangling
          split: sum.splits simp del: seqM.simps)
  qed
  from SendServerMsg_run [OF c s, of E] assms c that show thesis by fastforce
qed

lemma SendServerMsg_queries: "SendServerMsg E this f as w = Inr (r, w') \<Longrightarrow> queries w' = queries w"
  by (elim SendServerMsg_Inr) (simp add: pk_onlyD)

section \<open>What a login request changes\<close>

lemma quiet_char_edit [quiet_keeps]:
  "keeps quiet (CharCreate E this P)" "keeps quiet (CharDelete E this P)"
  unfolding CharCreate_def CharDelete_def by (rule qt_intros quiet_keeps)+

abbreviation session_upd :: "(CAccount \<Rightarrow> CAccount) \<Rightarrow> CConnClient \<Rightarrow> CConnClient" where
  "session_upd f \<equiv> (\<lambda>c. c\<lparr>PlayerSession := f (PlayerSession c)\<rparr>)"

context client_frame
begin

lemma keeps_upd_session: "ok (session_upd f) \<Longrightarrow> keeps R (upd_session this f)"
  unfolding upd_session_def by (rule keeps_upd)

lemma keeps_copy_names:
  assumes "\<And>nm. ok (\<lambda>c. c\<lparr>PlayerInfo := (PlayerInfo c)\<lparr>char_name := nm\<rparr>\<rparr>)"
  shows "keeps R (copy_names this rows)"
  by (induction rows) (simp_all only: copy_names.simps, (rule frame_intros assms | assumption)+)

lemma keeps_SendToWorld:
  assumes "\<And>rows. keeps R (copy_names this rows)" "keeps R (loaddata E this)"
    "ok (\<lambda>c. c\<lparr>PlayerSession := (PlayerSession c)\<lparr>inGame := True\<rparr>, ready := True\<rparr>)"
  shows "keeps R (SendToWorld E this P)"
  unfolding SendToWorld_def world_end_def by (rule frame_intros assms)+

lemma keeps_auto_rows:
  assumes "\<And>i l. ok (session_upd (\<lambda>s. s\<lparr>userid := i, accesslevel := l\<rparr>))"
  shows "keeps R (auto_rows this rows)"
  by (induction rows) (simp_all only: auto_rows.simps, (rule frame_intros keeps_upd_session assms | assumption)+)

lemma keeps_login_new: "(\<And>rows. keeps R (auto_rows this rows)) \<Longrightarrow> keeps R (login_new E this P user pw)"
  unfolding login_new_def by (rule frame_intros | assumption)+

lemma keeps_login_rows:
  assumes "\<And>i. ok (session_upd (\<lambda>s. s\<lparr>userid := i\<rparr>))" "\<And>n. ok (session_upd (\<lambda>s. s\<lparr>clientid := n\<rparr>))"
    "ok (session_upd (\<lambda>s. s\<lparr>isLoggedIn := True\<rparr>))" "\<And>l. ok (session_upd (\<lambda>s. s\<lparr>accesslevel := l\<rparr>))"
  shows "keeps R (login_rows E this rows)"
  by (induction rows) (simp_all only: login_rows.simps, (rule frame_intros keeps_upd_session assms | assumption)+)

lemma keeps_CheckLogin:
  assumes creds: "\<And>pw un. length pw = 12 \<Longrightarrow> length un = 12 \<Longrightarrow> ok (session_upd (\<lambda>s. s\<lparr>
      password := memcpy_front (password s) pw, username := memcpy_front (username s) un\<rparr>))"
    and rows: "\<And>rows. keeps R (auto_rows this rows)" "\<And>rows. keeps R (login_rows E this rows)"
  shows "keeps R (CheckLogin E this P)"
proof -
  have quiet_login: "keeps quiet (modify (\<lambda>w. w\<lparr>KeysLogin := k w\<rparr>))" "keeps quiet (modify (\<lambda>w. w\<lparr>Hash1 := h w\<rparr>))" for k h
    by (rule keeps_modify; simp add: quiet_def)+
  have len: "rdn P i n = Inr s \<Longrightarrow> length s = n" for i n s
    by (auto simp: rdn_def split: if_splits)
  show ?thesis
    unfolding CheckLogin_def login_checked_def login_known_def
    by (rule keeps_liftE_bnd frame_intros quiet_login [THEN keeps_quiet] keeps_upd_session keeps_login_new creds rows len | assumption)+
qed

end

section \<open>Logging in\<close>

text \<open>An account that is created on the fly is not logged in.\<close>

lemma login_new_keeps: "keeps (same_view (\<lambda>c. isLoggedIn (PlayerSession c)) this) (login_new E this P user pw)"
  by (rule vw.keeps_login_new vw.keeps_auto_rows | simp)+

lemma login_known_auth:
  assumes "login_known E this P user pw w = Inr (r, w')" and "clients w' \<noteq> clients w"
  shows "\<exists>pwd q row rows. cstr pw = Inr pwd \<and> sprintf_buf 2000 login_pwd_query [VStr 0 user, VStr 0 pwd] = Inr q \<and>
    mysql_answer E (queries w) q = Sql_ok (row # rows)"
proof -
  obtain pwd where pwd: "cstr pw = Inr pwd" using assms(1) by (auto simp: login_known_def bnd_liftE split: sum.splits)
  note r = assms(1) [unfolded login_known_def bnd_liftE pwd sum.case]
  show ?thesis
  proof (cases rule: DoSQL_cases [OF r])
    case (1 q)
    with assms(2) show ?thesis by auto
  next
    case (2 q rows)
    show ?thesis
    proof (cases rows)
      case Nil
      with 2(3) have "clients w' = clients w"
        by (auto simp: mysql_store_result_def elim!: SendServerMsg_Inr dest: pk_onlyD)
      with assms(2) show ?thesis by simp
    next
      case (Cons row rest)
      with 2 pwd show ?thesis by blast
    qed
  qed
qed

text \<open>The request once the credentials are in the session.\<close>

lemma CheckLogin_entry:
  assumes run: "CheckLogin E this P w = Inr (r, w')" and c: "clients w this = Some c"
  obtains pw un user cliver w2 where "rdn P 12 12 = Inr pw" "rdn P 24 12 = Inr un"
    "cstr (memcpy_front (username (PlayerSession c)) un) = Inr user" "rd16 P 92 = Inr cliver"
    "clients w2 = (clients w)(this \<mapsto> c\<lparr>PlayerSession := (PlayerSession c)\<lparr>
       password := memcpy_front (password (PlayerSession c)) pw, username := memcpy_front (username (PlayerSession c)) un\<rparr>\<rparr>)"
    "conf w2 = conf w" "queries w2 = queries w"
    "login_checked E this P user (memcpy_front (password (PlayerSession c)) pw) cliver w2 = Inr (r, w')"
proof -
  obtain keys pw un where rd: "rdn P 64 16 = Inr keys" "rdn P 12 12 = Inr pw" "rdn P 24 12 = Inr un"
    using run by (auto simp: CheckLogin_def bnd_liftE split: sum.splits)
  obtain cliver where cv: "rd16 P 92 = Inr cliver"
    using run rd c by (auto simp: CheckLogin_def bnd_liftE upd_session_def split: sum.splits)
  obtain user where user: "cstr (memcpy_front (username (PlayerSession c)) un) = Inr user"
    using run rd cv c by (auto simp: CheckLogin_def bnd_liftE upd_session_def split: sum.splits)
  let ?k = "\<lambda>i. if i < 16 then c2b (keys ! i) else KeysLogin w i"
  show thesis
    by (rule that [of pw un user cliver "w\<lparr>KeysLogin := ?k, clients := (clients w)(this \<mapsto> c\<lparr>PlayerSession := (PlayerSession c)\<lparr>
         password := memcpy_front (password (PlayerSession c)) pw, username := memcpy_front (username (PlayerSession c)) un\<rparr>\<rparr>),
         Hash1 := GetHash1 E ?k (recvpkts c)\<rparr>"])
      (use run rd cv c user in \<open>simp_all add: CheckLogin_def bnd_liftE upd_session_def cong: if_cong\<close>)
qed

lemma login_checked_known:
  assumes run: "login_checked E this P user pw cliver w = Inr (r, w')"
    and new: "\<not> same_view (\<lambda>c. isLoggedIn (PlayerSession c)) this w w'"
  obtains v q where "login_known E this P user pw v = Inr (r, w')" "clients v = clients w" "queries v = queries w @ [q]"
proof (cases "sint (cliversion (conf w)) \<le> uint cliver")
  case False
  with run have "same_view (\<lambda>c. isLoggedIn (PlayerSession c)) this w w'"
    by (auto simp: login_checked_def bnd_eq_Inr gets_def intro: keepsD [OF vw.keeps_quiet [OF quiet_sends(3)]])
  with new show thesis by blast
next
  case True
  then have r: "bnd (DoSQL E login_query [VStr 0 user]) (\<lambda>ok. if \<not> ok then ret False
      else bnd mysql_store_result (\<lambda>rows. if rows = [] then login_new E this P user pw else login_known E this P user pw)) w = Inr (r, w')"
    using run by (simp add: login_checked_def)
  show thesis
  proof (cases rule: DoSQL_cases [OF r])
    case (1 q)
    with new show thesis by (auto simp: same_view_def)
  next
    case (2 q rows)
    let ?v = "w\<lparr>trace := trace w @ [Ev_Query q], queries := queries w @ [q], sqlres := rows\<rparr>"
    show thesis
    proof (cases "rows = []")
      case True
      with 2 have "login_new E this P user pw ?v = Inr (r, w')" by (simp add: mysql_store_result_def)
      from keepsD [OF login_new_keeps this] new show thesis by (simp add: same_view_def)
    next
      case False
      with 2 have "login_known E this P user pw ?v = Inr (r, w')" by (simp add: mysql_store_result_def)
      then show thesis by (rule that) simp_all
    qed
  qed
qed

text \<open>
  A login request logs nobody in without the password: if it turns a client that was not logged in into one that is, then
  the database answered, as the second statement of the request, the query for the user name and the password that
  the packet put into the session with at least one row.
\<close>

lemma CheckLogin_needs_password:
  assumes run: "CheckLogin E this P w = Inr (r, w')"
    and c: "clients w this = Some c" and before: "\<not> isLoggedIn (PlayerSession c)"
    and c': "clients w' this = Some c'" and after: "isLoggedIn (PlayerSession c')"
  shows "\<exists>un pw user pwd q0 q row rows. rdn P 24 12 = Inr un \<and> rdn P 12 12 = Inr pw \<and>
    cstr (memcpy_front (username (PlayerSession c)) un) = Inr user \<and>
    cstr (memcpy_front (password (PlayerSession c)) pw) = Inr pwd \<and>
    sprintf_buf 2000 login_pwd_query [VStr 0 user, VStr 0 pwd] = Inr q \<and>
    mysql_answer E (queries w @ [q0]) q = Sql_ok (row # rows)"
proof -
  from CheckLogin_entry [OF run c] obtain pw un user cliver w2 where
    rd: "rdn P 12 12 = Inr pw" "rdn P 24 12 = Inr un" "cstr (memcpy_front (username (PlayerSession c)) un) = Inr user"
    and w2: "clients w2 = (clients w)(this \<mapsto> c\<lparr>PlayerSession := (PlayerSession c)\<lparr>
       password := memcpy_front (password (PlayerSession c)) pw, username := memcpy_front (username (PlayerSession c)) un\<rparr>\<rparr>)"
      "queries w2 = queries w"
    and step: "login_checked E this P user (memcpy_front (password (PlayerSession c)) pw) cliver w2 = Inr (r, w')" .
  have "\<not> same_view (\<lambda>c. isLoggedIn (PlayerSession c)) this w2 w'"
    using before c' after w2(1) by (simp add: same_view_def)
  from login_checked_known [OF step this] obtain v q where
    v: "login_known E this P user (memcpy_front (password (PlayerSession c)) pw) v = Inr (r, w')"
      "clients v = clients w2" "queries v = queries w2 @ [q]" .
  have "clients w' \<noteq> clients v" using before c' after w2(1) v(2) by auto
  from login_known_auth [OF v(1) this] rd w2(2) v(3) show ?thesis by (auto, blast)
qed

text \<open>
  A client of an older version is refused before the database is asked: no statement is sent, the
  client gets one message, and its login state does not change.
\<close>

lemma wrong_version_refused:
  assumes c: "clients w this = Some c" and P: "94 \<le> blen P"
    and user: "cstr (memcpy_front (username (PlayerSession c)) (map (\<lambda>k. b2c (bdat P k)) [24..<36])) = Inr user"
    and old: "uint (word16 (bdat P 92) (bdat P 93)) < sint (cliversion (conf w))"
  shows "\<exists>w' c' p. CheckLogin E this P w = Inr (True, w') \<and> queries w' = queries w \<and>
    clients w' this = Some c' \<and> isLoggedIn (PlayerSession c') = isLoggedIn (PlayerSession c) \<and>
    clientid (PlayerSession c') = clientid (PlayerSession c) \<and>
    deliveries (trace w') = deliveries (trace w) @ [(sock c, p)]"
proof -
  let ?keys = "map (\<lambda>k. b2c (bdat P k)) [64..<80]" and ?pw = "map (\<lambda>k. b2c (bdat P k)) [12..<24]"
    and ?un = "map (\<lambda>k. b2c (bdat P k)) [24..<36]"
  let ?c = "c\<lparr>PlayerSession := (PlayerSession c)\<lparr>password := memcpy_front (password (PlayerSession c)) ?pw,
      username := memcpy_front (username (PlayerSession c)) ?un\<rparr>\<rparr>"
  let ?keys' = "\<lambda>i. if i < 16 then c2b (?keys ! i) else KeysLogin w i"
  let ?w = "w\<lparr>KeysLogin := ?keys', clients := (clients w)(this \<mapsto> ?c), Hash1 := GetHash1 E ?keys' (recvpkts c)\<rparr>"
  have rd: "rdn P 64 16 = Inr ?keys" "rdn P 12 12 = Inr ?pw" "rdn P 24 12 = Inr ?un"
    using P by (simp_all add: rdn_def)
  have "CheckLogin E this P w =
      bnd (SendServerMsg E this ''Wrong Client Version, Download Correct Version.'' []) (\<lambda>_. ret True) ?w"
    unfolding CheckLogin_def bnd_liftE bnd_modify rd sum.case
    using c P user old by (simp add: bnd_liftE upd_session_def login_checked_def)
  moreover have "sprintf_buf 2000 ''Wrong Client Version, Download Correct Version.'' [] =
      Inr ''Wrong Client Version, Download Correct Version.''" by (simp add: sprintf_buf_def)
  moreover have "clients ?w this = Some ?c" by simp
  ultimately obtain w' p where w': "CheckLogin E this P w = Inr (True, w')" "pk_only ?w w'"
    "deliveries (trace w') = deliveries (trace ?w) @ [(sock ?c, p)]"
    using SendServerMsg_run [of ?w this ?c "''Wrong Client Version, Download Correct Version.''" "[]"
        "''Wrong Client Version, Download Correct Version.''" E] by (auto simp: ret_def)
  show ?thesis
    using w'(1,3) pk_onlyD [OF w'(2)] by (intro exI [of _ w'] exI [of _ ?c] exI [of _ p]) simp
qed

section \<open>Editing characters\<close>

text \<open>
  C24. A character is deleted only with the account's password: if the delete request sends more than
  its first statement, then the database answered the query for the session's user name and the
  packet's password with exactly one row.
\<close>

theorem delete_needs_password:
  assumes run: "CharDelete E this P w = Inr (r, w')" and c: "clients w this = Some c"
    and more: "Suc (length (queries w)) < length (queries w')"
  shows "\<exists>user b pwd q row. cstr (username (PlayerSession c)) = Inr user \<and> rdn P 32 12 = Inr b \<and> cstr b = Inr pwd \<and>
    sprintf_buf 2000 account_query [VStr 0 user, VStr 0 pwd] = Inr q \<and> mysql_answer E (queries w) q = Sql_ok [row]"
proof -
  obtain a b where ab: "rdn P 16 15 = Inr a" "rdn P 32 12 = Inr b"
    using run by (auto simp: CharDelete_def bnd_liftE split: sum.splits)
  obtain user pwd k where u: "cstr (username (PlayerSession c)) = Inr user" "cstr b = Inr pwd"
    and r: "bnd (DoSQL E account_query [VStr 0 user, VStr 0 pwd]) (\<lambda>ok.
      if \<not> ok then ret False
      else bnd mysql_store_result (\<lambda>rows.
        if length rows = 1 then k rows
        else bnd (gets lang) (\<lambda>l. SendServerMsg E this (pwd_invalid l) []))) w = Inr (r, w')"
    using run ab c by (auto simp: CharDelete_def bnd_liftE split: sum.splits)
  show ?thesis
  proof (cases rule: DoSQL_cases [OF r])
    case (1 q)
    with more show ?thesis by auto
  next
    case (2 q rows)
    have "length rows = 1"
    proof (rule ccontr)
      assume "length rows \<noteq> 1"
      with 2(3) have "SendServerMsg E this (pwd_invalid (lang w)) []
          (w\<lparr>trace := trace w @ [Ev_Query q], queries := queries w @ [q], sqlres := rows\<rparr>) = Inr (r, w')"
        by (simp add: mysql_store_result_def)
      from SendServerMsg_queries [OF this] more show False by simp
    qed
    with 2(1,2) u ab show ?thesis by (auto simp: length_Suc_conv)
  qed
qed

text \<open>
  C26. A taken name is not given to another character: if the create request sends more than its first statement, the one
  that looks for the name, then the database answered that statement with no row.
\<close>

theorem create_needs_free_name:
  assumes run: "CharCreate E this P w = Inr (r, w')" and more: "Suc (length (queries w)) < length (queries w')"
  shows "\<exists>a name q. rdn P 16 15 = Inr a \<and> cstr a = Inr name \<and> sprintf_buf 2000 name_query [VStr 0 name] = Inr q \<and>
    mysql_answer E (queries w) q = Sql_ok []"
proof -
  obtain a name k where a: "rdn P 16 15 = Inr a" "cstr a = Inr name"
    and r: "bnd (DoSQL E name_query [VStr 0 name]) (\<lambda>ok.
      if \<not> ok then ret False
      else bnd mysql_store_result (\<lambda>rows.
        if rows = [] then k
        else bnd (gets lang) (\<lambda>l. SendServerMsg E this (name_alreadyexist l) []))) w = Inr (r, w')"
    using run by (auto simp: CharCreate_def bnd_liftE split: sum.splits)
  show ?thesis
  proof (cases rule: DoSQL_cases [OF r])
    case (1 q)
    with more show ?thesis by auto
  next
    case (2 q rows)
    have "rows = []"
    proof (rule ccontr)
      assume "rows \<noteq> []"
      with 2(3) have "SendServerMsg E this (name_alreadyexist (lang w)) []
          (w\<lparr>trace := trace w @ [Ev_Query q], queries := queries w @ [q], sqlres := rows\<rparr>) = Inr (r, w')"
        by (simp add: mysql_store_result_def)
      from SendServerMsg_queries [OF this] more show False by simp
    qed
    with 2(1,2) a show ?thesis by auto
  qed
qed

section \<open>The session theorems at work\<close>

text \<open>
  A packet with the text \<open>b\<close> at offset 12, \<open>a\<close> at offset 24, \<open>c\<close> at offset 16, \<open>b\<close> at offset 32 and the
  client version 747, from a client that is not logged in; the database knows the account for the first
  \<open>k\<close> statements and fails from then on.
\<close>

definition login_packet :: cbuf where
  "login_packet = \<lparr>blen = 94, bdat = (\<lambda>i. if i = 4 then 0x0D else if i = 5 then 0x02 else if i = 92 then 0xEB else if i = 93 then 0x02
     else if i \<in> {12, 16, 24, 32} then 98 else 0)\<rparr>"

definition login_env :: "nat \<Rightarrow> env" where
  "login_env k = sample_env\<lparr>mysql_answer := (\<lambda>qs q. if length qs < k
     then Sql_ok [[Some (0, ''7''), Some (0, ''1'')]] else Sql_error)\<rparr>"

definition login_world :: world where
  "login_world = sample_world\<lparr>clients := [1 \<mapsto> (sample_client 1 ''Ana'' 100 100 [2])\<lparr>PlayerSession :=
     (PlayerSession (sample_client 1 ''Ana'' 100 100 [2]))\<lparr>isLoggedIn := False\<rparr>\<rparr>]\<rparr>"

lemma login_packet_read:
  "rdn login_packet 64 16 = Inr (replicate 16 NUL)"
  "rdn login_packet 12 12 = Inr (''b'' @ replicate 3 NUL @ ''b'' @ replicate 7 NUL)"
  "rdn login_packet 24 12 = Inr (''b'' @ replicate 7 NUL @ ''b'' @ replicate 3 NUL)"
  "rdn login_packet 32 12 = Inr (''b'' @ replicate 11 NUL)"
  "rdn login_packet 16 15 = Inr (''b'' @ replicate 7 NUL @ ''b'' @ replicate 6 NUL)"
  "rd16 login_packet 92 = Inr 747"
proof -
  have chars: "b2c 98 = CHR ''b''" "b2c 0 = NUL" by code_simp+
  have nuls: "replicate 3 NUL = [NUL, NUL, NUL]" "replicate 6 NUL = replicate 3 NUL @ replicate 3 NUL"
    "replicate 7 NUL = NUL # replicate 6 NUL" "replicate 11 NUL = NUL # NUL # NUL # NUL # replicate 7 NUL"
    "replicate 16 NUL = [NUL, NUL, NUL, NUL, NUL] @ replicate 11 NUL"
    by (simp_all add: eval_nat_numeral)
  show "rdn login_packet 64 16 = Inr (replicate 16 NUL)"
    "rdn login_packet 12 12 = Inr (''b'' @ replicate 3 NUL @ ''b'' @ replicate 7 NUL)"
    "rdn login_packet 24 12 = Inr (''b'' @ replicate 7 NUL @ ''b'' @ replicate 3 NUL)"
    "rdn login_packet 32 12 = Inr (''b'' @ replicate 11 NUL)"
    "rdn login_packet 16 15 = Inr (''b'' @ replicate 7 NUL @ ''b'' @ replicate 6 NUL)"
    "rd16 login_packet 92 = Inr 747"
    by (simp_all add: rdn_def login_packet_def chars nuls rd16_def word16_def push_bit_eq_mult)
qed

lemma login_queries:
  "\<exists>q. sprintf_buf 2000 login_query [VStr 0 ''b''] = Inr q"
  "\<exists>q. sprintf_buf 2000 login_pwd_query [VStr 0 ''b'', VStr 0 ''b''] = Inr q"
  "\<exists>q. sprintf_buf 2000 login_active_query [VStr 0 ''b''] = Inr q"
  "\<exists>q. sprintf_buf 2000 login_online_query [VStr 0 ''b''] = Inr q"
  "\<exists>q. sprintf_buf 2000 login_id_query [VStr 0 ''b''] = Inr q"
  "\<exists>q. sprintf_buf 2000 char_list_query [VStr 0 ''b''] = Inr q"
  by (simp_all add: sprintf_buf_def login_query_def login_pwd_query_def login_active_query_def login_online_query_def
      login_id_query_def char_list_query_def)

lemma resend_header:
  fixes a b :: u16
  defines "m \<equiv> seqM [Free, AddWord a 0, AddWord b 4]"
  shows "bnd (on_packet m) k w = k () (w\<lparr>packet := snd (projr (m (packet w)))\<rparr>)"
  by (simp add: m_def on_packet_def Free_def AddWord_def bnd_def ret_def modify_def buf_cap_def)

lemma char_list_header:
  fixes a b d :: u16
  defines "m \<equiv> seqM [Free, AddWord a 0, AddWord b 4, AddWord d 6]"
  shows "bnd (on_packet m) k w = k () (w\<lparr>packet := snd (projr (m (packet w)))\<rparr>)"
  by (simp add: m_def on_packet_def Free_def AddWord_def bnd_def ret_def modify_def buf_cap_def)

lemma login_new_id:
  assumes "ClientIDList w = ClientIDList sample_world"
  shows "id_loop (login_env k) (Suc 0) w = Inr (3, w\<lparr>tick := Suc (tick w), ClientIDList := (ClientIDList w)(3 := 0)\<rparr>)"
  using assms by (simp add: id_loop.simps [of _ "Suc 0"] id_loop.simps [of _ 2] id_loop.simps [of _ 3] sample_world_def
      login_env_def sample_env_def Let_def numeral_2_eq_2 [symmetric])

lemma login_env_answer:
  "mysql_answer (login_env k) qs q = (if length qs < k then Sql_ok [[Some (0, ''7''), Some (0, ''1'')]] else Sql_error)"
  by (simp add: login_env_def)

lemma login_texts:
  "cstr (memcpy_front (username (PlayerSession (sample_client 1 ''Ana'' 100 100 [2])))
     (CHR ''b'' # replicate 7 NUL @ CHR ''b'' # replicate 3 NUL)) = Inr ''b''"
  "cstr (memcpy_front (password (PlayerSession (sample_client 1 ''Ana'' 100 100 [2])))
     (CHR ''b'' # replicate 3 NUL @ CHR ''b'' # replicate 7 NUL)) = Inr ''b''"
  "cstr (username (PlayerSession (sample_client 1 ''Ana'' 100 100 [2]))) = Inr ''Ana''"
  "cstr (CHR ''b'' # replicate 11 NUL) = Inr ''b''"
  "cstr (CHR ''b'' # replicate 7 NUL @ CHR ''b'' # replicate 6 NUL) = Inr ''b''"
  by (simp_all add: sample_client_def) code_simp+

lemma login_runs:
  "\<exists>w' c'. CheckLogin (login_env 5) 1 login_packet login_world = Inr (False, w') \<and> clients w' 1 = Some c' \<and>
     isLoggedIn (PlayerSession c')"
proof -
  obtain q0 q1 q2 q3 q4 q5 where q:
    "sprintf_buf 2000 login_query [VStr 0 ''b''] = Inr q0"
    "sprintf_buf 2000 login_pwd_query [VStr 0 ''b'', VStr 0 ''b''] = Inr q1"
    "sprintf_buf 2000 login_active_query [VStr 0 ''b''] = Inr q2"
    "sprintf_buf 2000 login_online_query [VStr 0 ''b''] = Inr q3"
    "sprintf_buf 2000 login_id_query [VStr 0 ''b''] = Inr q4"
    "sprintf_buf 2000 char_list_query [VStr 0 ''b''] = Inr q5"
    using login_queries by auto
  have cells: "cell_u32 [Some (0, ''7''), Some (0, ''1'')] 0 = Inr 7" "cell_u32 [Some (0, ''7''), Some (0, ''1'')] (Suc 0) = Inr 1"
    by code_simp+
  have world: "conf sample_world = sample_conf" "queries sample_world = []" "cliversion sample_conf = 747"
    by (simp_all add: sample_world_def sample_conf_def)
  show ?thesis
    unfolding CheckLogin_def bnd_liftE login_packet_read sum.case bnd_modify
    using q cells by (simp add: login_world_def upd_session_def bnd_liftE login_texts bnd_DoSQL mysql_store_result_def login_env_answer world
        login_checked_def login_known_def SendCharList_def GetNewClientID_def login_new_id bnd_assoc
        char_list_header del: seqM.simps)
qed

theorem delete_needs_password_witness:
  "\<exists>q row. sprintf_buf 2000 account_query [VStr 0 ''Ana'', VStr 0 ''b''] = Inr q \<and>
    mysql_answer (login_env 1) (queries login_world) q = Sql_ok [row]"
proof -
  let ?c = "(sample_client 1 ''Ana'' 100 100 [2])\<lparr>PlayerSession :=
     (PlayerSession (sample_client 1 ''Ana'' 100 100 [2]))\<lparr>isLoggedIn := False\<rparr>\<rparr>"
  have c: "clients login_world 1 = Some ?c" by (simp add: login_world_def)
  note t = login_texts(3-)
  obtain q1 q2 where q: "sprintf_buf 2000 account_query [VStr 0 ''Ana'', VStr 0 ''b''] = Inr q1"
    "sprintf_buf 2000 char_id_query [VStr 0 ''b''] = Inr q2"
    by (simp add: sprintf_buf_def account_query_def char_id_query_def)
  have "queries login_world = []" by (simp add: login_world_def sample_world_def)
  then obtain w' where run: "CharDelete (login_env 1) 1 login_packet login_world = Inr (False, w')" and "length (queries w') = 2"
    unfolding CharDelete_def bnd_liftE login_packet_read sum.case
    using c q by (auto simp: bnd_liftE t bnd_DoSQL mysql_store_result_def login_env_answer ret_apply)
  then have "Suc (length (queries login_world)) < length (queries w')" by (simp add: login_world_def sample_world_def)
  from delete_needs_password [OF run c this] show ?thesis by (auto simp: t login_packet_read)
qed

definition create_env :: env where
  "create_env = sample_env\<lparr>mysql_answer := (\<lambda>qs q. if qs = [] then Sql_ok [] else Sql_error)\<rparr>"

theorem create_needs_free_name_witness:
  "\<exists>q. sprintf_buf 2000 name_query [VStr 0 ''b''] = Inr q \<and> mysql_answer create_env (queries login_world) q = Sql_ok []"
proof -
  let ?c = "(sample_client 1 ''Ana'' 100 100 [2])\<lparr>PlayerSession :=
     (PlayerSession (sample_client 1 ''Ana'' 100 100 [2]))\<lparr>isLoggedIn := False\<rparr>\<rparr>"
  have c: "clients login_world 1 = Some ?c" "queries login_world = []"
    by (simp_all add: login_world_def sample_world_def)
  obtain q1 q2 where q: "sprintf_buf 2000 name_query [VStr 0 ''b''] = Inr q1"
    "sprintf_buf 2000 char_list_query [VStr 0 ''Ana''] = Inr q2"
    by (simp add: sprintf_buf_def name_query_def char_list_query_def)
  have env: "mysql_answer create_env qs s = (if qs = [] then Sql_ok [] else Sql_error)"
    "xmlParseFile create_env f = None" for qs s f by (simp_all add: create_env_def sample_env_def)
  have P: "rd8 login_packet 32 = Inr 98" "rd8 login_packet 12 = Inr 98" by code_simp+
  obtain w' where run: "CharCreate create_env 1 login_packet login_world = Inr (False, w')" and "length (queries w') = 2"
    unfolding CharCreate_def bnd_liftE login_packet_read sum.case
    using c q by (auto simp: bnd_liftE login_texts bnd_DoSQL mysql_store_result_def env P ret_apply bnd_pure LoadCreateChar_def
        with_root_def wordM_def tickM_def ResendCharList_def bnd_assoc resend_header simp del: seqM.simps)
  then have "Suc (length (queries login_world)) < length (queries w')" using c(2) by simp
  from create_needs_free_name [OF run this] show ?thesis by (auto simp: login_packet_read login_texts)
qed

end
