(* ===== verification/Commands.thy ===== *)
theory Commands
  imports Login
begin

text \<open>
  The chat commands of \<open>src/src/gameserver/game_commands.cpp\<close>: \<open>packetCommand\<close> splits the
  packet's text with \<open>strtok\<close> (which writes NULs into the packet and keeps its position between
  calls), checks the access level and runs \<open>pakGMNotice\<close>, \<open>pakGMTele\<close>, \<open>pakGMSpawn\<close> or
  \<open>pakGMItem\<close>.
\<close>

section \<open>Tokens\<close>

text \<open>A token's text; \<open>atoi\<close> of a missing token is a null pointer.\<close>

definition tok_str :: "cbuf \<Rightarrow> nat option \<Rightarrow> string res" where
  "tok_str B t = (case t of None \<Rightarrow> Inl Null_deref | Some i \<Rightarrow> cstr_at B i)"

text \<open>
  \<open>next_tokens n\<close>: \<open>n\<close> further calls \<open>strtok(NULL, " ")\<close>, each converted by \<open>atoi\<close>;
  \<^const>\<open>None\<close> when the text ends early (the branch that prints the usage).
\<close>

fun next_ints :: "nat \<Rightarrow> tokst \<Rightarrow> u32 list option res" where
  "next_ints 0 st = Inr (Some [])"
| "next_ints (Suc n) st =
     (case strtok None st of
        Inl e \<Rightarrow> Inl e
      | Inr (None, st') \<Rightarrow> Inr None
      | Inr (Some i, st') \<Rightarrow>
          (case cstr_at (fst st') i of
             Inl e \<Rightarrow> Inl e
           | Inr s \<Rightarrow>
               (case next_ints n st' of
                  Inl e \<Rightarrow> Inl e
                | Inr None \<Rightarrow> Inr None
                | Inr (Some vs) \<Rightarrow> Inr (Some (atou s # vs)))))"

section \<open>Privileged packets\<close>

definition pakGMNotice :: "env \<Rightarrow> nat \<Rightarrow> tokst \<Rightarrow> bool act" where
  "pakGMNotice E this st =
     bnd (liftE (strtok (Some 28) st)) (\<lambda>(tmp, st).
     case tmp of
       None \<Rightarrow> bnd (SendServerMsg E this ''Usage:_/notice_<msg>'' []) (\<lambda>_. ret True)
     | Some i \<Rightarrow>
         bnd (liftE (cstr_at (fst st) i)) (\<lambda>msg.
         bnd (memoryM E) (\<lambda>frame.
         bnd (on_packet (seqM
           [Free,
            AddWord 108 0,
            AddByte 0x01 4,
            AddByte 0x01 5,
            AddStr frame (map c2b msg) 12])) (\<lambda>_.
         bnd (SendToAll E 108) (\<lambda>_. ret True)))))"

definition tele_packet :: "CConnClient \<Rightarrow> u32 \<Rightarrow> u32 \<Rightarrow> (bufwrite, unit) op" where
  "tele_packet c x y = (let pos = current (PlayerPosition c) in seqM
     [Free,
      AddByte 52 0,
      AddWord 0x0366 4,
      AddWord (ucast (clientid (PlayerSession c))) 6,
      AddWord (coord (fx pos)) 12,
      AddWord (coord (fx pos)) 14,
      AddWord 2 16,
      AddWord 1 20,
      AddWord (ucast x) 24,
      AddWord (ucast y) 26,
      forM_upto 23 (\<lambda>i. AddWord 0xcc (28 + i))])"

definition pakGMTele :: "env \<Rightarrow> nat \<Rightarrow> u32 \<Rightarrow> u32 \<Rightarrow> bool act" where
  "pakGMTele E this x y =
     bnd (client this) (\<lambda>c.
     bnd (on_packet (tele_packet c x y)) (\<lambda>_.
     bnd (SendToVisible E this 52 True) (\<lambda>_. ret True)))"

definition gm_spawn_packet :: "CConnClient \<Rightarrow> u32 \<Rightarrow> u32 \<Rightarrow> u32 \<Rightarrow> bytes \<Rightarrow> string \<Rightarrow> (bufwrite, unit) op" where
  "gm_spawn_packet c nid code mob frame name = (let pos = current (PlayerPosition c) in seqM
     [Free,
      AddWord 172 0,
      AddWord 0x0364 4,
      AddWord 30000 6,
      AddWord (coord (fx pos)) 12,
      AddWord (coord (fy pos)) 14,
      AddWord (ucast nid) 16,
      forM_upto 12 (\<lambda>i. AddByte 0xcc (18 + i)),
      AddStr frame (map c2b name) 18,
      AddByte (ucast mob) 34,
      AddByte 1 66,
      AddByte 34 67,
      AddWord 0 69,
      AddWord 2 100,
      AddWord 3 102,
      AddWord 93 104,
      AddByte (ucast code) 106,
      AddByte 1 107,
      AddWord 800 108,
      AddWord 100 110,
      AddWord 200 112,
      AddWord 100 114,
      AddWord 10 116,
      AddWord 70 118,
      AddWord 30 120,
      AddWord 200 122,
      AddWord 2047 124,
      AddWord 2047 126,
      AddWord 0 128,
      AddByte 0 130,
      forM_upto 29 (\<lambda>i. AddByte 0xcc (147 + i)),
      AddByte 0x01 172])"

definition pakGMSpawn :: "env \<Rightarrow> nat \<Rightarrow> u32 \<Rightarrow> u32 \<Rightarrow> string \<Rightarrow> bool act" where
  "pakGMSpawn E this code mob name =
     bnd (client this) (\<lambda>c.
     bnd (gets npcid) (\<lambda>n.
     bnd (memoryM E) (\<lambda>frame.
     bnd (on_packet (gm_spawn_packet c n code mob frame name)) (\<lambda>_.
     bnd (SendToVisible E this 172 True) (\<lambda>_.
     bnd (modify (\<lambda>w. w\<lparr>npcid := npcid w + 1\<rparr>)) (\<lambda>_. ret True))))))"

definition gm_item_packet :: "CConnClient \<Rightarrow> u32 list \<Rightarrow> (bufwrite, unit) op" where
  "gm_item_packet c v = seqM
     [Free,
      AddWord 24 0,
      AddWord 0x0182 4,
      AddWord (ucast (clientid (PlayerSession c))) 6,
      AddByte 1 12,
      AddByte (ucast (v ! 0)) 14,
      AddWord (ucast (v ! 1)) 16,
      AddByte (ucast (v ! 2)) 18,
      AddByte (ucast (v ! 3)) 19,
      AddByte (ucast (v ! 4)) 20,
      AddByte (ucast (v ! 5)) 21,
      AddByte (ucast (v ! 6)) 22,
      AddByte (ucast (v ! 7)) 23]"

text \<open>The arguments \<open>slotnum itemid add1 val1 add2 val2 add3 val3\<close> are the list \<open>v\<close>.\<close>

definition pakGMItem :: "env \<Rightarrow> nat \<Rightarrow> u32 list \<Rightarrow> bool act" where
  "pakGMItem E this v =
     bnd (client this) (\<lambda>c.
     bnd (on_packet (gm_item_packet c v)) (\<lambda>_.
     bnd (SendToVisible E this 24 True) (\<lambda>_. ret True)))"

section \<open>The command line\<close>

definition usage :: "env \<Rightarrow> nat \<Rightarrow> string \<Rightarrow> bool act" where
  "usage E this msg = bnd (SendServerMsg E this msg []) (\<lambda>_. ret True)"

definition cmd_telexy :: "env \<Rightarrow> nat \<Rightarrow> tokst \<Rightarrow> bool act" where
  "cmd_telexy E this st =
     bnd (liftE (strtok (Some 28) st)) (\<lambda>(tmp, st).
     bnd (liftE (tok_str (fst st) tmp)) (\<lambda>x.
     bnd (liftE (next_ints 1 st)) (\<lambda>r.
     case r of
       None \<Rightarrow> usage E this ''Usage:_/telexy_<x>_<y>''
     | Some v \<Rightarrow> pakGMTele E this (atou x) (v ! 0))))"

definition cmd_spawn :: "env \<Rightarrow> nat \<Rightarrow> tokst \<Rightarrow> bool act" where
  "cmd_spawn E this st =
     bnd (liftE (strtok (Some 28) st)) (\<lambda>(tmp, st).
     bnd (liftE (tok_str (fst st) tmp)) (\<lambda>code.
     bnd (liftE (strtok None st)) (\<lambda>(tmp, st).
     case tmp of
       None \<Rightarrow> usage E this ''Usage:_/spawn_<mobcode>_<mobid>_<name>''
     | Some i \<Rightarrow>
         bnd (liftE (cstr_at (fst st) i)) (\<lambda>mob.
         bnd (liftE (strtok None st)) (\<lambda>(tmp, st).
         case tmp of
           None \<Rightarrow> usage E this ''Usage:_/spawn_<mobcode>_<mobid>_<name>''
         | Some i \<Rightarrow>
             bnd (liftE (cstr_at (fst st) i)) (\<lambda>name.
             pakGMSpawn E this (atou code) (atou mob) name))))))"

definition cmd_item :: "env \<Rightarrow> nat \<Rightarrow> tokst \<Rightarrow> bool act" where
  "cmd_item E this st =
     bnd (liftE (strtok (Some 28) st)) (\<lambda>(tmp, st).
     bnd (liftE (tok_str (fst st) tmp)) (\<lambda>slotnum.
     bnd (liftE (next_ints 7 st)) (\<lambda>r.
     case r of
       None \<Rightarrow> usage E this ''Usage:_/item_<slotnum>_<itemid>_<add1>_<val1>_<add2>_<val2>_<add3>_<val3>''
     | Some v \<Rightarrow> pakGMItem E this (atou slotnum # v))))"

text \<open>\<open>/srv\<close> only writes its three arguments to the log.\<close>

definition cmd_srv :: "tokst \<Rightarrow> bool act" where
  "cmd_srv st =
     bnd (liftE (strtok (Some 28) st)) (\<lambda>(va1, st).
     if va1 = None then ret True
     else bnd (liftE (strtok None st)) (\<lambda>(va2, st).
       if va2 = None then ret True
       else bnd (liftE (strtok None st)) (\<lambda>(va3, st). ret True)))"

definition packetCommand :: "env \<Rightarrow> nat \<Rightarrow> cbuf \<Rightarrow> bool act" where
  "packetCommand E this P =
     bnd (liftE (strtok (Some 12) (P, None))) (\<lambda>(t, st).
     case t of
       None \<Rightarrow> ret True
     | Some i \<Rightarrow>
         bnd (liftE (cstr_at (fst st) i)) (\<lambda>command.
         bnd (client this) (\<lambda>c.
         let gm = \<not> accesslevel (PlayerSession c) < 90 in
         if command = ''notice'' then if gm then pakGMNotice E this st else ret True
         else if command = ''telexy'' then if gm then cmd_telexy E this st else ret True
         else if command = ''spawn'' then if gm then cmd_spawn E this st else ret True
         else if command = ''time'' then
           bnd tickM (\<lambda>n.
           bnd (SendServerMsg E this ''%s'' [VStr 0 (asctime_at E n)]) (\<lambda>_. ret True))
         else if command = ''srv'' then cmd_srv st
         else if command = ''item'' then if gm then cmd_item E this st else ret True
         else ret True)))"

lemma quiet_commands [quiet_keeps]:
  "keeps quiet (pakGMNotice E this st)" "keeps quiet (pakGMTele E this x y)"
  "keeps quiet (pakGMItem E this v)" "keeps quiet (pakGMSpawn E this code mob name)"
  unfolding pakGMNotice_def pakGMTele_def pakGMItem_def pakGMSpawn_def
  by ((rule qt_intros quiet_keeps keeps_modify) | (simp add: quiet_def; fail))+

lemma quiet_packetCommand [quiet_keeps]: "keeps quiet (packetCommand E this P)"
  unfolding packetCommand_def cmd_telexy_def cmd_spawn_def cmd_item_def cmd_srv_def usage_def
  by (rule qt_intros quiet_keeps)+

section \<open>Who may command\<close>

text \<open>
  C13. The privileged commands are closed to ordinary accounts: whatever text a client with an access
  level below 90 sends, when the command handler returns it reports success and has changed no client
  and no NPC counter, sent no statement to the database, and answered with at most one message, to the
  sender itself.
\<close>

theorem commands_gated:
  assumes run: "packetCommand E this P w = Inr (r, w')" and c: "clients w this = Some c"
    and low: "accesslevel (PlayerSession c) < 90"
  shows "r \<and> clients w' = clients w \<and> npcid w' = npcid w \<and> queries w' = queries w \<and>
    (deliveries (trace w') = deliveries (trace w) \<or> (\<exists>p. deliveries (trace w') = deliveries (trace w) @ [(sock c, p)]))"
proof -
  obtain t st where t: "strtok (Some 12) (P, None) = Inr (t, st)"
    using run by (auto simp: packetCommand_def bnd_liftE split: sum.splits)
  show ?thesis
  proof (cases t)
    case None
    with run t show ?thesis by (auto simp: packetCommand_def bnd_liftE)
  next
    case (Some i)
    obtain command where cmd: "cstr_at (fst st) i = Inr command"
      using run t Some by (auto simp: packetCommand_def bnd_liftE split: sum.splits)
    consider (other) "command \<notin> {''time'', ''srv''}" | (time) "command = ''time''" | (srv) "command = ''srv''" by auto
    then show ?thesis
    proof cases
      case other
      with run t Some cmd c low show ?thesis by (auto simp: packetCommand_def bnd_liftE Let_def split: if_splits)
    next
      case time
      with run t Some cmd c low have "SendServerMsg E this ''%s'' [VStr 0 (asctime_at E (tick w))] (w\<lparr>tick := Suc (tick w)\<rparr>) = Inr (True, w')" and "r"
        by (auto simp: packetCommand_def bnd_liftE Let_def tickM_def bnd_eq_Inr elim: SendServerMsg_Inr)
      from SendServerMsg_Inr [OF this(1)] \<open>r\<close> c show ?thesis by (fastforce simp: pk_onlyD)
    next
      case srv
      with run t Some cmd c low show ?thesis
        by (auto simp: packetCommand_def bnd_liftE Let_def cmd_srv_def split: sum.splits prod.splits if_splits)
    qed
  qed
qed

definition command_packet :: cbuf where
  "command_packet = \<lparr>blen = 20, bdat = (\<lambda>i. if 12 \<le> i \<and> i < 18 then c2b (''notice'' ! (i - 12)) else 0)\<rparr>"

theorem commands_gated_witness:
  "\<exists>w'. packetCommand sample_env 1 command_packet sample_world = Inr (True, w') \<and> clients w' = clients sample_world"
proof -
  let ?c = "sample_client 1 ''Ana'' 100 100 [2]"
  have c: "clients sample_world 1 = Some ?c" by simp
  have low: "accesslevel (PlayerSession ?c) < 90" by (simp add: sample_client_def)
  have zero: "b2c 0 = NUL" by simp
  have chars: "map c2b ''notice'' = [110, 111, 116, 105, 99, 101]" "map b2c [110, 111, 116, 105, 99, 101] = ''notice''"
    by code_simp+
  have "strtok (Some 12) (command_packet, None) = Inr (Some 12, command_packet, Some 18)"
    "cstr_at command_packet 12 = Inr ''notice''"
    by (simp_all add: command_packet_def strtok_def strtok_from_def scan_def cstr_at_def cstr_def chars [simplified] zero)
  then obtain w' where run: "packetCommand sample_env 1 command_packet sample_world = Inr (True, w')"
    using c low by (auto simp: packetCommand_def bnd_liftE ret_apply)
  from commands_gated [OF run c low] run show ?thesis by auto
qed

text \<open>
  The commands with numbers do not survive a missing first argument: a privileged command line
  whose argument field starts with a NUL is given to \<open>atoi\<close> as a null pointer.
\<close>

lemma bare_command_faults:
  assumes "28 < blen (fst st)" and "bdat (fst st) 28 = 0"
  shows "cmd_telexy E this st w = Inl Null_deref \<and> cmd_spawn E this st w = Inl Null_deref \<and>
    cmd_item E this st w = Inl Null_deref"
proof -
  have "[28..<blen (fst st)] = 28 # [29..<blen (fst st)]" using assms(1) by (simp add: upt_conv_Cons)
  moreover have "b2c 0 = NUL" by simp
  ultimately have "strtok (Some 28) st = Inr (None, fst st, Some 28)"
    using assms by (cases st) (simp add: strtok_def strtok_from_def scan_def Let_def del: b2c_NUL)
  then show ?thesis by (simp add: cmd_telexy_def cmd_spawn_def cmd_item_def bnd_liftE tok_str_def)
qed

end
