(* ===== verification/Dispatch.thy ===== *)
theory Dispatch
  imports Commands
begin

text \<open>
  From bytes on a socket to a handler: \<open>CConnServer::OnReceivePacket\<close>
  (\<open>src/src/gameserver/game_server.cpp\<close>), \<open>PacketControl\<close>
  (\<open>game_packetcontrol.cpp\<close>) and \<open>CClientSocket::ReceiveData\<close>
  (\<open>src/src/commom/socket_client.cpp\<close>).

  The frames of \<open>client_frame\<close> are carried through the dispatcher: a packet changes its own client only,
  and of it only what its handler assigns.
\<close>

section \<open>Dispatch\<close>

definition PacketControl :: "env \<Rightarrow> nat \<Rightarrow> nat \<Rightarrow> cbuf \<Rightarrow> bool act" where
  "PacketControl E this sz P =
     bnd (liftE (rd16 P 4)) (\<lambda>opcode.
     bnd (liftE (rd16 P 6)) (\<lambda>cid.
     if opcode = 0x020d then CheckLogin E this P
     else if opcode = 0x020f then CharCreate E this P
     else if opcode = 0x0211 then CharDelete E this P
     else if opcode = 0x0213 then SendToWorld E this P
     else if opcode = 0x0366 then ObjectMove E this P
     else if opcode = 0x0369 then ret True
     else if opcode = 0x0333 then SendChat E this P
     else if opcode = 0x0334 then packetCommand E this P
     else if opcode = 0x0290 then pakGMTele E this 1047 1725
     else if opcode = 0x0376 then ChangeInventory E this P
     else if opcode = 0x03a0 then ret True
     else if opcode = 0x027b then SendNPCSellItems E this P
     else if opcode = 0x039d then PlayerAttack E this P
     else if opcode = 0x0215 then GameToCharList E this P
     else if opcode = 0x0379 then ShopItemBuy E this P
     else if opcode = 0x4388 then ret True
     else
       bnd (emit (Ev_Dump opcode (map (bdat P) [0..<sz]))) (\<lambda>_. ret True)))"

definition OnReceivePacket :: "env \<Rightarrow> nat \<Rightarrow> cbuf \<Rightarrow> bool act" where
  "OnReceivePacket E this P =
     bnd (liftE (rd32 P 0)) (\<lambda>i_packet.
     let lastbyte = (if i_packet = 0x1F11F311 then 4 else 0) in
     bnd (client this) (\<lambda>c.
     if PSize c = int lastbyte then ret True
     else
       bnd (liftE (rd16 P lastbyte)) (\<lambda>packet_size.
       bnd (gets CKeys) (\<lambda>keys.
       bnd (Decrypt E (\<lambda>i. bdat P (lastbyte + i)) (uint packet_size) keys) (\<lambda>buff.
       PacketControl E this (unat packet_size) \<lparr>blen = unat packet_size, bdat = buff\<rparr>)))))"

definition recv_buffer :: "byte list \<Rightarrow> cbuf" where
  "recv_buffer bs = \<lparr>blen = 65355, bdat = (\<lambda>i. if i < length bs then bs ! i else 0)\<rparr>"

text \<open>\<open>bs\<close> is what \<open>recv\<close> delivered, at most 65355 bytes; nothing on a closed or failed socket.\<close>

definition ReceiveData :: "env \<Rightarrow> nat \<Rightarrow> byte list \<Rightarrow> bool act" where
  "ReceiveData E this bs =
     (if bs = [] then ret False
      else
        bnd (upd_client this (\<lambda>c. c\<lparr>PSize := int (length bs), recvpkts := recvpkts c + 1\<rparr>)) (\<lambda>_.
        OnReceivePacket E this (recv_buffer bs)))"

section \<open>The frames of a packet\<close>

context client_frame
begin

lemma keeps_PacketControl:
  assumes "rd16 P 4 = Inr 0x020d \<Longrightarrow> keeps R (CheckLogin E this P)"
    and "rd16 P 4 = Inr 0x0213 \<Longrightarrow> keeps R (SendToWorld E this P)"
    and "keeps R (ObjectMove E this P)" "keeps R (ShopItemBuy E this P)"
  shows "keeps R (PacketControl E this sz P)"
  unfolding PacketControl_def by (rule keeps_liftE_bnd frame_intros quiet_keeps [THEN keeps_quiet] assms | simp)+

lemma keeps_ReceiveData:
  assumes "\<And>n. ok (\<lambda>c. c\<lparr>PSize := n, recvpkts := recvpkts c + 1\<rparr>)"
    and "\<And>sz P. keeps R (PacketControl E this sz P)"
  shows "keeps R (ReceiveData E this bs)"
  unfolding ReceiveData_def OnReceivePacket_def by (rule frame_intros assms)+

end

text \<open>A packet stays within the record of its client.\<close>

lemma own_PacketControl: "keeps (own this) (PacketControl E this sz P)"
  by (rule own.keeps_PacketControl own.keeps_CheckLogin own.keeps_SendToWorld own.keeps_ObjectMove own.keeps_ShopItemBuy
      own.keeps_auto_rows own.keeps_login_rows own.keeps_copy_names own.keeps_loaddata TrueI)+

lemma own_ReceiveData: "keeps (own this) (ReceiveData E this bs)"
  by (rule own.keeps_ReceiveData own_PacketControl TrueI)+

section \<open>What reaches a handler\<close>

definition known_opcodes :: "u16 list" where
  "known_opcodes = [0x020d, 0x020f, 0x0211, 0x0213, 0x0366, 0x0369, 0x0333, 0x0334, 0x0290, 0x0376, 0x03a0, 0x027b,
     0x039d, 0x0215, 0x0379, 0x4388]"

text \<open>
  A packet with an opcode the server does not know changes nothing: it is dumped, with its opcode
  and its bytes, and the connection stays open.
\<close>

lemma unknown_opcode_dumped:
  assumes "8 \<le> blen P" and "word16 (bdat P 4) (bdat P 5) \<notin> set known_opcodes"
  shows "PacketControl E this sz P w =
    Inr (True, w\<lparr>trace := trace w @ [Ev_Dump (word16 (bdat P 4) (bdat P 5)) (map (bdat P) [0..<sz])]\<rparr>)"
  using assms by (simp add: PacketControl_def bnd_liftE rd16_def known_opcodes_def emit_def)

lemma recv_size [simp]: "blen (recv_buffer bs) = 65355"
  by (simp add: recv_buffer_def)

end
