(* ===== verification/Sessions.thy ===== *)
theory Sessions
  imports Dispatch
begin

text \<open>
  What the packets of a session do to its client: which fields only a login may change, the type of
  the client record that every packet keeps, and the way into the world (\<open>SendToWorld\<close> of
  \<open>src/src/gameserver/game_packets.cpp\<close>), which asks for no login.
\<close>

section \<open>What only a login changes\<close>

text \<open>Who the session is, and how far it has come.\<close>

definition identity :: "CConnClient \<Rightarrow> u32 \<times> u32 \<times> u32 \<times> string \<times> string" where
  "identity c = (let s = PlayerSession c in (accesslevel s, clientid s, userid s, username s, password s))"

definition progress :: "CConnClient \<Rightarrow> bool \<times> bool" where
  "progress c = (isLoggedIn (PlayerSession c), inGame (PlayerSession c))"

lemma view_PacketControl:
  assumes "rd16 P 4 \<noteq> Inr 0x020d"
    and world: "rd16 P 4 = Inr 0x0213 \<Longrightarrow> keeps (same_view v this) (SendToWorld E this P)"
    and v: "\<And>c g. v (c\<lparr>PlayerInfo := g\<rparr>) = v c" "\<And>c g. v (c\<lparr>PlayerPosition := g\<rparr>) = v c"
  shows "keeps (same_view v this) (PacketControl E this sz P)"
  using assms(1) world
  by (auto intro!: vw.keeps_PacketControl vw.keeps_ObjectMove vw.keeps_ShopItemBuy simp: v)

lemma identity_SendToWorld: "keeps (same_view identity this) (SendToWorld E this P)"
  by (rule vw.keeps_SendToWorld vw.keeps_copy_names vw.keeps_loaddata | simp add: identity_def load_char_row_def Let_def; fail)+

lemma identity_PacketControl:
  "rd16 P 4 \<noteq> Inr 0x020d \<Longrightarrow> keeps (same_view identity this) (PacketControl E this sz P)"
  by (rule view_PacketControl) (simp_all add: identity_SendToWorld identity_def)

lemma progress_PacketControl:
  "rd16 P 4 \<noteq> Inr 0x020d \<Longrightarrow> rd16 P 4 \<noteq> Inr 0x0213 \<Longrightarrow> keeps (same_view progress this) (PacketControl E this sz P)"
  by (rule view_PacketControl) (simp_all add: progress_def)

text \<open>
  C3. Privileges come from a login only: a packet with any opcode but that of the login request leaves the
  access level, the client id, the account number, the user name and the password of its client as they
  are, and unless it asks to enter the world, also the flags \<open>isLoggedIn\<close> and \<open>inGame\<close>.
\<close>

theorem privileges_only_at_login:
  assumes run: "PacketControl E this sz P w = Inr (r, w')" and c: "clients w this = Some c"
    and op: "rd16 P 4 \<noteq> Inr 0x020d"
  shows "\<exists>c'. clients w' this = Some c' \<and> accesslevel (PlayerSession c') = accesslevel (PlayerSession c) \<and>
    clientid (PlayerSession c') = clientid (PlayerSession c) \<and> userid (PlayerSession c') = userid (PlayerSession c) \<and>
    username (PlayerSession c') = username (PlayerSession c) \<and> password (PlayerSession c') = password (PlayerSession c) \<and>
    (isLoggedIn (PlayerSession c') = isLoggedIn (PlayerSession c) \<and> inGame (PlayerSession c') = inGame (PlayerSession c) \<or>
     rd16 P 4 = Inr 0x0213)"
proof -
  from same_viewD [OF keepsD [OF identity_PacketControl [OF op] run] c]
  obtain c' where c': "clients w' this = Some c'" "identity c' = identity c" by blast
  have "progress c' = progress c" if "rd16 P 4 \<noteq> Inr 0x0213"
    using same_viewD [OF keepsD [OF progress_PacketControl [OF op that] run] c] c'(1) by simp
  with c' show ?thesis by (auto simp: identity_def progress_def Let_def)
qed

theorem privileges_only_at_login_witness:
  "\<exists>r w' c'. PacketControl sample_env 1 24 (sample_packet 24) sample_world = Inr (r, w') \<and>
    clients w' 1 = Some c' \<and> accesslevel (PlayerSession c') = 1"
proof -
  have op: "rd16 (sample_packet 24) 4 = Inr 0x0504" by code_simp
  obtain r w' where r: "PacketControl sample_env 1 24 (sample_packet 24) sample_world = Inr (r, w')"
    by (simp add: PacketControl_def liftE_def word16_def sample_packet_def ret_def)
  have c: "clients sample_world 1 = Some (sample_client 1 ''Ana'' 100 100 [2])" by simp
  have "rd16 (sample_packet 24) 4 \<noteq> Inr 0x020d" by (simp add: op)
  from privileges_only_at_login [OF r c this] r show ?thesis by (auto simp: sample_client_def)
qed

lemma login_packet_opcode: "rd16 login_packet 4 = Inr 0x020d" "rd16 login_packet 6 = Inr 0"
  by code_simp+

text \<open>
  C4. Nobody becomes logged in without the password but by the way around it shown below. If a packet turns a client that was
  not logged in into one that is, then either it is a login request and the database answered, as the second
  statement of the request, the query for the user name and the password that the packet put into the session with
  at least one row; or it asks to enter the world.
\<close>

theorem login_needs_password:
  assumes run: "PacketControl E this sz P w = Inr (r, w')"
    and c: "clients w this = Some c" and before: "\<not> isLoggedIn (PlayerSession c)"
    and c': "clients w' this = Some c'" and after: "isLoggedIn (PlayerSession c')"
  shows "rd16 P 4 = Inr 0x020d \<and>
      (\<exists>un pw user pwd q0 q row rows. rdn P 24 12 = Inr un \<and> rdn P 12 12 = Inr pw \<and>
        cstr (memcpy_front (username (PlayerSession c)) un) = Inr user \<and>
        cstr (memcpy_front (password (PlayerSession c)) pw) = Inr pwd \<and>
        sprintf_buf 2000 login_pwd_query [VStr 0 user, VStr 0 pwd] = Inr q \<and>
        mysql_answer E (queries w @ [q0]) q = Sql_ok (row # rows)) \<or>
    rd16 P 4 = Inr 0x0213"
proof (cases "rd16 P 4 = Inr 0x020d")
  case True
  with run have "CheckLogin E this P w = Inr (r, w')" by (auto simp: PacketControl_def bnd_liftE split: sum.splits)
  from CheckLogin_needs_password [OF this c before c' after] True show ?thesis by blast
next
  case False
  have "progress c' \<noteq> progress c" using before after by (simp add: progress_def)
  with same_viewD [OF keepsD [OF progress_PacketControl [OF False] run] c] c' show ?thesis by auto
qed

theorem login_needs_password_witness:
  "\<exists>w' q0 q row rows. PacketControl (login_env 5) 1 94 login_packet login_world = Inr (False, w') \<and>
    sprintf_buf 2000 login_pwd_query [VStr 0 ''b'', VStr 0 ''b''] = Inr q \<and> mysql_answer (login_env 5) [q0] q = Sql_ok (row # rows)"
proof -
  obtain w' c' where "CheckLogin (login_env 5) 1 login_packet login_world = Inr (False, w')"
    and c': "clients w' 1 = Some c'" "isLoggedIn (PlayerSession c')" using login_runs by auto
  then have run: "PacketControl (login_env 5) 1 94 login_packet login_world = Inr (False, w')"
    by (simp add: PacketControl_def bnd_liftE login_packet_opcode)
  let ?c = "(sample_client 1 ''Ana'' 100 100 [2])\<lparr>PlayerSession :=
     (PlayerSession (sample_client 1 ''Ana'' 100 100 [2]))\<lparr>isLoggedIn := False\<rparr>\<rparr>"
  have c: "clients login_world 1 = Some ?c" "\<not> isLoggedIn (PlayerSession ?c)" "queries login_world = []"
    by (simp_all add: login_world_def sample_world_def)
  from login_needs_password [OF run c(1,2) c'] run c(3) show ?thesis
    by (auto simp: login_packet_read login_texts login_packet_opcode)
qed

section \<open>The type of a client record\<close>

text \<open>
  The arrays keep their declared sizes; the parts of the credentials that no packet reaches stay NUL, and
  the character's name is terminated.
\<close>

definition wf_client :: "CConnClient \<Rightarrow> bool" where
  "wf_client c \<longleftrightarrow>
     length (username (PlayerSession c)) = 17 \<and> drop 12 (username (PlayerSession c)) = replicate 5 NUL \<and>
     length (password (PlayerSession c)) = 33 \<and> drop 12 (password (PlayerSession c)) = replicate 21 NUL \<and>
     length (char_name (PlayerInfo c)) = 30 \<and> NUL \<in> set (char_name (PlayerInfo c))"

lemma wf_client_cong:
  "(\<And>c. username (PlayerSession (f c)) = username (PlayerSession c) \<and> password (PlayerSession (f c)) = password (PlayerSession c) \<and>
     char_name (PlayerInfo (f c)) = char_name (PlayerInfo c)) \<Longrightarrow> \<forall>c. wf_client c \<longrightarrow> wf_client (f c)"
  by (simp add: wf_client_def)

lemma cstr_tail:
  assumes "drop n a = replicate (Suc m) NUL"
  shows "\<exists>s. cstr a = Inr s \<and> length s \<le> n"
proof -
  have a: "a = take n a @ NUL # replicate m NUL" using append_take_drop_id [of n a] assms by simp
  have "NUL \<in> set (drop n a)" using assms by simp
  then have "NUL \<in> set a" by (rule in_set_dropD)
  moreover have "length (takeWhile (\<lambda>c. c \<noteq> NUL) (take n a)) \<le> n" and "length (take n a) \<le> n"
    using length_takeWhile_le [of "\<lambda>c. c \<noteq> NUL" "take n a"] by simp_all
  then have "length (takeWhile (\<lambda>c. c \<noteq> NUL) a) \<le> n" by (subst a) (simp add: takeWhile_append)
  ultimately show ?thesis by (simp add: cstr_def)
qed

lemma wf_texts:
  assumes "wf_client c"
  shows "\<exists>u. cstr (username (PlayerSession c)) = Inr u \<and> length u \<le> 12"
    "\<exists>p. cstr (password (PlayerSession c)) = Inr p \<and> length p \<le> 12"
    "\<exists>n. cstr (char_name (PlayerInfo c)) = Inr n \<and> length n \<le> 29"
proof -
  show "\<exists>u. cstr (username (PlayerSession c)) = Inr u \<and> length u \<le> 12"
    by (rule cstr_tail [where m = 4]) (use assms in \<open>simp add: wf_client_def\<close>)
  show "\<exists>p. cstr (password (PlayerSession c)) = Inr p \<and> length p \<le> 12"
    by (rule cstr_tail [where m = 20]) (use assms in \<open>simp add: wf_client_def\<close>)
  obtain n where n: "cstr (char_name (PlayerInfo c)) = Inr n" using assms by (auto simp: cstr_def wf_client_def)
  with cstr_length [OF n] assms show "\<exists>n. cstr (char_name (PlayerInfo c)) = Inr n \<and> length n \<le> 29"
    by (auto simp: wf_client_def)
qed

lemma wf_creds:
  assumes "length pw = 12" "length un = 12" "wf_client c"
  shows "wf_client (session_upd (\<lambda>s. s\<lparr>password := memcpy_front (password s) pw, username := memcpy_front (username s) un\<rparr>) c)"
  using assms by (simp add: wf_client_def memcpy_front_def)

lemma wf_strcpy:
  assumes "wf_client c" "strcpy (char_name (PlayerInfo c)) s = Inr nm"
  shows "wf_client (c\<lparr>PlayerInfo := (PlayerInfo c)\<lparr>char_name := nm\<rparr>\<rparr>)"
  using assms by (auto simp: wf_client_def strcpy_def split: if_splits)

lemma typed_copy_names: "keeps (typed wf_client) (copy_names this rows)"
proof (induction rows)
  case Nil
  show ?case by (simp add: ty.keeps_ret)
next
  case (Cons row rows)
  show ?case
  proof (rule keepsI)
    fix w r w'
    assume run: "copy_names this (row # rows) w = Inr (r, w')"
    then obtain s c where s: "cell row 0 = Inr s" and c: "clients w this = Some c"
      by (cases "clients w this") (auto simp: bnd_liftE split: sum.splits)
    with run obtain nm where nm: "strcpy (char_name (PlayerInfo c)) (snd s) = Inr nm"
      by (cases s) (auto simp: bnd_liftE split: sum.splits)
    let ?c = "c\<lparr>PlayerInfo := (PlayerInfo c)\<lparr>char_name := nm\<rparr>\<rparr>"
    have rest: "copy_names this rows (w\<lparr>clients := (clients w)(this \<mapsto> ?c)\<rparr>) = Inr (r, w')"
      using run s c nm by (cases s) (simp add: bnd_liftE)
    show "typed wf_client w w'"
      unfolding typed_def
    proof
      assume "all_clients wf_client w"
      then have "all_clients wf_client (w\<lparr>clients := (clients w)(this \<mapsto> ?c)\<rparr>)"
        using c nm by (blast intro: all_clients_upd wf_strcpy dest: all_clientsD)
      then show "all_clients wf_client w'" using keepsD [OF Cons.IH rest] by (simp add: typed_def)
    qed
  qed
qed

lemma typed_CheckLogin: "keeps (typed wf_client) (CheckLogin E this P)"
  by (rule ty.keeps_CheckLogin ty.keeps_auto_rows ty.keeps_login_rows | (rule wf_client_cong, simp; fail) | simp add: wf_creds)+

lemma typed_SendToWorld: "keeps (typed wf_client) (SendToWorld E this P)"
  by (rule ty.keeps_SendToWorld ty.keeps_loaddata typed_copy_names | rule wf_client_cong, simp add: load_char_row_def)+

lemma typed_PacketControl: "keeps (typed wf_client) (PacketControl E this sz P)"
  by (rule ty.keeps_PacketControl typed_CheckLogin typed_SendToWorld ty.keeps_ObjectMove ty.keeps_ShopItemBuy
      | rule wf_client_cong, simp)+

lemma typed_ReceiveData: "keeps (typed wf_client) (ReceiveData E this bs)"
  by (rule ty.keeps_ReceiveData typed_PacketControl | rule wf_client_cong, simp)+

lemma wf_new_client: "length (char_name (PlayerInfo junk)) = 30 \<Longrightarrow> wf_client (CConnClient_new junk)"
  by (simp add: wf_client_def CConnClient_new_def CBaseSocket_new_def Let_def memcpy_front_def)

section \<open>Entering the world\<close>

text \<open>The packet that describes the player's own character.\<close>

lemma lays_seqM_append: "lays (seqM xs) f \<Longrightarrow> lays (seqM ys) g \<Longrightarrow> lays (seqM (xs @ ys)) (\<lambda>d. g (f d))"
proof -
  assume f: "lays (seqM xs) f" and g: "lays (seqM ys) g"
  show ?thesis
    unfolding lays_def
  proof
    fix b
    obtain b1 where "seqM xs b = Inr ((), b1)" "bufD b1 = f (bufD b)" using f by (rule laysE)
    moreover obtain b2 where "seqM ys b1 = Inr ((), b2)" "bufD b2 = g (bufD b1)" using g by (rule laysE)
    ultimately show "\<exists>b'. seqM (xs @ ys) b = Inr ((), b') \<and> bufD b' = g (f (bufD b))" by (simp add: seqM_append)
  qed
qed

lemma lays_add_bytes: "off + length bs \<le> 65355 \<Longrightarrow> lays (seqM (add_bytes off bs)) (overlay off bs)"
  unfolding lays_def add_bytes_def using bw.bytes_run [of off bs] by (simp add: buf_cap_def)

lemma lays_inventory: "lays (inventory_slots its) (fill_table 116 8 78 (\<lambda>i. slot_bytes (its i)))"
  unfolding inventory_slots_def Let_def by (rule lays_slots) simp_all

text \<open>
  The 1244 bytes that describe the player's own character, in three parts, and in each of them every field, the constants, and
  zeros in between. \<open>fr\<close> is the stack that \<open>AddStr\<close> copies from instead of the name: of its bytes the first twelve remain
  and, of a longer name, those beyond offset 28 that no field overwrites.
\<close>

definition world_head_fields :: "CConnClient \<Rightarrow> bytes \<Rightarrow> string \<Rightarrow> bytes \<Rightarrow> bool" where
  "world_head_fields c fr name d \<longleftrightarrow>
     (let st = PlayerStats c; i = PlayerInfo c; pos = current (PlayerPosition c) in
      w16 d 0 = 1244 \<and> w16 d 2 = 0 \<and> w16 d 4 = 276 \<and> w16 d 6 = ucast (clientid (PlayerSession c)) \<and> w32 d 8 = 0 \<and>
      w16 d 12 = coord (fx pos) \<and> w16 d 14 = coord (fy pos) \<and>
      (\<forall>k. k < 12 \<or> 12 < k \<and> k < 20 \<longrightarrow> d (16 + k) = (if k < length name then fr k else 0)) \<and> d 28 = 150 \<and>
      d 36 = ucast (classid i) \<and> d 37 = (if 21 < length name then fr 21 else 0) \<and> w16 d 38 = 1536 \<and>
      w32 d 40 = Gold i \<and> w32 d 44 = Exp i \<and> w16 d 48 = coord (fx pos) \<and> w16 d 50 = coord (fy pos) \<and>
      map d [52..<80] = [0x20, 0x00, 0x24, 0x00, 0x05, 0x00, 0x00, 0x52, 0x78, 0x00, 0xCF, 0x00, 0x46, 0x00, 0x37, 0x00,
        0x3D, 0x00, 0x32, 0x00, 0x33, 0x00, 0x0E, 0x00, 0x0D, 0x00, 0x2C, 0x01] \<and>
      w16 d 80 = ucast (Level i) \<and> w16 d 82 = ucast (Defense st) \<and> w16 d 84 = ucast (Attack_Power st) \<and> d 86 = 0 \<and> d 87 = 4 \<and>
      w16 d 88 = MaxHP st \<and> w16 d 90 = MaxMP st \<and> w16 d 92 = HP st \<and> w16 d 94 = MP st \<and>
      w16 d 96 = Str st \<and> w16 d 98 = Intel st \<and> w16 d 100 = Dex st \<and> w16 d 102 = Con st \<and>
      map d [104..<108] = [1, 2, 3, 4] \<and> d 108 = ucast (mobid i) \<and> d 109 = 0 \<and> map d [110..<116] = [43, 0, 86, 0, 28, 1])"

definition world_tail_fields :: "CConnClient \<Rightarrow> bytes \<Rightarrow> bool" where
  "world_tail_fields c d \<longleftrightarrow> map d [744..<752] = [0x4D, 0x4D, 0x4D, 0x00, 0x7F, 0x7F, 0x7F, 0x00] \<and>
     w16 d 752 = 750 \<and> w16 d 754 = 400 \<and> w16 d 756 = 290 \<and> map d [760..<764] = [0xFF, 0xFF, 0xFF, 0xFF] \<and>
     map d [768..<772] = [18, 18, 18, 18] \<and> w16 d 774 = ucast (clientid (PlayerSession c)) \<and>
     map d [778..<796] = [0xFF, 0xFF, 0xFF, 0xFF, 0xFF, 0xFF, 0xFF, 0xFF, 0xFF, 0xFF, 0xFF, 0xFF, 0xFF, 0xFF, 0xFF, 0xFF, 0xCC, 0xCC] \<and> map d [828..<836] = [0x22, 0x00, 0x06, 0x00, 0x51, 0x4A, 0x01, 0x00] \<and>
     w32 d 740 = 0 \<and> w16 d 758 = 0 \<and> w32 d 764 = 0 \<and> w16 d 772 = 0 \<and> w16 d 776 = 0 \<and>
     (\<forall>j. 796 \<le> j \<and> j < 828 \<or> 836 \<le> j \<and> j < 1244 \<longrightarrow> d j = 0)"

definition world_fields :: "CConnClient \<Rightarrow> bytes \<Rightarrow> string \<Rightarrow> bytes \<Rightarrow> bool" where
  "world_fields c fr name d \<longleftrightarrow> world_head_fields c fr name d \<and>
     (\<forall>i < 78. \<forall>k < 8. d (116 + (8 * i + k)) = slot_bytes (items c i) ! k) \<and> world_tail_fields c d"

text \<open>What the packet holds when the header has been laid out, before the character is loaded.\<close>

definition world_header :: "u16 \<Rightarrow> bytes \<Rightarrow> bool" where
  "world_header n d \<longleftrightarrow> w16 d 0 = 1244 \<and> w16 d 4 = 276 \<and> w16 d 6 = n \<and>
     (\<forall>j. 2 \<le> j \<and> j < 4 \<or> 8 \<le> j \<and> j < 1244 \<longrightarrow> d j = 0)"

lemma zero_words: "word16 0 0 = 0" "word32 0 0 0 0 = 0"
  by (simp_all add: word16_def word32_def)

lemma world_head_cong:
  "(\<And>j. j < 116 \<Longrightarrow> d' j = d j) \<Longrightarrow> world_head_fields c fr name d' \<longleftrightarrow> world_head_fields c fr name d"
  by (simp add: world_head_fields_def Let_def w16_def w32_def cong: conj_cong)

lemma world_tail_cong:
  "(\<And>j. 740 \<le> j \<Longrightarrow> j < 1244 \<Longrightarrow> d' j = d j) \<Longrightarrow> world_tail_fields c d' \<longleftrightarrow> world_tail_fields c d"
  unfolding world_tail_fields_def w16_def w32_def
  by (intro arg_cong2 [where f = "(\<and>)"] arg_cong2 [where f = "(=)"] arg_cong [where f = All] ext refl; force)

lemma world_head_layout:
  assumes "length name \<le> 29"
  shows "\<exists>f. lays (seqM (world_head c frame name)) f \<and> (\<forall>d. \<forall>j \<ge> 116. f d j = d j) \<and>
    (\<forall>d. world_header (ucast (clientid (PlayerSession c))) d \<longrightarrow> world_head_fields c frame name (f d))"
  unfolding world_head_def world_head_fields_def world_header_def Let_def
  by (rule exI, rule conjI, (rule lays_rules lays_seqM_append lays_add_bytes lays_AddStr | (use assms in \<open>simp; fail\<close>))+)
    (insert assms, intro allI conjI impI; (elim conjE disjE)?; simp add: layout_simps zero_words)

lemma world_tail_layout:
  "\<exists>f. lays (seqM (world_tail c)) f \<and> (\<forall>d. \<forall>j < 744. f d j = d j) \<and>
    (\<forall>d. (\<forall>j. 740 \<le> j \<and> j < 1244 \<longrightarrow> d j = 0) \<longrightarrow> world_tail_fields c (f d))"
  unfolding world_tail_def world_tail_fields_def
  by (rule exI, rule conjI, (rule lays_rules lays_seqM_append lays_add_bytes | (simp; fail))+)
    (intro allI conjI impI; (elim conjE disjE)?; simp add: layout_simps zero_words)

lemma world_header_layout:
  fixes n :: u16
  shows "\<exists>f. lays (seqM [AddWord 1244 0, AddWord 276 4, AddWord n 6]) f \<and>
    (\<forall>d. (\<forall>j < 1244. d j = 0) \<longrightarrow> world_header n (f d))"
  unfolding world_header_def
  by (rule exI, rule conjI, (rule lays_rules | (simp; fail))+)
    (intro allI conjI impI; (elim disjE)?; simp add: layout_simps)

lemma world_packet_layout:
  assumes "length name \<le> 29"
  shows "\<exists>f. lays (world_packet c frame name) f \<and>
    (\<forall>d. world_header (ucast (clientid (PlayerSession c))) d \<longrightarrow> world_fields c frame name (f d))"
proof -
  obtain f where f: "lays (seqM (world_head c frame name)) f" "\<And>d j. 116 \<le> j \<Longrightarrow> f d j = d j"
    "\<And>d. world_header (ucast (clientid (PlayerSession c))) d \<Longrightarrow> world_head_fields c frame name (f d)"
    using world_head_layout [OF assms, of c frame] by blast
  obtain g where g: "lays (seqM (world_tail c)) g" "\<And>d j. j < 744 \<Longrightarrow> g d j = d j"
    "\<And>d. \<forall>j. 740 \<le> j \<and> j < 1244 \<longrightarrow> d j = 0 \<Longrightarrow> world_tail_fields c (g d)"
    using world_tail_layout [of c] by blast
  let ?h = "fill_table 116 8 78 (\<lambda>i. slot_bytes (items c i))"
  have "lays (world_packet c frame name) (\<lambda>d. ?h (g (f d)))"
    unfolding world_packet_def
    by (intro lays_seqM_append f(1) g(1) lays_seqM_append [OF f(1) lays_seqM_append [OF g(1)]] lays_rules lays_inventory)
  moreover have "world_fields c frame name (?h (g (f d)))" if d: "world_header (ucast (clientid (PlayerSession c))) d" for d
  proof -
    have "world_head_fields c frame name (?h (g (f d)))"
      using f(3) [OF d] world_head_cong [of "?h (g (f d))" "f d" c frame name] g(2) by (simp add: fill_table_def)
    moreover have "\<forall>j. 740 \<le> j \<and> j < 1244 \<longrightarrow> f d j = 0" using d f(2) by (simp add: world_header_def)
    then have "world_tail_fields c (?h (g (f d)))"
      using g(3) [of "f d"] world_tail_cong [of "?h (g (f d))" "g (f d)" c] by (simp add: fill_table_def)
    ultimately show ?thesis by (simp add: world_fields_def layout_simps)
  qed
  ultimately show ?thesis by blast
qed

text \<open>Only the bytes of the packet count.\<close>

lemma world_fields_map: "world_fields c fr name d \<Longrightarrow> world_fields c fr name ((!) (map d [0..<1244]))"
  using world_head_cong [of "(!) (map d [0..<1244])" d c fr name] world_tail_cong [of "(!) (map d [0..<1244])" d c]
  by (simp add: world_fields_def)

text \<open>Loading: the character's row, then the item rows into a cleared inventory.\<close>

lemma load_items_run:
  assumes "list_all2 (\<lambda>row v. cells_u32 row [0..<8] = Inr v) rows vs" and "\<forall>v \<in> set vs. unat (v ! 0) < 78"
    and "clients w this = Some c"
  shows "load_items this rows w = Inr ((), w\<lparr>clients := (clients w)(this \<mapsto> c\<lparr>items := item_table vs (items c)\<rparr>)\<rparr>)"
  using assms
proof (induction arbitrary: w c rule: list_all2_induct)
  case Nil
  have "item_table [] (items c) = items c" by (simp add: item_table_def fun_eq_iff)
  then have "c\<lparr>items := item_table [] (items c)\<rparr> = c" by simp
  then have "(clients w)(this \<mapsto> c\<lparr>items := item_table [] (items c)\<rparr>) = clients w"
    using Nil(2) by (simp only: map_upd_triv)
  then show ?case by (simp only: load_items.simps ret_def) simp
next
  case (Cons row rows v vs)
  let ?c = "c\<lparr>items := (items c)(unat (v ! 0) := item_of_row v)\<rparr>"
  let ?w = "w\<lparr>clients := (clients w)(this \<mapsto> ?c)\<rparr>"
  have "load_items this rows ?w = Inr ((), ?w\<lparr>clients := (clients ?w)(this \<mapsto> ?c\<lparr>items := item_table vs (items ?c)\<rparr>)\<rparr>)"
    by (rule Cons.IH) (use Cons.prems in simp_all)
  then have "load_items this rows ?w = Inr ((), w\<lparr>clients := (clients w)(this \<mapsto> c\<lparr>items := item_table (v # vs) (items c)\<rparr>)\<rparr>)"
    by (simp add: item_table_Cons)
  moreover have "load_items this (row # rows) w = load_items this rows ?w"
    using Cons.hyps(1) Cons.prems by (simp add: bnd_liftE)
  ultimately show ?case by (simp only:)
qed

definition loaded :: "u32 list \<Rightarrow> u32 list list \<Rightarrow> CConnClient \<Rightarrow> CConnClient" where
  "loaded v vs c = (let c1 = load_char_row v c in
     c1\<lparr>items := item_table vs (\<lambda>j. if j < 77 then ClearItem else items c j),
       PlayerSession := (PlayerSession c1)\<lparr>isLoggedIn := True\<rparr>\<rparr>)"

lemma loaddata_run:
  assumes c: "clients w this = Some c" and name: "cstr (char_name (PlayerInfo c)) = Inr name"
    and user: "cstr (username (PlayerSession c)) = Inr user"
    and q: "sprintf_buf 2000 load_char_query [VStr 0 name, VStr 0 user] = Inr q"
      "mysql_answer E (queries w) q = Sql_ok (row # rest)"
    and row: "cells_u32 row [0..<16] = Inr v" "cell row 0 = Inr (p, s)"
    and q': "sprintf_buf 2000 load_items_query [VStr p s] = Inr q'" "mysql_answer E (queries w @ [q]) q' = Sql_ok rows"
    and its: "list_all2 (\<lambda>row v. cells_u32 row [0..<8] = Inr v) rows vs" "\<forall>v \<in> set vs. unat (v ! 0) < 78"
  shows "loaddata E this w = Inr (True, w\<lparr>trace := trace w @ [Ev_Query q, Ev_Query q'], queries := queries w @ [q, q'],
    sqlres := rows, clients := (clients w)(this \<mapsto> loaded v vs c)\<rparr>)"
proof -
  let ?its = "\<lambda>j. if j < 77 then ClearItem else items c j"
  let ?c = "(load_char_row v c)\<lparr>items := ?its\<rparr>"
  let ?w = "w\<lparr>trace := trace w @ [Ev_Query q, Ev_Query q'], queries := queries w @ [q, q'], sqlres := rows,
    clients := (clients w)(this \<mapsto> ?c)\<rparr>"
  have "load_items this rows ?w = Inr ((), ?w\<lparr>clients := (clients ?w)(this \<mapsto> ?c\<lparr>items := item_table vs (items ?c)\<rparr>)\<rparr>)"
    by (rule load_items_run [OF its]) simp
  moreover have "items (load_char_row v c) = items c" by (simp add: load_char_row_def)
  ultimately show ?thesis
    using c name user q row q'
    by (simp add: loaddata_def bnd_liftE bnd_DoSQL mysql_store_result_def ret_apply loaded_def Let_def cong: if_cong)
qed

lemma lays_on_packet:
  assumes "lays m f"
  obtains p where "on_packet m w = Inr ((), w\<lparr>packet := p\<rparr>)" "bufD p = f (bufD (packet w))"
proof -
  obtain p where "m (packet w) = Inr ((), p)" "bufD p = f (bufD (packet w))" using assms by (rule laysE)
  then show thesis by (intro that) (simp_all add: on_packet_ok)
qed

lemma deliveries_queries [simp]: "deliveries (tr @ Ev_Query q # rest) = deliveries tr @ deliveries rest"
  by (induction tr rule: deliveries.induct) auto

text \<open>The client after the row with its name, the character's row and the item rows have been read.\<close>

definition entered :: "string \<Rightarrow> u32 list \<Rightarrow> u32 list list \<Rightarrow> CConnClient \<Rightarrow> CConnClient" where
  "entered nm v vs c = (let c1 = loaded v vs (c\<lparr>PlayerInfo := (PlayerInfo c)\<lparr>char_name := nm\<rparr>\<rparr>) in
     c1\<lparr>PlayerSession := (PlayerSession c1)\<lparr>inGame := True\<rparr>, ready := True\<rparr>)"

lemma world_end_run:
  assumes c: "clients w this = Some c" and name: "cstr (char_name (PlayerInfo c)) = Inr name" "length name \<le> 29"
    and header: "world_header (ucast (clientid (PlayerSession c))) (bufD (packet w))"
  defines "c1 \<equiv> c\<lparr>PlayerSession := (PlayerSession c)\<lparr>inGame := True\<rparr>, ready := True\<rparr>"
  shows "\<exists>w' p p' t t'. world_end E this w = Inr (True, w') \<and> clients w' = (clients w)(this \<mapsto> c1) \<and>
    queries w' = queries w \<and> deliveries (trace w') = deliveries (trace w) @ [(sock c, p), (sock c, p')] \<and>
    length p = 1244 \<and> length p' = 172 \<and> world_fields c1 (memory_at E t) name ((!) p) \<and>
    spawn_fields c1 (memory_at E t') name ((!) p')"
proof -
  let ?fr = "memory_at E (tick w)" and ?w1 = "w\<lparr>tick := Suc (tick w)\<rparr>"
  let ?c = "c\<lparr>PlayerSession := (PlayerSession c)\<lparr>inGame := True\<rparr>, ready := True\<rparr>"
  obtain f where f: "lays (world_packet c ?fr name) f" and lay: "world_fields c ?fr name (f (bufD (packet w)))"
    using world_packet_layout [OF name(2), of c ?fr] header by blast
  have lay1: "world_fields ?c ?fr name ((!) (map (f (bufD (packet w))) [0..<1244]))"
    using world_fields_map [OF lay] by (simp add: world_fields_def world_head_fields_def world_tail_fields_def Let_def)
  have c1: "clients ?w1 this = Some c" using c by simp
  obtain w2 where w2: "\<And>k :: bool act. bnd (on_packet (world_packet c ?fr name)) (\<lambda>_. bnd (SendPk E this 1244) (\<lambda>_. k)) ?w1 = k w2"
    "pk_only ?w1 w2" "deliveries (trace w2) = deliveries (trace ?w1) @ [(sock c, map (f (bufD (packet ?w1))) [0..<unat (1244 :: u16)])]"
    using send_step [OF f c1] by metis
  let ?w3 = "w2\<lparr>clients := (clients w2)(this \<mapsto> ?c)\<rparr>"
  have c2: "clients w2 this = Some c" using pk_onlyD(5) [OF w2(2)] c by simp
  have c3: "clients ?w3 this = Some ?c" by simp
  obtain g where g: "lays (spawn_char_packet ?c (memory_at E (tick ?w3)) name) g"
    "\<And>d. spawn_fields ?c (memory_at E (tick ?w3)) name (g d)"
    using spawn_char_layout [OF name(2), of ?c "memory_at E (tick ?w3)"] by blast
  from memory_send_run [where m = "\<lambda>fr. spawn_char_packet ?c fr name", OF g(1) c3, of 172 True]
  obtain w' where w': "bnd (memoryM E) (\<lambda>fr. bnd (on_packet (spawn_char_packet ?c fr name)) (\<lambda>_. bnd (SendPk E this 172) (\<lambda>_. ret True))) ?w3 = Inr (True, w')"
    "pk_only ?w3 w'" "deliveries (trace w') = deliveries (trace ?w3) @ [(sock ?c, map (g (bufD (packet ?w3))) [0..<unat (172 :: u16)])]"
    by blast
  have run: "world_end E this w = Inr (True, w')"
    using c name(1) w2(1) c2 w'(1) by (simp add: world_end_def bnd_liftE)
  show ?thesis
    using run w2(3) w'(3) lay1 spawn_fields_map [OF g(2)] pk_onlyD [OF w2(2)] pk_onlyD [OF w'(2)]
    by (intro exI conjI) (assumption | simp add: c1_def)+
qed

text \<open>
  What the database holds: for \<open>user\<close> and position \<open>posid\<close> one character \<open>name\<close>, for it a row with the
  numbers \<open>v\<close>, and item rows with the numbers \<open>vs\<close>, all slots inside the inventory. \<open>q1\<close> to \<open>q3\<close> are the
  statements, sent after \<open>qs\<close>.
\<close>

definition has_char :: "env \<Rightarrow> string list \<Rightarrow> string \<Rightarrow> byte \<Rightarrow> string \<Rightarrow> u32 list \<Rightarrow> u32 list list \<Rightarrow>
    string \<Rightarrow> string \<Rightarrow> string \<Rightarrow> bool" where
  "has_char E qs user posid name v vs q1 q2 q3 \<longleftrightarrow> (\<exists>ptr row rest p s rows.
     sprintf_buf 2000 select_char_query [VStr 0 user, VInt (ucast posid)] = Inr q1 \<and>
     mysql_answer E qs q1 = Sql_ok [[Some (ptr, name)]] \<and>
     sprintf_buf 2000 load_char_query [VStr 0 name, VStr 0 user] = Inr q2 \<and>
     mysql_answer E (qs @ [q1]) q2 = Sql_ok (row # rest) \<and> cells_u32 row [0..<16] = Inr v \<and> cell row 0 = Inr (p, s) \<and>
     sprintf_buf 2000 load_items_query [VStr p s] = Inr q3 \<and> mysql_answer E (qs @ [q1, q2]) q3 = Sql_ok rows \<and>
     list_all2 (\<lambda>row v. cells_u32 row [0..<8] = Inr v) rows vs \<and> (\<forall>v \<in> set vs. unat (v ! 0) < 78))"

lemma SendToWorld_enters:
  assumes c: "clients w this = Some c" and user: "cstr (username (PlayerSession c)) = Inr user"
    and P: "rd8 P 12 = Inr posid" and db: "has_char E (queries w) user posid name v vs q1 q2 q3"
    and name: "NUL \<notin> set name" "length name \<le> 29" "strcpy (char_name (PlayerInfo c)) name = Inr nm"
  shows "\<exists>w' p p' t t'. SendToWorld E this P w = Inr (True, w') \<and> clients w' = (clients w)(this \<mapsto> entered nm v vs c) \<and>
    queries w' = queries w @ [q1, q2, q3] \<and> deliveries (trace w') = deliveries (trace w) @ [(sock c, p), (sock c, p')] \<and>
    length p = 1244 \<and> length p' = 172 \<and> world_fields (entered nm v vs c) (memory_at E t) name ((!) p) \<and>
    spawn_fields (entered nm v vs c) (memory_at E t') name ((!) p')"
proof -
  obtain ptr row rest p s rows where
    q1: "sprintf_buf 2000 select_char_query [VStr 0 user, VInt (ucast posid)] = Inr q1" "mysql_answer E (queries w) q1 = Sql_ok [[Some (ptr, name)]]"
    and q2: "sprintf_buf 2000 load_char_query [VStr 0 name, VStr 0 user] = Inr q2" "mysql_answer E (queries w @ [q1]) q2 = Sql_ok (row # rest)"
    and row: "cells_u32 row [0..<16] = Inr v" "cell row 0 = Inr (p, s)"
    and q3: "sprintf_buf 2000 load_items_query [VStr p s] = Inr q3" "mysql_answer E (queries w @ [q1, q2]) q3 = Sql_ok rows"
    and its: "list_all2 (\<lambda>row v. cells_u32 row [0..<8] = Inr v) rows vs" "\<forall>v \<in> set vs. unat (v ! 0) < 78"
    using db unfolding has_char_def by blast
  let ?c = "c\<lparr>PlayerInfo := (PlayerInfo c)\<lparr>char_name := nm\<rparr>\<rparr>"
  obtain b0 where b0: "on_packet Free w = Inr ((), w\<lparr>packet := b0\<rparr>)" "bufD b0 = (\<lambda>i. if i < 65355 then 0 else bufD (packet w) i)"
    using lays_Free by (rule lays_on_packet)
  let ?w1 = "w\<lparr>packet := b0, trace := trace w @ [Ev_Query q1], queries := queries w @ [q1], sqlres := [[Some (ptr, name)]]\<rparr>"
  obtain h where h: "lays (seqM [AddWord 1244 0, AddWord 276 4, AddWord (ucast (clientid (PlayerSession c))) 6]) h"
    "\<And>d. \<forall>j < 1244. d j = 0 \<Longrightarrow> world_header (ucast (clientid (PlayerSession c))) (h d)"
    using world_header_layout [of "ucast (clientid (PlayerSession c))"] by blast
  obtain b1 where b1: "on_packet (seqM [AddWord 1244 0, AddWord 276 4, AddWord (ucast (clientid (PlayerSession c))) 6]) ?w1 =
      Inr ((), ?w1\<lparr>packet := b1\<rparr>)" "bufD b1 = h (bufD (packet ?w1))" using h(1) by (rule lays_on_packet)
  let ?w2 = "?w1\<lparr>packet := b1, clients := (clients w)(this \<mapsto> ?c)\<rparr>"
  have nm: "cstr nm = Inr name" using strcpy_cstr [OF name(3,1)] by simp
  let ?w3 = "?w2\<lparr>trace := trace ?w2 @ [Ev_Query q2, Ev_Query q3], queries := queries ?w2 @ [q2, q3], sqlres := rows,
    clients := (clients ?w2)(this \<mapsto> loaded v vs ?c)\<rparr>"
  have w2: "clients ?w2 this = Some ?c" "cstr (char_name (PlayerInfo ?c)) = Inr name" "cstr (username (PlayerSession ?c)) = Inr user"
    "mysql_answer E (queries ?w2) q2 = Sql_ok (row # rest)" "mysql_answer E (queries ?w2 @ [q2]) q3 = Sql_ok rows"
    using nm user q2(2) q3(2) by simp_all
  have load: "loaddata E this ?w2 = Inr (True, ?w3)"
    by (rule loaddata_run [OF w2(1,2,3) q2(1) w2(4) row q3(1) w2(5) its])
  have "clients ?w3 this = Some (loaded v vs ?c)" "cstr (char_name (PlayerInfo (loaded v vs ?c))) = Inr name"
    by (simp_all add: loaded_def load_char_row_def Let_def nm)
  moreover have "world_header (ucast (clientid (PlayerSession (loaded v vs ?c)))) (bufD (packet ?w3))"
    using h(2) b0(2) b1(2) by (simp add: loaded_def load_char_row_def Let_def)
  ultimately obtain w' p p' t t' where w': "world_end E this ?w3 = Inr (True, w')"
    "clients w' = (clients ?w3)(this \<mapsto> entered nm v vs c)" "queries w' = queries ?w3"
    "deliveries (trace w') = deliveries (trace ?w3) @ [(sock (loaded v vs ?c), p), (sock (loaded v vs ?c), p')]"
    "length p = 1244" "length p' = 172" "world_fields (entered nm v vs c) (memory_at E t) name ((!) p)"
    "spawn_fields (entered nm v vs c) (memory_at E t') name ((!) p')"
    using world_end_run [of ?w3 this "loaded v vs ?c" name E] name(2) unfolding entered_def Let_def by blast
  have sel: "sock (loaded v vs ?c) = sock c" by (simp add: loaded_def load_char_row_def Let_def)
  have "SendToWorld E this P w = world_end E this ?w3"
    using c user P q1 b0(1) b1(1) name(3) load
    by (simp add: SendToWorld_def bnd_liftE bnd_DoSQL mysql_store_result_def cell_def del: seqM.simps)
  then show ?thesis
    using w' sel by (intro exI conjI) (assumption | simp)+
qed


section \<open>The way around the password\<close>

lemma triple_bnd_any: "(\<And>x. triple (\<lambda>_. True) (f x) Q) \<Longrightarrow> triple (\<lambda>_. True) (bnd m f) Q"
  by (auto simp: triple_def bnd_eq_Inr)

lemma triple_working_DoSQL:
  assumes "\<And>qs q. mysql_answer E qs q \<noteq> Sql_error" "triple (\<lambda>_. True) (k True) Q"
  shows "triple (\<lambda>_. True) (bnd (DoSQL E f as) k) Q"
  using assms by (auto simp: triple_def bnd_DoSQL split: sum.splits sql_result.splits)

lemma loaddata_logs_in:
  assumes "\<And>qs q. mysql_answer E qs q \<noteq> Sql_error"
  shows "triple (\<lambda>_. True) (loaddata E this) (\<lambda>_ w. \<exists>c. clients w this = Some c \<and> isLoggedIn (PlayerSession c))"
proof -
  have upd: "triple (\<lambda>_. True) (bnd (upd_client this (\<lambda>c. c\<lparr>PlayerSession := (PlayerSession c)\<lparr>isLoggedIn := True\<rparr>\<rparr>)) (\<lambda>_. ret True))
      (\<lambda>_ w. \<exists>c. clients w this = Some c \<and> isLoggedIn (PlayerSession c))"
    by (auto simp: triple_def bnd_eq_Inr upd_client_def split: option.splits)
  show ?thesis
    unfolding loaddata_def
    by (rule upd triple_working_DoSQL [OF assms] triple_bnd_any triple_throw | (simp; fail) | simp split: list.split prod.split | intro allI impI conjI)+
qed

lemma world_end_clients:
  assumes run: "world_end E this w = Inr (r, w')" and c: "clients w this = Some c"
  shows "r \<and> clients w' = (clients w)(this \<mapsto> c\<lparr>PlayerSession := (PlayerSession c)\<lparr>inGame := True\<rparr>, ready := True\<rparr>)"
proof -
  let ?c = "c\<lparr>PlayerSession := (PlayerSession c)\<lparr>inGame := True\<rparr>, ready := True\<rparr>"
  let ?fin = "\<lambda>name c. bnd (memoryM E) (\<lambda>fr. bnd (on_packet (spawn_char_packet c fr name)) (\<lambda>_. bnd (SendPk E this 172) (\<lambda>_. ret True)))"
  obtain name x w1 where name: "cstr (char_name (PlayerInfo c)) = Inr name"
    and w1: "bnd (memoryM E) (\<lambda>fr. bnd (on_packet (world_packet c fr name)) (\<lambda>_. SendPk E this 1244)) w = Inr (x, w1)"
    and rest: "bnd (upd_client this (\<lambda>c. c\<lparr>PlayerSession := (PlayerSession c)\<lparr>inGame := True\<rparr>, ready := True\<rparr>))
      (\<lambda>_. bnd (client this) (?fin name)) w1 = Inr (r, w')"
    using run c by (auto simp: world_end_def bnd_liftE bnd_eq_Inr split: sum.splits)
  have "keeps quiet (bnd (memoryM E) (\<lambda>fr. bnd (on_packet (world_packet c fr name)) (\<lambda>_. SendPk E this 1244)))"
    by (rule qt_intros quiet_keeps)+
  then have "quiet w w1" using w1 by (rule keepsD)
  then have "clients w1 = clients w" by (simp add: quiet_def)
  with rest c have e: "?fin name ?c (w1\<lparr>clients := (clients w)(this \<mapsto> ?c)\<rparr>) = Inr (r, w')" by (simp del: memoryM_bnd)
  have "keeps quiet (?fin name ?c)" by (rule qt_intros quiet_keeps)+
  then have "quiet (w1\<lparr>clients := (clients w)(this \<mapsto> ?c)\<rparr>) w'" using e by (rule keepsD)
  then have "clients w' = (clients w)(this \<mapsto> ?c)" by (simp add: quiet_def)
  moreover have r using e by (auto simp: bnd_eq_Inr)
  ultimately show ?thesis by simp
qed

lemma SendToWorld_flags:
  assumes run: "SendToWorld E this P w = Inr (True, w')" and works: "\<And>qs q. mysql_answer E qs q \<noteq> Sql_error"
  shows "\<exists>c'. clients w' this = Some c' \<and> isLoggedIn (PlayerSession c') \<and> inGame (PlayerSession c') \<and> ready c'"
proof -
  obtain ok w1 w2 where w2: "loaddata E this w1 = Inr (ok, w2)" "world_end E this w2 = Inr (True, w')"
    using run by (auto simp: SendToWorld_def bnd_eq_Inr split: if_splits)
  obtain c where c: "clients w2 this = Some c" "isLoggedIn (PlayerSession c)"
    using tripleD [OF loaddata_logs_in [OF works] _ w2(1)] by auto
  from world_end_clients [OF w2(2) c(1)] c(2) show ?thesis by simp
qed

lemma CheckLogin_username:
  assumes run: "CheckLogin E this P w = Inr (r, w')" and c: "clients w this = Some c" and un: "rdn P 24 12 = Inr un"
  shows "\<exists>c'. clients w' this = Some c' \<and> username (PlayerSession c') = memcpy_front (username (PlayerSession c)) un"
proof -
  have k: "keeps (same_view (\<lambda>c. username (PlayerSession c)) this) (login_checked E this P user pw cliver)" for user pw cliver
    unfolding login_checked_def login_known_def
    by (rule vw.frame_intros vw.keeps_login_new vw.keeps_auto_rows vw.keeps_login_rows | simp)+
  from CheckLogin_entry [OF run c] un obtain pw user cliver w2 where
    "clients w2 = (clients w)(this \<mapsto> c\<lparr>PlayerSession := (PlayerSession c)\<lparr>
       password := memcpy_front (password (PlayerSession c)) pw, username := memcpy_front (username (PlayerSession c)) un\<rparr>\<rparr>)"
    and run2: "login_checked E this P user (memcpy_front (password (PlayerSession c)) pw) cliver w2 = Inr (r, w')"
    by (metis sum.inject(2))
  with k have "same_view (\<lambda>c. username (PlayerSession c)) this w2 w'" by (blast dest: keepsD)
  with \<open>clients w2 = _\<close> show ?thesis by (auto simp: same_view_def)
qed

text \<open>
  C16. The password can be passed by: let a client send a login request under any user name and then
  ask to enter the world. Whatever the database answered about the password, once the second packet has
  been handled on a working database the client is logged in, in the game and ready, and its session
  carries the user name of the request.
\<close>

theorem login_bypass:
  assumes login: "PacketControl E this sz P w = Inr (r, w1)" and op: "rd16 P 4 = Inr 0x020d"
    and c: "clients w this = Some c" and un: "rdn P 24 12 = Inr un"
    and enter: "PacketControl E this sz' P' w1 = Inr (True, w2)" and op': "rd16 P' 4 = Inr 0x0213"
    and works: "\<And>qs q. mysql_answer E qs q \<noteq> Sql_error"
  shows "\<exists>c2. clients w2 this = Some c2 \<and> isLoggedIn (PlayerSession c2) \<and> inGame (PlayerSession c2) \<and> ready c2 \<and>
    username (PlayerSession c2) = memcpy_front (username (PlayerSession c)) un"
proof -
  have l: "CheckLogin E this P w = Inr (r, w1)" and e: "SendToWorld E this P' w1 = Inr (True, w2)"
    using login op enter op' by (auto simp: PacketControl_def bnd_liftE split: sum.splits)
  obtain c1 where c1: "clients w1 this = Some c1" "username (PlayerSession c1) = memcpy_front (username (PlayerSession c)) un"
    using CheckLogin_username [OF l c un] by blast
  obtain c2 where c2: "clients w2 this = Some c2" "isLoggedIn (PlayerSession c2)" "inGame (PlayerSession c2)" "ready c2"
    using SendToWorld_flags [OF e works] by blast
  have "same_view identity this w1 w2" using identity_SendToWorld e by (rule keepsD)
  from same_viewD [OF this c1(1)] c1(2) c2 show ?thesis by (auto simp: identity_def Let_def)
qed

section \<open>Deleting a character\<close>

text \<open>
  C25. A character is deleted whoever owns it: once the database has confirmed the password of the session's
  own account and knows a character of the name in the packet, the request sends the statement that
  deletes the character of that name, the account taking no part in it.
\<close>

theorem delete_any_owner:
  assumes run: "CharDelete E this P w = Inr (r, w')" and c: "clients w this = Some c"
    and P: "rdn P 16 15 = Inr a" "cstr a = Inr name" "rdn P 32 12 = Inr b" "cstr b = Inr pwd"
    and user: "cstr (username (PlayerSession c)) = Inr user"
    and q1: "sprintf_buf 2000 account_query [VStr 0 user, VStr 0 pwd] = Inr q1" "mysql_answer E (queries w) q1 = Sql_ok [acc]"
    and q2: "sprintf_buf 2000 char_id_query [VStr 0 name] = Inr q2" "mysql_answer E (queries w @ [q1]) q2 = Sql_ok (row # rest)"
  shows "\<exists>q3 q4. sprintf_buf 2000 delete_char_query [VStr 0 name] = Inr q4 \<and>
    prefix (queries w @ [q1, q2, q3, q4]) (queries w')"
proof -
  define v where "v = w\<lparr>trace := trace w @ [Ev_Query q1, Ev_Query q2], queries := queries w @ [q1, q2], sqlres := row # rest\<rparr>"
  have "bnd (liftE (cell_arg row 0)) (\<lambda>arg. bnd (DoSQL E delete_items_query [arg]) (\<lambda>_.
      bnd (DoSQL E delete_char_query [VStr 0 name]) (\<lambda>_. ResendCharList E this P))) v = Inr (r, w')"
    using run c P user q1 q2 by (simp add: CharDelete_def bnd_liftE bnd_DoSQL mysql_store_result_def v_def)
  then obtain arg x u y u' where arg: "cell_arg row 0 = Inr arg" and d: "DoSQL E delete_items_query [arg] v = Inr (x, u)"
    "DoSQL E delete_char_query [VStr 0 name] u = Inr (y, u')" and res: "ResendCharList E this P u' = Inr (r, w')"
    by (auto simp: bnd_liftE bnd_eq_Inr split: sum.splits)
  obtain q3 where q3: "queries u = queries v @ [q3]"
    using d(1) by (auto simp: DoSQL_run Let_def split: sum.splits sql_result.splits)
  obtain q4 where q4: "sprintf_buf 2000 delete_char_query [VStr 0 name] = Inr q4" "queries u' = queries u @ [q4]"
    using d(2) by (auto simp: DoSQL_run Let_def split: sum.splits sql_result.splits)
  have "quiet u' w'" using quiet_char_lists(1) res by (rule keepsD)
  then have "prefix (queries u') (queries w')" by (simp add: quiet_def)
  then show ?thesis using q3 q4 by (auto simp: v_def)
qed

section \<open>The way in at work\<close>

text \<open>
  The account of \<open>login_packet\<close> exists, its password is wrong, and it has a character \<open>Hero\<close> with one item.
\<close>

definition hero_row :: sql_row where
  "hero_row = map (\<lambda>n. Some (of_nat n, ''5'')) [0..<16]"

definition world_env :: env where
  "world_env = sample_env\<lparr>mysql_answer := (\<lambda>qs q.
     if length qs = 0 then Sql_ok [[Some (0, ''b'')]]
     else if length qs = 1 then Sql_ok []
     else if length qs = 2 then Sql_ok [[Some (0, ''Hero'')]]
     else if length qs = 3 then Sql_ok [hero_row]
     else Sql_ok [sample_row])\<rparr>"

definition world_request :: cbuf where
  "world_request = \<lparr>blen = 16, bdat = (\<lambda>i. if i = 4 then 0x13 else if i = 5 then 2 else 0)\<rparr>"

lemmas login_request_read = login_packet_read(1-3,6) login_packet_opcode

lemma world_env_answer:
  "mysql_answer world_env qs q = (if length qs = 0 then Sql_ok [[Some (0, ''b'')]]
     else if length qs = 1 then Sql_ok [] else if length qs = 2 then Sql_ok [[Some (0, ''Hero'')]]
     else if length qs = 3 then Sql_ok [hero_row] else Sql_ok [sample_row])"
  by (simp add: world_env_def)

lemma refused_run:
  "\<exists>w1 q0 q1 c1. PacketControl world_env 1 94 login_packet login_world = Inr (True, w1) \<and> queries w1 = [q0, q1] \<and>
     clients w1 1 = Some c1 \<and> \<not> isLoggedIn (PlayerSession c1) \<and> cstr (username (PlayerSession c1)) = Inr ''b'' \<and>
     length (char_name (PlayerInfo c1)) = 30"
proof -
  obtain q0 q1 where q: "sprintf_buf 2000 login_query [VStr 0 ''b''] = Inr q0"
    "sprintf_buf 2000 login_pwd_query [VStr 0 ''b'', VStr 0 ''b''] = Inr q1" using login_queries by auto
  let ?c = "(sample_client 1 ''Ana'' 100 100 [2])\<lparr>PlayerSession :=
     (PlayerSession (sample_client 1 ''Ana'' 100 100 [2]))\<lparr>isLoggedIn := False\<rparr>\<rparr>"
  let ?s = "(PlayerSession ?c)\<lparr>password := memcpy_front (password (PlayerSession ?c)) (''b'' @ replicate 3 NUL @ ''b'' @ replicate 7 NUL),
     username := memcpy_front (username (PlayerSession ?c)) (''b'' @ replicate 7 NUL @ ''b'' @ replicate 3 NUL)\<rparr>"
  have world: "conf sample_world = sample_conf" "queries sample_world = []" "cliversion sample_conf = 747"
    "pwd_invalid (lang sample_world) = ''wrong password''"
    by (simp_all add: sample_world_def sample_conf_def sample_lang_def)
  have msg: "sprintf_buf 2000 ''wrong password'' [] = Inr ''wrong password''" by (simp add: sprintf_buf_def)
  obtain v where run: "CheckLogin world_env 1 login_packet login_world = SendServerMsg world_env 1 ''wrong password'' [] v"
    and v: "clients v 1 = Some (?c\<lparr>PlayerSession := ?s\<rparr>)" "queries v = [q0, q1]"
    unfolding CheckLogin_def bnd_liftE login_request_read sum.case bnd_modify
    using q by (simp add: login_world_def upd_session_def bnd_liftE login_texts bnd_DoSQL mysql_store_result_def world_env_answer
        world login_checked_def login_known_def)
  from SendServerMsg_run [OF v(1) msg, of world_env] obtain w1 where
    w1: "SendServerMsg world_env 1 ''wrong password'' [] v = Inr (True, w1)" "pk_only v w1" by blast
  have "PacketControl world_env 1 94 login_packet login_world = CheckLogin world_env 1 login_packet login_world"
    by (simp add: PacketControl_def bnd_liftE login_request_read)
  moreover have "cstr (username ?s) = Inr ''b''" "\<not> isLoggedIn ?s" "length (char_name (PlayerInfo ?c)) = 30"
    using login_texts(1) by (simp_all add: sample_client_def)
  ultimately show ?thesis
    using v pk_onlyD [OF w1(2)] w1(1) by (simp only: run) simp
qed

lemma hero_char:
  assumes "length qs = 2"
  shows "\<exists>q1 q2 q3. has_char world_env qs ''b'' 0 ''Hero'' (replicate 16 5) [[3, 400, 43, 0, 0, 9, 0, 0]] q1 q2 q3"
proof -
  have cells: "cells_u32 hero_row [0..<16] = Inr (replicate 16 5)" "cell hero_row 0 = Inr (0, ''5'')" by code_simp+
  have "dec_int (sint (varg_word (VInt 0))) = ''0''" by code_simp
  then have "\<exists>q. sprintf_buf 2000 select_char_query [VStr 0 ''b'', VInt (ucast (0 :: byte))] = Inr q"
    "\<exists>q. sprintf_buf 2000 load_char_query [VStr 0 ''Hero'', VStr 0 ''b''] = Inr q"
    "\<exists>q. sprintf_buf 2000 load_items_query [VStr 0 ''5''] = Inr q"
    by (simp_all add: sprintf_buf_def select_char_query_def load_char_query_def load_items_query_def)
  then show ?thesis
    using assms cells sample_row_cells by (fastforce simp: has_char_def world_env_answer)
qed
lemma hero_copied: "length a = 30 \<Longrightarrow> strcpy a ''Hero'' = Inr (''Hero'' @ NUL # drop 5 a)"
  by (simp add: strcpy_def eval_nat_numeral)


theorem login_bypass_witness:
  "\<exists>w1 c1 w2 c2. PacketControl world_env 1 94 login_packet login_world = Inr (True, w1) \<and> clients w1 1 = Some c1 \<and>
    \<not> isLoggedIn (PlayerSession c1) \<and> PacketControl world_env 1 16 world_request w1 = Inr (True, w2) \<and>
    clients w2 1 = Some c2 \<and> isLoggedIn (PlayerSession c2) \<and> cstr (username (PlayerSession c2)) = Inr ''b''"
proof -
  obtain w1 q0 q1 c1 where w1: "PacketControl world_env 1 94 login_packet login_world = Inr (True, w1)" "queries w1 = [q0, q1]"
    "clients w1 1 = Some c1" "\<not> isLoggedIn (PlayerSession c1)" "cstr (username (PlayerSession c1)) = Inr ''b''"
    "length (char_name (PlayerInfo c1)) = 30" using refused_run by blast
  obtain q2 q3 q4 where db: "has_char world_env (queries w1) ''b'' 0 ''Hero'' (replicate 16 5) [[3, 400, 43, 0, 0, 9, 0, 0]] q2 q3 q4"
    using hero_char [of "queries w1"] w1(2) by auto
  have P: "rd8 world_request 12 = Inr 0" "rd16 world_request 4 = Inr 0x0213" "rd16 world_request 6 = Inr 0" by code_simp+
  have hero: "NUL \<notin> set ''Hero''" "length ''Hero'' \<le> 29" by simp_all
  from SendToWorld_enters [OF w1(3,5) P(1) db hero hero_copied [OF w1(6)]]
  obtain w2 where "SendToWorld world_env 1 world_request w1 = Inr (True, w2)" by blast
  then have w2: "PacketControl world_env 1 16 world_request w1 = Inr (True, w2)" by (simp add: PacketControl_def bnd_liftE P)
  let ?c = "(sample_client 1 ''Ana'' 100 100 [2])\<lparr>PlayerSession :=
     (PlayerSession (sample_client 1 ''Ana'' 100 100 [2]))\<lparr>isLoggedIn := False\<rparr>\<rparr>"
  have c: "clients login_world 1 = Some ?c" by (simp add: login_world_def)
  have works: "mysql_answer world_env qs q \<noteq> Sql_error" for qs q by (simp add: world_env_answer)
  from login_bypass [OF w1(1) login_request_read(5) c login_request_read(3) w2 P(2) works] w1 w2 login_texts(1)
  show ?thesis by auto
qed

theorem delete_any_owner_witness:
  "\<exists>q4 w'. CharDelete (login_env 2) 1 login_packet login_world = Inr (False, w') \<and>
    sprintf_buf 2000 delete_char_query [VStr 0 ''b''] = Inr q4 \<and> q4 \<in> set (queries w')"
proof -
  let ?c = "(sample_client 1 ''Ana'' 100 100 [2])\<lparr>PlayerSession :=
     (PlayerSession (sample_client 1 ''Ana'' 100 100 [2]))\<lparr>isLoggedIn := False\<rparr>\<rparr>"
  have c: "clients login_world 1 = Some ?c" "queries login_world = []" by (simp_all add: login_world_def sample_world_def)
  have zero: "dec_int (sint (varg_word (VStr 0 ''7''))) = ''0''" by code_simp
  obtain q1 q2 q3 q4 q5 where q: "sprintf_buf 2000 account_query [VStr 0 ''Ana'', VStr 0 ''b''] = Inr q1"
    "sprintf_buf 2000 char_id_query [VStr 0 ''b''] = Inr q2" "sprintf_buf 2000 delete_items_query [VStr 0 ''7''] = Inr q3"
    "sprintf_buf 2000 delete_char_query [VStr 0 ''b''] = Inr q4" "sprintf_buf 2000 char_list_query [VStr 0 ''Ana''] = Inr q5"
    by (simp add: sprintf_buf_def account_query_def char_id_query_def delete_items_query_def delete_char_query_def
        char_list_query_def zero)
  have arg: "cell_arg [Some (0, ''7''), Some (0, ''1'')] 0 = Inr (VStr 0 ''7'')" by code_simp
  obtain w' where run: "CharDelete (login_env 2) 1 login_packet login_world = Inr (False, w')"
    unfolding CharDelete_def bnd_liftE login_packet_read sum.case
    using c q arg by (auto simp: bnd_liftE login_texts bnd_DoSQL mysql_store_result_def login_env_answer ret_apply
        ResendCharList_def bnd_assoc resend_header simp del: seqM.simps)
  have a: "mysql_answer (login_env 2) (queries login_world) q1 = Sql_ok [[Some (0, ''7''), Some (0, ''1'')]]"
    "mysql_answer (login_env 2) (queries login_world @ [q1]) q2 = Sql_ok ([Some (0, ''7''), Some (0, ''1'')] # [])"
    using c(2) by (simp_all add: login_env_answer)
  have t: "cstr (''b'' @ replicate 7 NUL @ ''b'' @ replicate 6 NUL) = Inr ''b''" "cstr (''b'' @ replicate 11 NUL) = Inr ''b''"
    "cstr (username (PlayerSession ?c)) = Inr ''Ana''"
    using login_texts by simp_all
  from delete_any_owner [OF run c(1) login_packet_read(5) t(1) login_packet_read(4) t(2) t(3) q(1) a(1) q(2) a(2)]
  obtain q3 q4 where q': "sprintf_buf 2000 delete_char_query [VStr 0 ''b''] = Inr q4" "prefix (queries login_world @ [q1, q2, q3, q4]) (queries w')"
    by blast
  then have "q4 \<in> set (queries w')" using set_mono_prefix by fastforce
  with q'(1) run show ?thesis by blast
qed

end
