(* ===== verification/Sockets.thy ===== *)
theory Sockets
  imports Sessions
begin

text \<open>
  The server socket: \<open>src/src/commom/socket_server.cpp\<close> and the overriding members of
  \<open>CConnServer\<close> in \<open>src/src/gameserver/game_server.cpp\<close>. What the operating system answers
  (\<open>socket\<close>, \<open>bind\<close>, \<open>listen\<close>, \<open>select\<close>, \<open>accept\<close>, \<open>recv\<close>, the key file) is an
  argument: \<open>start_in\<close> for the start, one \<open>loop_in\<close> per round of \<open>ServerLoop\<close>. The loop
  itself runs forever in the code; \<open>server_run\<close> runs it on a list of rounds of any length.

  The locale \<open>round_invariant\<close> states what an invariant must satisfy to hold through every round: to be kept
  by connecting, receiving and disconnecting. It is interpreted for \<open>cl_inv\<close>, the invariant of the client list (no client
  twice, exactly the living objects, all of them older than the next address), and for the well-formedness of all records.
\<close>

section \<open>Clients\<close>

definition mem_client :: "bytes \<Rightarrow> CConnClient" where
  "mem_client m = \<lparr>sock = w32 m 0, isActive = (m 4 \<noteq> 0), PSize = sint (w32 m 8), recvpkts = w32 m 12,
     cl_KeysLogin = (\<lambda>i. m (16 + i)),
     PlayerSession = \<lparr>clientid = w32 m 32, charid = w32 m 36, userid = w32 m 40,
       username = map (\<lambda>i. b2c (m (44 + i))) [0..<17], password = map (\<lambda>i. b2c (m (61 + i))) [0..<33],
       accesslevel = w32 m 96, isLoggedIn = (m 100 \<noteq> 0), inGame = (m 101 \<noteq> 0)\<rparr>,
     PlayerStats = \<lparr>MaxHP = w16 m 104, MaxMP = w16 m 106, HP = w16 m 108, MP = w16 m 110,
       MaxWeight = w32 m 112, Weight = w32 m 116, Str = w16 m 120, Dex = w16 m 122, Intel = w16 m 124,
       Con = w16 m 126, Attack_Power = w32 m 128, Defense = w32 m 132, Magic_Defense = w32 m 136,
       Accury = w32 m 140, Critical = w32 m 144, Dodge = w32 m 148, Attack_Speed = w32 m 152,
       Move_Speed = w32 m 156\<rparr>,
     PlayerInfo = \<lparr>char_name = map (\<lambda>i. b2c (m (160 + i))) [0..<30], mobid = w32 m 192, classid = w32 m 196,
       Exp = w32 m 200, Level = w32 m 204, Gold = w32 m 208, Storage_Gold = w32 m 212,
       StatPoints = w32 m 216, SkillPoints = w32 m 220\<rparr>,
     PlayerPosition = \<lparr>source = \<lparr>fx = NaN, fy = NaN\<rparr>, current = \<lparr>fx = NaN, fy = NaN\<rparr>,
       destiny = \<lparr>fx = NaN, fy = NaN\<rparr>, respawn = w32 m 224, saved = w32 m 228, pos_lastMoveTime = w32 m 232\<rparr>,
     PlayerTime = \<lparr>lastAttackTime = w32 m 236, lastRegenTime = w32 m 240, lastMoveTime = w32 m 244,
       lastSaveTime = w32 m 248, lastGG = w32 m 252, initSkill = w32 m 256\<rparr>,
     ready = (m 260 \<noteq> 0), Saved = (m 261 \<noteq> 0), targetid = w32 m 264, isInvisibleMode = (m 268 \<noteq> 0),
     VisibleClients = [], VisibleNPCs = [], items = (\<lambda>j. mem_item m (272 + 28 * j))\<rparr>"

definition CreateClientSocket :: "env \<Rightarrow> nat act" where
  "CreateClientSocket E =
     bnd tickM (\<lambda>a.
     bnd (memoryM E) (\<lambda>heap.
     bnd (modify (\<lambda>w. w\<lparr>clients := (clients w)(a \<mapsto> CConnClient_new (mem_client heap))\<rparr>)) (\<lambda>_.
     ret a)))"

definition OnClientConnect :: "nat \<Rightarrow> bool act" where
  "OnClientConnect this = ret True"

definition OnClientDisconnect :: "nat \<Rightarrow> unit act" where
  "OnClientDisconnect this = ret ()"

definition DeleteClientSocket :: "nat \<Rightarrow> unit act" where
  "DeleteClientSocket this = modify (\<lambda>w. w\<lparr>clients := (clients w)(this := None)\<rparr>)"

definition AddUser :: "env \<Rightarrow> u32 \<Rightarrow> unit act" where
  "AddUser E s =
     bnd (CreateClientSocket E) (\<lambda>this.
     bnd (upd_client this (\<lambda>c. c\<lparr>sock := s, isActive := True\<rparr>)) (\<lambda>_.
     bnd (OnClientConnect this) (\<lambda>ok.
     if \<not> ok then
       bnd (emit (Ev_Close s)) (\<lambda>_.
       DeleteClientSocket this)
     else modify (\<lambda>w. w\<lparr>ClientList := ClientList w @ [this]\<rparr>))))"

definition DisconnectClient :: "nat \<Rightarrow> unit act" where
  "DisconnectClient this =
     bnd (OnClientDisconnect this) (\<lambda>_.
     bnd (client this) (\<lambda>c.
     bnd (emit (Ev_Close (sock c))) (\<lambda>_.
     bnd (upd_client this (\<lambda>c. c\<lparr>sock := INVALID_SOCKET, isActive := False\<rparr>)) (\<lambda>_.
     bnd (modify (\<lambda>w. w\<lparr>ClientList := remove1 this (ClientList w)\<rparr>)) (\<lambda>_.
     DeleteClientSocket this)))))"

definition disconnect_loop :: "nat \<Rightarrow> unit act" where
  "disconnect_loop a =
     bnd (client a) (\<lambda>c. whenM (inGame (PlayerSession c)) (upd_client a (\<lambda>c. c\<lparr>isActive := False\<rparr>)))"

definition DisconnectAll :: "unit act" where
  "DisconnectAll = bnd (gets ClientList) (\<lambda>cs. forM_list cs disconnect_loop)"

lemma DisconnectClient_eq:
  "DisconnectClient a w =
     (case clients w a of
        None \<Rightarrow> Inl Dangling
      | Some c \<Rightarrow> Inr ((), w\<lparr>trace := trace w @ [Ev_Close (sock c)], clients := (clients w)(a := None),
          ClientList := remove1 a (ClientList w)\<rparr>))"
  by (simp add: DisconnectClient_def OnClientDisconnect_def DeleteClientSocket_def modify_def split: option.split)

section \<open>The loops over the client list\<close>

text \<open>
  Both loops index \<open>ClientList\<close> while \<open>DisconnectClient\<close> may shorten it: after an erase the index
  still advances.
\<close>

function fill_fds :: "nat \<Rightarrow> u32 list \<Rightarrow> u32 list act" where
  "fill_fds i fds w =
     (if length (ClientList w) \<le> i then Inr (fds, w)
      else
        (let a = ClientList w ! i in
         case client a w of
           Inl e \<Rightarrow> Inl e
         | Inr (c, w1) \<Rightarrow>
             if isActive c then fill_fds (i + 1) (fds @ [sock c]) w
             else
               (case DisconnectClient a w of
                  Inl e \<Rightarrow> Inl e
                | Inr (_, w') \<Rightarrow> fill_fds (i + 1) fds w')))"
  by pat_completeness auto
termination
  by (relation "measure (\<lambda>(i, fds, w). length (ClientList w) - i)")
    (auto simp: DisconnectClient_eq length_remove1 split: option.splits)

definition FillFDS :: "u32 list act" where
  "FillFDS = fill_fds 0 []"

lemma ReceiveData_list: "ReceiveData E a bs w = Inr (r, w') \<Longrightarrow> ClientList w' = ClientList w"
  using keepsD [OF own_ReceiveData] by (auto simp: own_def)

text \<open>\<open>data s\<close> is what \<open>recv\<close> delivers on socket \<open>s\<close> in this round.\<close>

function handle_clients :: "env \<Rightarrow> (u32 \<Rightarrow> byte list) \<Rightarrow> u32 list \<Rightarrow> nat \<Rightarrow> unit act" where
  "handle_clients E data fds i w =
     (if length (ClientList w) \<le> i then Inr ((), w)
      else
        (let a = ClientList w ! i in
         case client a w of
           Inl e \<Rightarrow> Inl e
         | Inr (c, w1) \<Rightarrow>
             if isActive c \<and> sock c \<in> set fds then
               (case ReceiveData E a (data (sock c)) w of
                  Inl e \<Rightarrow> Inl e
                | Inr (ok, w2) \<Rightarrow>
                    if ok then handle_clients E data fds (i + 1) w2
                    else
                      (case DisconnectClient a w2 of
                         Inl e \<Rightarrow> Inl e
                       | Inr (_, w3) \<Rightarrow> handle_clients E data fds (i + 1) w3))
             else handle_clients E data fds (i + 1) w))"
  by pat_completeness auto
termination
  by (relation "measure (\<lambda>(E, data, fds, i, w). length (ClientList w) - i)")
    (auto simp: DisconnectClient_eq length_remove1 dest: ReceiveData_list split: option.splits)

declare fill_fds.simps [simp del] handle_clients.simps [simp del]

definition HandleClients :: "env \<Rightarrow> (u32 \<Rightarrow> byte list) \<Rightarrow> u32 list \<Rightarrow> unit act" where
  "HandleClients E data fds = handle_clients E data fds 0"

section \<open>The server loop\<close>

record loop_in =
  activity :: int
  eintr :: bool
  readyfds :: "u32 list"
  accepted :: u32
  received :: "u32 \<Rightarrow> byte list"

definition server_iter :: "env \<Rightarrow> loop_in \<Rightarrow> unit act" where
  "server_iter E inp =
     bnd FillFDS (\<lambda>fds.
     bnd (gets srv_sock) (\<lambda>s.
     let fds = filter (\<lambda>x. x \<in> set (readyfds inp)) (fds @ [s]) in
     if activity inp = 0 then ret ()
     else
       bnd (whenM (activity inp < 0 \<and> \<not> eintr inp) (modify (\<lambda>w. w\<lparr>srv_isActive := False\<rparr>))) (\<lambda>_.
       bnd (whenM (s \<in> set fds \<and> accepted inp \<noteq> INVALID_SOCKET) (AddUser E (accepted inp))) (\<lambda>_.
       HandleClients E (received inp) fds))))"

fun server_run :: "env \<Rightarrow> loop_in list \<Rightarrow> unit act" where
  "server_run E [] = ret ()"
| "server_run E (inp # inps) =
     bnd (server_iter E inp) (\<lambda>_.
     bnd (gets srv_isActive) (\<lambda>act. if act then server_run E inps else ret ()))"

section \<open>Starting\<close>

record key_file =
  kf_handle :: u32
  kf_size :: u32
  kf_seek :: u32
  kf_read :: bool
  kf_data :: bytes
  kf_close :: bool

definition KEYSIZE :: nat where
  "KEYSIZE = 512"

definition ReadKeysFromFile :: "key_file \<Rightarrow> bytes \<Rightarrow> nat \<times> bytes" where
  "ReadKeysFromFile k dest =
     (if kf_handle k = 0 \<or> kf_size k \<noteq> of_nat KEYSIZE then (1, dest)
      else if kf_seek k = 0xFFFFFFFF then (2, dest)
      else if \<not> kf_read k then (3, dest)
      else
        (let dest' = (\<lambda>i. if i < KEYSIZE then kf_data k i else dest i)
         in if \<not> kf_close k then (4, dest') else (0, dest')))"

definition OnServerReady :: "key_file \<Rightarrow> bool act" where
  "OnServerReady k =
     bnd (modify (\<lambda>w. w\<lparr>ServerOnline := True, CKeys := snd (ReadKeysFromFile k (CKeys w))\<rparr>)) (\<lambda>_. ret True)"

record start_in =
  so_socket :: u32
  so_bind :: int
  so_listen :: int
  so_keys :: key_file

definition close_server :: "bool act" where
  "close_server =
     bnd (gets srv_sock) (\<lambda>s.
     bnd (emit (Ev_Close s)) (\<lambda>_.
     bnd (modify (\<lambda>w. w\<lparr>srv_sock := INVALID_SOCKET\<rparr>)) (\<lambda>_. ret False)))"

definition StartServer :: "env \<Rightarrow> start_in \<Rightarrow> loop_in list \<Rightarrow> bool act" where
  "StartServer E st inps =
     bnd (modify (\<lambda>w. w\<lparr>srv_sock := so_socket st\<rparr>)) (\<lambda>_.
     if so_socket st = INVALID_SOCKET then ret False
     else if so_bind st \<noteq> 0 then close_server
     else if so_listen st = -1 then close_server
     else
       bnd (modify (\<lambda>w. w\<lparr>srv_isActive := True\<rparr>)) (\<lambda>_.
       bnd (OnServerReady (so_keys st)) (\<lambda>ok.
       if \<not> ok then
         bnd close_server (\<lambda>_.
         bnd (modify (\<lambda>w. w\<lparr>srv_isActive := False\<rparr>)) (\<lambda>_. ret False))
       else
         bnd (server_run E inps) (\<lambda>_.
         bnd (gets srv_sock) (\<lambda>s.
         bnd (emit (Ev_Close s)) (\<lambda>_. ret True))))))"

text \<open>
  The constructors, base class first: no socket, not active, empty lists; then every id but the last
  is free and the four loaders run.
\<close>

definition CServerSocket_new :: "world \<Rightarrow> world" where
  "CServerSocket_new w = w\<lparr>srv_sock := INVALID_SOCKET, srv_isActive := False, ClientList := [],
     NPCList := [], EquipList := []\<rparr>"

definition CConnServer_new :: "env \<Rightarrow> unit act" where
  "CConnServer_new E =
     bnd (modify CServerSocket_new) (\<lambda>_.
     bnd (modify (\<lambda>w. w\<lparr>ClientIDList := (\<lambda>i. if i < 65535 then 1 else ClientIDList w i)\<rparr>)) (\<lambda>_.
     bnd (LoadConfigs E) (\<lambda>_.
     bnd (LoadLanguage E) (\<lambda>_.
     bnd (LoadNPCList E) (\<lambda>_.
     bnd (LoadItemList E) (\<lambda>_. ret ()))))))"

section \<open>The invariant of the client list\<close>

definition cl_inv :: "world \<Rightarrow> bool" where
  "cl_inv w \<longleftrightarrow> distinct (ClientList w) \<and> set (ClientList w) = dom (clients w) \<and>
     (\<forall>a \<in> dom (clients w). a < tick w)"

lemma cl_inv_own: "own this w w' \<Longrightarrow> cl_inv w \<Longrightarrow> cl_inv w'"
  unfolding cl_inv_def own_def by (metis less_le_trans)

lemma cl_inv_ReceiveData: "ReceiveData E a bs w = Inr (r, w') \<Longrightarrow> cl_inv w \<Longrightarrow> cl_inv w'"
  using keepsD [OF own_ReceiveData] cl_inv_own by blast

lemma cl_inv_alive: "cl_inv w \<Longrightarrow> a \<in> set (ClientList w) \<Longrightarrow> \<exists>c. clients w a = Some c"
  by (auto simp: cl_inv_def)

lemma cl_inv_nth: "cl_inv w \<Longrightarrow> i < length (ClientList w) \<Longrightarrow> \<exists>c. clients w (ClientList w ! i) = Some c"
  by (rule cl_inv_alive) simp_all

lemma cl_inv_DisconnectClient: "DisconnectClient a w = Inr (x, w') \<Longrightarrow> cl_inv w \<Longrightarrow> cl_inv w'"
  by (auto simp: DisconnectClient_eq cl_inv_def split: option.splits if_splits)

lemma CreateClientSocket_run:
  "CreateClientSocket E w = Inr (tick w, w\<lparr>tick := tick w + 2,
     clients := (clients w)(tick w \<mapsto> CConnClient_new (mem_client (memory_at E (tick w + 1))))\<rparr>)"
  by (simp add: CreateClientSocket_def modify_def ret_def)

lemma AddUser_run:
  "AddUser E s w = Inr ((), w\<lparr>tick := tick w + 2,
     clients := (clients w)(tick w \<mapsto> (CConnClient_new (mem_client (memory_at E (tick w + 1))))\<lparr>sock := s, isActive := True\<rparr>),
     ClientList := ClientList w @ [tick w]\<rparr>)"
  by (simp add: AddUser_def CreateClientSocket_run OnClientConnect_def modify_def)

lemma cl_inv_AddUser: "AddUser E s w = Inr (x, w') \<Longrightarrow> cl_inv w \<Longrightarrow> cl_inv w'"
proof -
  assume "AddUser E s w = Inr (x, w')" "cl_inv w"
  moreover from this(2) have "tick w \<notin> dom (clients w)" by (auto simp: cl_inv_def)
  ultimately show ?thesis
    unfolding AddUser_run by (auto simp: cl_inv_def less_Suc_eq)
qed

text \<open>
  What a round must respect for a property of the server to be an invariant of the loop: disconnecting,
  receiving, connecting and the flag that ends the loop.
\<close>

locale round_invariant =
  fixes I :: "world \<Rightarrow> bool"
  assumes inv_disconnect: "DisconnectClient a w = Inr (x, w') \<Longrightarrow> I w \<Longrightarrow> I w'"
    and inv_receive: "ReceiveData E a bs w = Inr (r, w') \<Longrightarrow> I w \<Longrightarrow> I w'"
    and inv_connect: "AddUser E s w = Inr (x, w') \<Longrightarrow> I w \<Longrightarrow> I w'"
    and inv_flag: "I w \<Longrightarrow> I (w\<lparr>srv_isActive := b\<rparr>)"
begin

lemma inv_fill_fds: "fill_fds i fds w = Inr (r, w') \<Longrightarrow> I w \<Longrightarrow> I w'"
proof (induction i fds w rule: fill_fds.induct)
  case (1 i fds w)
  show ?case
  proof (cases "length (ClientList w) \<le> i")
    case True
    with "1.prems" show ?thesis by (simp add: fill_fds.simps [of i fds w])
  next
    case False
    then obtain c where c: "client (ClientList w ! i) w = Inr (c, w)"
      using "1.prems"(1) by (auto simp: fill_fds.simps [of i fds w] client_def Let_def split: option.splits)
    show ?thesis
    proof (cases "isActive c")
      case True
      with False c "1.prems" show ?thesis
        using "1.IH"(1) [OF False refl c refl True] by (simp add: fill_fds.simps [of i fds w])
    next
      case inactive: False
      then obtain w1 where w1: "DisconnectClient (ClientList w ! i) w = Inr ((), w1)" "fill_fds (i + 1) fds w1 = Inr (r, w')"
        using False c "1.prems"(1) by (auto simp: fill_fds.simps [of i fds w] Let_def split: sum.splits)
      from "1.IH"(2) [OF False refl c refl inactive w1(1) refl w1(2)] show ?thesis
        using inv_disconnect [OF w1(1) "1.prems"(2)] by simp
    qed
  qed
qed

lemma inv_handle_clients: "handle_clients E data fds i w = Inr (r, w') \<Longrightarrow> I w \<Longrightarrow> I w'"
proof (induction E data fds i w rule: handle_clients.induct)
  case (1 E data fds i w)
  show ?case
  proof (cases "length (ClientList w) \<le> i")
    case True
    with "1.prems" show ?thesis by (simp add: handle_clients.simps [of E data fds i w])
  next
    case False
    then obtain c where c: "client (ClientList w ! i) w = Inr (c, w)"
      using "1.prems"(1) by (auto simp: handle_clients.simps [of E data fds i w] client_def Let_def split: option.splits)
    show ?thesis
    proof (cases "isActive c \<and> sock c \<in> set fds")
      case skip: False
      with False c "1.prems" show ?thesis
        using "1.IH"(3) [OF False refl c refl skip] by (simp add: handle_clients.simps [of E data fds i w])
    next
      case True
      then obtain ok w2 where w2: "ReceiveData E (ClientList w ! i) (data (sock c)) w = Inr (ok, w2)"
        using False c "1.prems"(1) by (auto simp: handle_clients.simps [of E data fds i w] Let_def split: sum.splits)
      have inv2: "I w2" using inv_receive [OF w2 "1.prems"(2)] .
      show ?thesis
      proof (cases ok)
        case ok: True
        with False c True w2 "1.prems" show ?thesis
          using "1.IH"(1) [OF False refl c refl True w2 refl ok] inv2 by (simp add: handle_clients.simps [of E data fds i w])
      next
        case no: False
        then obtain w3 where w3: "DisconnectClient (ClientList w ! i) w2 = Inr ((), w3)"
          "handle_clients E data fds (i + 1) w3 = Inr (r, w')"
          using False c True w2 "1.prems"(1) by (auto simp: handle_clients.simps [of E data fds i w] Let_def split: sum.splits)
        from "1.IH"(2) [OF False refl c refl True w2 refl no w3(1) refl w3(2)] show ?thesis
          using inv_disconnect [OF w3(1) inv2] by simp
      qed
    qed
  qed
qed

lemma inv_server_iter: "server_iter E inp w = Inr (x, w') \<Longrightarrow> I w \<Longrightarrow> I w'"
proof -
  assume r: "server_iter E inp w = Inr (x, w')" and inv: "I w"
  obtain fds w1 where f: "FillFDS w = Inr (fds, w1)"
    using r by (auto simp: server_iter_def bnd_eq_Inr)
  have "I w1" using inv_fill_fds f inv by (auto simp: FillFDS_def)
  with r f show ?thesis
    by (auto simp: server_iter_def bnd_eq_Inr Let_def gets_def whenM_def modify_def HandleClients_def
        split: if_splits intro: inv_handle_clients inv_connect inv_flag dest: inv_connect [OF _ inv_flag])
qed

lemma inv_server_run: "server_run E inps w = Inr (x, w') \<Longrightarrow> I w \<Longrightarrow> I w'"
proof (induction inps arbitrary: w)
  case Nil
  then show ?case by simp
next
  case (Cons inp inps)
  then obtain y w1 where w1: "server_iter E inp w = Inr (y, w1)"
    "(if srv_isActive w1 then server_run E inps else ret ()) w1 = Inr (x, w')"
    by (auto simp: bnd_eq_Inr gets_def)
  have "I w1" using inv_server_iter [OF w1(1) Cons.prems(2)] .
  with w1(2) Cons.IH show ?case by (auto split: if_splits)
qed

end

interpretation cl: round_invariant cl_inv
proof unfold_locales
  show "cl_inv (w\<lparr>srv_isActive := b\<rparr>)" if "cl_inv w" for w b using that by (simp add: cl_inv_def)
qed (fact cl_inv_DisconnectClient cl_inv_ReceiveData cl_inv_AddUser)+

text \<open>Every client record stays well formed: a new one is, and packets keep it so.\<close>

lemma wf_connected: "wf_client ((CConnClient_new (mem_client m))\<lparr>sock := s, isActive := True\<rparr>)"
  using wf_new_client [of "mem_client m"] by (simp add: wf_client_def mem_client_def)

interpretation wf: round_invariant "all_clients wf_client"
proof unfold_locales
  show "all_clients wf_client w'" if "DisconnectClient a w = Inr (x, w')" "all_clients wf_client w" for a w x w'
    using that by (auto simp: DisconnectClient_eq all_clients_def split: option.splits if_splits)
  show "all_clients wf_client w'" if "ReceiveData E a bs w = Inr (r, w')" "all_clients wf_client w" for E a bs w r w'
    using keepsD [OF typed_ReceiveData that(1)] that(2) by (simp add: typed_def)
  show "all_clients wf_client w'" if "AddUser E s w = Inr (x, w')" "all_clients wf_client w" for E s w x w'
    using that by (auto simp: AddUser_run all_clients_def wf_connected split: if_splits)
  show "all_clients wf_client (w\<lparr>srv_isActive := b\<rparr>)" if "all_clients wf_client w" for w b
    using that by (simp add: all_clients_def)
qed

lemma fill_fds_total: "cl_inv w \<Longrightarrow> \<exists>r w'. fill_fds i fds w = Inr (r, w')"
proof (induction i fds w rule: fill_fds.induct)
  case (1 i fds w)
  show ?case
  proof (cases "length (ClientList w) \<le> i")
    case True
    then show ?thesis by (simp add: fill_fds.simps [of i fds w])
  next
    case False
    then obtain c where c: "clients w (ClientList w ! i) = Some c" using cl_inv_nth "1.prems" by force
    show ?thesis
    proof (cases "isActive c")
      case True
      with False c "1.prems" show ?thesis
        using "1.IH"(1) [OF False refl client_ok [OF c] refl True] by (simp add: fill_fds.simps [of i fds w])
    next
      case inactive: False
      obtain w1 where w1: "DisconnectClient (ClientList w ! i) w = Inr ((), w1)"
        using c by (simp add: DisconnectClient_eq)
      from "1.IH"(2) [OF False refl client_ok [OF c] refl inactive w1 refl cl_inv_DisconnectClient [OF w1 "1.prems"]]
      show ?thesis using False c w1 inactive by (simp add: fill_fds.simps [of i fds w])
    qed
  qed
qed

section \<open>Erasing while looping\<close>

lemma fill_fds_active:
  "\<forall>a \<in> set (drop i (ClientList w)). \<exists>c. clients w a = Some c \<and> isActive c \<Longrightarrow>
     fill_fds i fds w = Inr (fds @ map (\<lambda>a. sock (the (clients w a))) (drop i (ClientList w)), w)"
proof (induction i fds w rule: fill_fds.induct)
  case (1 i fds w)
  show ?case
  proof (cases "length (ClientList w) \<le> i")
    case True
    then show ?thesis by (simp add: fill_fds.simps [of i fds w])
  next
    case False
    then have d: "drop i (ClientList w) = ClientList w ! i # drop (i + 1) (ClientList w)"
      by (simp add: Cons_nth_drop_Suc)
    with "1.prems" obtain c where c: "clients w (ClientList w ! i) = Some c" "isActive c" by auto
    from "1.IH"(1) [OF False refl client_ok [OF c(1)] refl c(2)] "1.prems" False c d show ?thesis
      by (simp add: fill_fds.simps [of i fds w])
  qed
qed

text \<open>
  With every client active, building the descriptor set disconnects nobody and yields exactly the
  clients' sockets, in the order of the list.
\<close>

lemma FillFDS_exact:
  assumes "\<forall>a \<in> set (ClientList w). \<exists>c. clients w a = Some c \<and> isActive c"
  shows "FillFDS w = Inr (map (\<lambda>a. sock (the (clients w a))) (ClientList w), w)"
  using fill_fds_active [of 0 w "[]"] assms by (simp add: FillFDS_def)

text \<open>
  What one pass of \<open>FillFDS\<close> does to the list: an active client stays and its socket is put into the set; an inactive one
  goes, and the client that takes its place is passed over, so it stays, active or not, and its socket is not put into the
  set. \<open>sweep\<close> are the clients that stay and \<open>swept_in\<close> those whose sockets are in the set.
\<close>

fun sweep :: "(nat \<Rightarrow> bool) \<Rightarrow> nat list \<Rightarrow> nat list" where
  "sweep act [] = []"
| "sweep act [a] = (if act a then [a] else [])"
| "sweep act (a # b # as) = (if act a then a # sweep act (b # as) else b # sweep act as)"

fun swept_in :: "(nat \<Rightarrow> bool) \<Rightarrow> nat list \<Rightarrow> nat list" where
  "swept_in act [] = []"
| "swept_in act [a] = (if act a then [a] else [])"
| "swept_in act (a # b # as) = (if act a then a # swept_in act (b # as) else swept_in act as)"

lemma sweep_subset: "set (sweep act as) \<subseteq> set as"
  by (induction act as rule: sweep.induct) auto

lemma fill_fds_keep:
  assumes "ClientList w = pre @ a # as" "clients w a = Some c" "isActive c"
  shows "fill_fds (length pre) fds w = fill_fds (length (pre @ [a])) (fds @ [sock c]) w"
  using assms by (simp add: fill_fds.simps [of "length pre"] client_def)

lemma fill_fds_drop:
  assumes "ClientList w = pre @ a # as" "clients w a = Some c" "\<not> isActive c" "a \<notin> set pre"
  shows "fill_fds (length pre) fds w = fill_fds (Suc (length pre)) fds
    (w\<lparr>trace := trace w @ [Ev_Close (sock c)], clients := (clients w)(a := None), ClientList := pre @ as\<rparr>)"
  using assms by (simp add: fill_fds.simps [of "length pre" fds w] client_def DisconnectClient_eq remove1_append)

lemma fill_fds_sweep:
  assumes "ClientList w = pre @ as" "distinct (pre @ as)"
    and "\<And>a. a \<in> set as \<Longrightarrow> \<exists>c. clients w a = Some c \<and> act a = isActive c \<and> so a = sock c"
  shows "\<exists>w'. fill_fds (length pre) fds w = Inr (fds @ map so (swept_in act as), w') \<and>
    ClientList w' = pre @ sweep act as \<and>
    clients w' = (\<lambda>a. if a \<in> set as - set (sweep act as) then None else clients w a)"
  using assms
proof (induction act as arbitrary: pre fds w rule: sweep.induct)
  case (1 act)
  then show ?case by (simp add: fill_fds.simps [of "length pre"])
next
  case (2 act a)
  then obtain c where c: "clients w a = Some c" "act a = isActive c" "so a = sock c" by auto
  show ?case
  proof (cases "act a")
    case True
    with 2 c show ?thesis by (simp add: fill_fds_keep [where as = "[]"] fill_fds.simps [of "Suc (length pre)"])
  next
    case False
    with 2 c show ?thesis
      by (auto simp: fill_fds_drop [where as = "[]"] fill_fds.simps [of "Suc (length pre)"])
  qed
next
  case (3 act a b as)
  obtain c where c: "clients w a = Some c" "act a = isActive c" "so a = sock c" using "3.prems"(3) [of a] by auto
  show ?case
  proof (cases "act a")
    case True
    have "\<exists>w'. fill_fds (length (pre @ [a])) (fds @ [so a]) w = Inr ((fds @ [so a]) @ map so (swept_in act (b # as)), w') \<and>
        ClientList w' = (pre @ [a]) @ sweep act (b # as) \<and>
        clients w' = (\<lambda>x. if x \<in> set (b # as) - set (sweep act (b # as)) then None else clients w x)"
      by (rule "3.IH"(1) [OF True]) (use "3.prems" in auto)
    moreover have "fill_fds (length pre) fds w = fill_fds (length (pre @ [a])) (fds @ [so a]) w"
      using fill_fds_keep [OF "3.prems"(1) c(1)] True c by simp
    moreover have "a \<notin> set (b # as)" using "3.prems"(2) by auto
    ultimately show ?thesis using True by (auto simp: fun_eq_iff)
  next
    case False
    let ?w = "w\<lparr>trace := trace w @ [Ev_Close (sock c)], clients := (clients w)(a := None), ClientList := pre @ b # as\<rparr>"
    have "\<exists>w'. fill_fds (length (pre @ [b])) fds ?w = Inr (fds @ map so (swept_in act as), w') \<and>
        ClientList w' = (pre @ [b]) @ sweep act as \<and>
        clients w' = (\<lambda>x. if x \<in> set as - set (sweep act as) then None else clients ?w x)"
      by (rule "3.IH"(2) [OF False]) (use "3.prems" in auto)
    moreover have "fill_fds (length pre) fds w = fill_fds (length (pre @ [b])) fds ?w"
      using fill_fds_drop [OF "3.prems"(1) c(1)] False c "3.prems"(2) by simp
    moreover have "a \<notin> set (b # as)" "b \<notin> set as" "set (sweep act as) \<subseteq> set as" using "3.prems"(2) sweep_subset by auto
    ultimately show ?thesis using False by (auto simp: fun_eq_iff)
  qed
qed


definition idle_client :: "u32 \<Rightarrow> CConnClient" where
  "idle_client n = (sample_client n ''Ana'' 100 100 [])\<lparr>isActive := False\<rparr>"

definition idle_world :: world where
  "idle_world = sample_world\<lparr>ClientList := [7, 1, 2, 8], clients := [7 \<mapsto> idle_client 7, 1 \<mapsto> idle_client 1,
     2 \<mapsto> idle_client 2, 8 \<mapsto> sample_client 8 ''Bob'' 0 0 []]\<rparr>"


text \<open>
  C36. The lists of visible clients are not told about a disconnect: once a client has been
  disconnected, the next chat line of anybody who still has it in its list follows a dangling pointer.
\<close>

theorem disconnect_dangles:
  assumes gone: "DisconnectClient b w = Inr ((), w1)" and c: "clients w this = Some c" "this \<noteq> b"
    and vis: "b \<in> set (VisibleClients c)" and P: "109 \<le> blen P"
  shows "SendChat E this P w1 = Inl Dangling"
proof -
  have "clients w1 b = None" "clients w1 this = Some c"
    using gone c by (auto simp: DisconnectClient_eq split: option.splits)
  moreover obtain p where "seqM [Free, AddPrefix P 109] (packet w1) = Inr ((), p)"
    using relay_layout [of 109 P] P by (auto elim: laysE)
  ultimately show ?thesis
    using SendToVisible_dangling [of "w1\<lparr>packet := p\<rparr>" this c b] vis
    by (simp add: SendChat_def on_packet_ok del: seqM.simps)
qed

theorem disconnect_dangles_witness:
  "\<exists>w1. DisconnectClient 2 sample_world = Inr ((), w1) \<and> SendChat sample_env 1 (sample_packet 109) w1 = Inl Dangling"
proof -
  let ?c = "sample_client 1 ''Ana'' 100 100 [2]"
  obtain w1 where gone: "DisconnectClient 2 sample_world = Inr ((), w1)" by (simp add: DisconnectClient_eq)
  have "clients sample_world 1 = Some ?c" "(1 :: nat) \<noteq> 2" "2 \<in> set (VisibleClients ?c)" "109 \<le> blen (sample_packet 109)"
    by (simp_all add: sample_client_def)
  from disconnect_dangles [OF gone this, of sample_env] gone show ?thesis by blast
qed

section \<open>Starting and its failures\<close>

text \<open>
  The key file: exactly when every step succeeds on a file of 512 bytes the result code is 0, and
  then the first 512 key bytes are those of the file; codes 1 to 3 leave the keys as they were.
\<close>

lemma ReadKeysFromFile_code:
  "(fst (ReadKeysFromFile k d) = 0 \<longleftrightarrow> kf_handle k \<noteq> 0 \<and> kf_size k = 512 \<and> kf_seek k \<noteq> 0xFFFFFFFF \<and> kf_read k \<and> kf_close k) \<and>
   snd (ReadKeysFromFile k d) = (\<lambda>i. if fst (ReadKeysFromFile k d) \<in> {0, 4} \<and> i < 512 then kf_data k i else d i) \<and>
   fst (ReadKeysFromFile k d) \<le> 4"
  by (simp add: ReadKeysFromFile_def KEYSIZE_def Let_def)

text \<open>
  A server that cannot bind or listen closes its socket again, reports failure and starts nothing:
  no client is read, nothing but the socket changes.
\<close>

lemma StartServer_refused:
  assumes "so_socket st \<noteq> INVALID_SOCKET" and "so_bind st \<noteq> 0 \<or> so_listen st = -1"
  shows "StartServer E st inps w =
    Inr (False, w\<lparr>srv_sock := INVALID_SOCKET, trace := trace w @ [Ev_Close (so_socket st)]\<rparr>)"
  using assms by (auto simp: StartServer_def close_server_def emit_def ret_def)

definition no_keys :: key_file where
  "no_keys = \<lparr>kf_handle = 0, kf_size = 0, kf_seek = 0, kf_read = False, kf_data = (\<lambda>_. 0), kf_close = False\<rparr>"

end
