(* ===== verification/Threads.thy ===== *)
theory Threads
  imports Sockets
begin

text \<open>
  The worker threads of \<open>src/src/gameserver/game_mainprocess.cpp\<close> and the four mutexes of
  \<open>main.cpp\<close>, as an interleaving step relation. A thread is the list of instructions it still has
  to execute. A \<open>for\<close> loop over \<open>ClientList\<close> is two instructions per round, the test of the index against the
  size (\<open>Map_loop\<close>, \<open>Vis_loop\<close>, \<open>Disc_loop\<close>) and the access \<open>at(i)\<close> (\<open>Map_at\<close>, \<open>Vis_at\<close>, \<open>Disc_at\<close>), because
  the list may change between the two: \<open>at\<close> then throws, which nobody catches. \<open>Move\<close> runs \<open>PlayerMovement\<close> on
  the world. \<open>VisiblityList\<close> has such a loop of its own: \<open>See_loop\<close>, \<open>See_at\<close> and, for the object read from the
  list, \<open>See_one\<close>, which carry the scanning client, the index and the local variable \<open>newVisibleClients\<close>;
  \<open>See_npcs\<close> is the rest of the function. A fault of any of them ends the process (\<open>crash\<close>).

  Any number of shutdowns may run: each \<open>SIGTERM\<close> or \<open>SIGBREAK\<close> creates one.

  The network thread takes part here with the one place where it locks, \<open>DeleteClientSocket\<close>; the rest
  of it, which runs without any mutex, is interleaved in \<open>Network\<close>.
\<close>

section \<open>Mutexes, instructions, threads\<close>

datatype mutex = DropMutex | MonsterMutex | PlayerMutex | MainMutex

datatype tid = World_thread | Visuality_thread | Map_thread | Net_thread | Shutdown_thread nat

datatype tinstr =
    Lock mutex
  | Unlock mutex
  | Map_loop nat
  | Map_at nat
  | Vis_loop nat
  | Vis_at nat
  | Move nat
  | See_loop nat nat "nat list"
  | See_at nat nat "nat list"
  | See_one nat nat nat "nat list"
  | See_npcs nat "nat list"
  | Delete nat
  | Disc_loop nat
  | Disc_at nat
  | Disc nat
  | Go_offline
  | Join tid
  | Stop_server

definition MapProcess :: "tinstr list" where
  "MapProcess =
     [Lock PlayerMutex, Map_loop 0, Unlock PlayerMutex, Lock MonsterMutex, Unlock MonsterMutex]"

definition VisibilityProcess :: "tinstr list" where
  "VisibilityProcess =
     [Lock DropMutex, Lock MonsterMutex, Lock PlayerMutex, Vis_loop 0,
      Unlock PlayerMutex, Unlock MonsterMutex, Unlock DropMutex]"

definition WorldProcess :: "tinstr list" where
  "WorldProcess =
     [Lock DropMutex, Lock MonsterMutex, Lock PlayerMutex, Lock MainMutex,
      Unlock MainMutex, Unlock PlayerMutex, Unlock MonsterMutex, Unlock DropMutex]"

definition DeleteProcess :: "nat \<Rightarrow> tinstr list" where
  "DeleteProcess a = [Lock PlayerMutex, Delete a, Unlock PlayerMutex]"

definition ShutdownServer :: "tinstr list" where
  "ShutdownServer =
     [Disc_loop 0, Go_offline, Join World_thread, Join Visuality_thread, Join Map_thread, Stop_server]"

text \<open>What a thread goes on with after the test of the index and after the access.\<close>

definition loop_test :: "(nat \<Rightarrow> tinstr) \<Rightarrow> nat \<Rightarrow> world \<Rightarrow> tinstr list" where
  "loop_test next_at i w = (if i < length (ClientList w) then [next_at i] else [])"

definition list_at :: "nat \<Rightarrow> nat act" where
  "list_at i = bnd (gets ClientList) (\<lambda>cs. if i < length cs then ret (cs ! i) else throw Out_of_bounds)"

definition map_round :: "nat \<Rightarrow> tinstr list act" where
  "map_round i =
     bnd (list_at i) (\<lambda>a.
     bnd (client a) (\<lambda>c.
     if \<not> ready c then ret [Map_loop (i + 1)]
     else ret [Lock MainMutex, Move a, Unlock MainMutex, Map_loop (i + 1)]))"

definition vis_round :: "nat \<Rightarrow> tinstr list act" where
  "vis_round i =
     bnd (list_at i) (\<lambda>a.
     bnd (client a) (\<lambda>c.
     if \<not> ready c then ret [Vis_loop (i + 1)]
     else if \<not> inGame (PlayerSession c) \<or> \<not> isLoggedIn (PlayerSession c) then ret [Vis_loop (i + 1)]
     else ret [Lock MainMutex, See_loop a 0 [], Unlock MainMutex, Vis_loop (i + 1)]))"

definition disc_round :: "nat \<Rightarrow> tinstr list act" where
  "disc_round i = bnd (list_at i) (\<lambda>a. ret [Disc a, Disc_loop (i + 1)])"

text \<open>
  The scan of \<open>VisiblityList\<close>: the test of its index, the access, the round for the object \<open>b\<close> read, and the
  rest: the NPCs, whose list does not change after the start, and the two new lists.
\<close>

definition see_test :: "nat \<Rightarrow> nat \<Rightarrow> nat list \<Rightarrow> world \<Rightarrow> tinstr list" where
  "see_test a j vs w = (if j < length (ClientList w) then [See_at a j vs] else [See_npcs a vs])"

definition see_round :: "nat \<Rightarrow> nat \<Rightarrow> nat list \<Rightarrow> tinstr list act" where
  "see_round a j vs = bnd (list_at j) (\<lambda>b. ret [See_one a b j vs])"

definition see_one :: "env \<Rightarrow> nat \<Rightarrow> nat \<Rightarrow> nat \<Rightarrow> nat list \<Rightarrow> tinstr list act" where
  "see_one E a b j vs = bnd (vis_clients E a [b] vs) (\<lambda>vs'. ret [See_loop a (j + 1) vs'])"

definition see_npcs :: "env \<Rightarrow> nat \<Rightarrow> nat list \<Rightarrow> bool act" where
  "see_npcs E this newVisibleClients =
     bnd (gets NPCList) (\<lambda>ns.
     bnd (vis_npcs E this ns []) (\<lambda>newVisibleNPCs.
     bnd (upd_client this (\<lambda>c. c\<lparr>VisibleClients := newVisibleClients, VisibleNPCs := newVisibleNPCs\<rparr>)) (\<lambda>_.
     ret True)))"

text \<open>What an instruction of a loop puts before the rest of its thread's code.\<close>

fun goes_on :: "env \<Rightarrow> tinstr \<Rightarrow> tinstr list act" where
  "goes_on E (Map_loop i) = gets (loop_test Map_at i)"
| "goes_on E (Map_at i) = map_round i"
| "goes_on E (Vis_loop i) = gets (loop_test Vis_at i)"
| "goes_on E (Vis_at i) = vis_round i"
| "goes_on E (See_loop a j vs) = gets (see_test a j vs)"
| "goes_on E (See_at a j vs) = see_round a j vs"
| "goes_on E (See_one a b j vs) = see_one E a b j vs"
| "goes_on E (Disc_loop i) = gets (loop_test Disc_at i)"
| "goes_on E (Disc_at i) = disc_round i"
| "goes_on E i = ret []"

section \<open>Steps\<close>

record mstate =
  mem :: world
  owner :: "mutex \<Rightarrow> tid option"
  code :: "tid \<Rightarrow> tinstr list"
  crash :: "fault option"

definition run_act :: "'a act \<Rightarrow> mstate \<Rightarrow> mstate" where
  "run_act m s = (case m (mem s) of Inl e \<Rightarrow> s\<lparr>crash := Some e\<rparr> | Inr (_, w) \<Rightarrow> s\<lparr>mem := w\<rparr>)"

definition run_code :: "tid \<Rightarrow> tinstr list act \<Rightarrow> mstate \<Rightarrow> mstate" where
  "run_code t m s =
     (case m (mem s) of
        Inl e \<Rightarrow> s\<lparr>crash := Some e\<rparr>
      | Inr (js, w) \<Rightarrow> s\<lparr>mem := w, code := (code s)(t := js @ code s t)\<rparr>)"

fun exec_instr :: "env \<Rightarrow> tid \<Rightarrow> tinstr \<Rightarrow> mstate \<Rightarrow> mstate" where
  "exec_instr E t (Lock m) s = s\<lparr>owner := (owner s)(m := Some t)\<rparr>"
| "exec_instr E t (Unlock m) s = s\<lparr>owner := (owner s)(m := None)\<rparr>"
| "exec_instr E t (Move a) s = run_act (PlayerMovement E a) s"
| "exec_instr E t (See_npcs a vs) s = run_act (see_npcs E a vs) s"
| "exec_instr E t (Delete a) s = run_act (DeleteClientSocket a) s"
| "exec_instr E t (Disc a) s = run_act (disconnect_loop a) s"
| "exec_instr E t Go_offline s = s\<lparr>mem := (mem s)\<lparr>ServerOnline := False\<rparr>\<rparr>"
| "exec_instr E t (Join t') s = s"
| "exec_instr E t Stop_server s = s\<lparr>mem := (mem s)\<lparr>srv_isActive := False\<rparr>\<rparr>"
| "exec_instr E t i s = run_code t (goes_on E i) s"

fun enabled :: "tinstr \<Rightarrow> mstate \<Rightarrow> bool" where
  "enabled (Lock m) s \<longleftrightarrow> owner s m = None"
| "enabled (Join t) s \<longleftrightarrow> code s t = [] \<and> \<not> ServerOnline (mem s)"
| "enabled i s \<longleftrightarrow> True"

text \<open>
  \<open>Join\<close> waits for the thread to end. A second shutdown joins threads that have been joined: it waits as well, or, when
  they have ended, goes on with a warning.

  \<open>HandleSignal\<close> creates a shutdown on every \<open>SIGTERM\<close> and \<open>SIGBREAK\<close>, whatever the state of the server.
\<close>

definition sigterm :: "tid \<Rightarrow> tinstr list \<Rightarrow> bool" where
  "sigterm t is \<longleftrightarrow> (\<exists>k. t = Shutdown_thread k) \<and> is = ShutdownServer"

text \<open>What a thread starts next when its instructions are used up.\<close>

inductive starts :: "tid \<Rightarrow> mstate \<Rightarrow> tinstr list \<Rightarrow> bool" where
  map_again: "ServerOnline (mem s) \<Longrightarrow> starts Map_thread s MapProcess"
| vis_again: "ServerOnline (mem s) \<Longrightarrow> starts Visuality_thread s VisibilityProcess"
| world_again: "ServerOnline (mem s) \<Longrightarrow> starts World_thread s WorldProcess"
| net_delete: "starts Net_thread s (DeleteProcess a)"
| shut: "sigterm t is \<Longrightarrow> starts t s is"

inductive tstep :: "env \<Rightarrow> mstate \<Rightarrow> mstate \<Rightarrow> bool" for E where
  start: "crash s = None \<Longrightarrow> code s t = [] \<Longrightarrow> starts t s is \<Longrightarrow> tstep E s (s\<lparr>code := (code s)(t := is)\<rparr>)"
| exec: "crash s = None \<Longrightarrow> code s t = i # is \<Longrightarrow> enabled i s \<Longrightarrow>
    tstep E s (exec_instr E t i (s\<lparr>code := (code s)(t := is)\<rparr>))"

text \<open>\<open>OnServerStep\<close> creates the threads: no mutex is held and every thread is before its first round.\<close>

definition OnServerStep :: "world \<Rightarrow> mstate" where
  "OnServerStep w = \<lparr>mem = w, owner = (\<lambda>_. None), code = (\<lambda>_. []), crash = None\<rparr>"

definition initial :: "mstate \<Rightarrow> bool" where
  "initial s \<longleftrightarrow> s = OnServerStep (mem s) \<and> ServerOnline (mem s) \<and> srv_isActive (mem s)"

lemma initialD:
  "initial s \<Longrightarrow> owner s = (\<lambda>_. None) \<and> code s = (\<lambda>_. []) \<and> crash s = None \<and> ServerOnline (mem s) \<and> srv_isActive (mem s)"
  unfolding initial_def OnServerStep_def by (metis mstate.select_convs)

inductive reach :: "env \<Rightarrow> mstate \<Rightarrow> bool" for E where
  init: "initial s \<Longrightarrow> reach E s"
| next_step: "reach E s \<Longrightarrow> tstep E s s' \<Longrightarrow> reach E s'"

section \<open>The shutdown's loop\<close>

text \<open>The steps of one thread with no other in between.\<close>

inductive alone :: "env \<Rightarrow> tid \<Rightarrow> mstate \<Rightarrow> mstate \<Rightarrow> bool" for E t where
  stop: "alone E t s s"
| step: "code s t = i # is \<Longrightarrow> crash s = None \<Longrightarrow> enabled i s \<Longrightarrow>
    alone E t (exec_instr E t i (s\<lparr>code := (code s)(t := is)\<rparr>)) s' \<Longrightarrow> alone E t s s'"

lemma disconnect_loop_list: "disconnect_loop a w = Inr (x, w') \<Longrightarrow> ClientList w' = ClientList w"
  by (auto simp: disconnect_loop_def bnd_eq_Inr client_def whenM_def upd_client_def split: if_splits option.splits)

lemma disc_alone:
  "crash s = None \<Longrightarrow> code s t = Disc_loop i # is \<Longrightarrow>
    forM_list (drop i (ClientList (mem s))) disconnect_loop (mem s) = Inr ((), w') \<Longrightarrow>
    alone E t s (s\<lparr>mem := w', code := (code s)(t := is)\<rparr>)"
proof (induction "length (ClientList (mem s)) - i" arbitrary: s i)
  case 0
  then have "length (ClientList (mem s)) \<le> i" by simp
  with "0.prems"(3) have "exec_instr E t (Disc_loop i) (s\<lparr>code := (code s)(t := is)\<rparr>) = s\<lparr>mem := w', code := (code s)(t := is)\<rparr>"
    by (simp add: run_code_def gets_def loop_test_def ret_def)
  moreover have "alone E t s (exec_instr E t (Disc_loop i) (s\<lparr>code := (code s)(t := is)\<rparr>))"
    using alone.step [OF "0.prems"(2,1) _ alone.stop] by simp
  ultimately show ?case by (simp only:)
next
  case (Suc n)
  then have i: "i < length (ClientList (mem s))" by simp
  let ?a = "ClientList (mem s) ! i"
  obtain w1 where w1: "disconnect_loop ?a (mem s) = Inr ((), w1)"
    "forM_list (drop (Suc i) (ClientList (mem s))) disconnect_loop w1 = Inr ((), w')"
    using Suc.prems(3) i by (auto simp: bnd_eq_Inr simp flip: Cons_nth_drop_Suc)
  have l: "ClientList w1 = ClientList (mem s)" using disconnect_loop_list [OF w1(1)] .
  let ?s = "s\<lparr>mem := w1, code := (code s)(t := Disc_loop (Suc i) # is)\<rparr>"
  have "n = length (ClientList (mem ?s)) - Suc i" "crash ?s = None" "code ?s t = Disc_loop (Suc i) # is"
    "forM_list (drop (Suc i) (ClientList (mem ?s))) disconnect_loop (mem ?s) = Inr ((), w')"
    using Suc.hyps(2) Suc.prems(1) w1(2) l by simp_all
  from Suc.hyps(1) [OF this] have "alone E t ?s (s\<lparr>mem := w', code := (code s)(t := is)\<rparr>)" by simp
  moreover have "alone E t (s\<lparr>code := (code s)(t := j # js)\<rparr>) s'"
    if "\<forall>s. enabled j s" "exec_instr E t j (s\<lparr>code := (code s)(t := js)\<rparr>) = u" "alone E t u s'" for j js u s'
    using alone.step [of "s\<lparr>code := (code s)(t := j # js)\<rparr>" t j js E s'] that Suc.prems(1) by simp
  note alone_at = this
  have "exec_instr E t (Disc ?a) (s\<lparr>code := (code s)(t := Disc_loop (Suc i) # is)\<rparr>) = ?s"
    using w1(1) by (simp add: run_act_def)
  from alone_at [OF _ this calculation] have
    d: "alone E t (s\<lparr>code := (code s)(t := Disc ?a # Disc_loop (Suc i) # is)\<rparr>) (s\<lparr>mem := w', code := (code s)(t := is)\<rparr>)"
    by simp
  have "exec_instr E t (Disc_at i) (s\<lparr>code := (code s)(t := is)\<rparr>) = s\<lparr>code := (code s)(t := Disc ?a # Disc_loop (Suc i) # is)\<rparr>"
    using i by (simp add: run_code_def disc_round_def list_at_def ret_def)
  from alone_at [OF _ this d] have
    "alone E t (s\<lparr>code := (code s)(t := Disc_at i # is)\<rparr>) (s\<lparr>mem := w', code := (code s)(t := is)\<rparr>)" by simp
  moreover have "exec_instr E t (Disc_loop i) (s\<lparr>code := (code s)(t := is)\<rparr>) = s\<lparr>code := (code s)(t := Disc_at i # is)\<rparr>"
    using i by (simp add: run_code_def gets_def loop_test_def)
  ultimately show ?case using alone.step [OF Suc.prems(2,1), of E] by simp
qed

text \<open>Undisturbed, the loop of the shutdown is \<open>DisconnectAll\<close>.\<close>

lemma disc_alone_all:
  assumes "crash s = None" "code s t = Disc_loop 0 # is" "DisconnectAll (mem s) = Inr ((), w')"
  shows "alone E t s (s\<lparr>mem := w', code := (code s)(t := is)\<rparr>)"
  by (rule disc_alone [OF assms(1,2)]) (use assms(3) in \<open>simp add: DisconnectAll_def\<close>)

text \<open>Undisturbed, the steps of a scan are \<open>VisiblityList\<close>.\<close>

lemma vis_clients_Cons:
  "vis_clients E this (a # as) vs = bnd (vis_clients E this [a] vs) (\<lambda>vs'. vis_clients E this as vs')"
  by (simp add: bnd_assoc Let_def fun_eq_iff bnd_def ret_def split: sum.split)

lemma quiet_Spawn_ClearObject: "keeps quiet (SpawnChar E a b)" "keeps quiet (ClearObject a i)"
  unfolding SpawnChar_def ClearObject_def by (rule qt_intros quiet_keeps)+

lemma quiet_vis_clients: "keeps quiet (vis_clients E this as vs)"
  by (induction as arbitrary: vs)
    (simp_all only: vis_clients.simps, (assumption | rule qt_intros quiet_keeps quiet_Spawn_ClearObject)+)

lemma alone_exec:
  "crash s = None \<Longrightarrow> code s t = i # is \<Longrightarrow> enabled i s \<Longrightarrow> exec_instr E t i (s\<lparr>code := (code s)(t := is)\<rparr>) = u \<Longrightarrow>
    alone E t u s' \<Longrightarrow> alone E t s s'"
  by (auto intro: alone.step)

lemma see_alone:
  "crash s = None \<Longrightarrow> code s t = See_loop a j vs # is \<Longrightarrow>
    bnd (vis_clients E a (drop j (ClientList (mem s))) vs) (see_npcs E a) (mem s) = Inr (r, w') \<Longrightarrow>
    alone E t s (s\<lparr>mem := w', code := (code s)(t := is)\<rparr>)"
proof (induction "length (ClientList (mem s)) - j" arbitrary: s j vs)
  case 0
  then have l: "length (ClientList (mem s)) \<le> j" by simp
  let ?s = "s\<lparr>code := (code s)(t := See_npcs a vs # is)\<rparr>"
  have "exec_instr E t (See_npcs a vs) (?s\<lparr>code := (code ?s)(t := is)\<rparr>) = s\<lparr>mem := w', code := (code s)(t := is)\<rparr>"
    using "0.prems"(3) l by (simp add: run_act_def)
  from alone_exec [of ?s, OF _ _ _ this alone.stop] have r1: "alone E t ?s (s\<lparr>mem := w', code := (code s)(t := is)\<rparr>)"
    using "0.prems"(1) by simp
  have "exec_instr E t (See_loop a j vs) (s\<lparr>code := (code s)(t := is)\<rparr>) = ?s"
    using l by (simp add: run_code_def gets_def see_test_def)
  from alone_exec [OF "0.prems"(1,2) _ this r1, simplified enabled.simps] show ?case by (simp only: simp_thms)
next
  case (Suc n)
  then have j: "j < length (ClientList (mem s))" by simp
  let ?b = "ClientList (mem s) ! j"
  have d: "drop j (ClientList (mem s)) = ?b # drop (Suc j) (ClientList (mem s))" using j by (simp add: Cons_nth_drop_Suc)
  have "bnd (bnd (vis_clients E a [?b] vs) (vis_clients E a (drop (Suc j) (ClientList (mem s))))) (see_npcs E a) (mem s) = Inr (r, w')"
    using Suc.prems(3) unfolding d vis_clients_Cons [of E a ?b "drop (Suc j) (ClientList (mem s))"] .
  then obtain vs' w1 where w1: "vis_clients E a [?b] vs (mem s) = Inr (vs', w1)"
    "bnd (vis_clients E a (drop (Suc j) (ClientList (mem s))) vs') (see_npcs E a) w1 = Inr (r, w')"
    unfolding bnd_eq_Inr by blast
  have l: "ClientList w1 = ClientList (mem s)" using keepsD [OF quiet_vis_clients w1(1)] by (simp add: quiet_def)
  let ?s1 = "s\<lparr>code := (code s)(t := See_at a j vs # is)\<rparr>" and ?s2 = "s\<lparr>code := (code s)(t := See_one a ?b j vs # is)\<rparr>"
    and ?s3 = "s\<lparr>mem := w1, code := (code s)(t := See_loop a (Suc j) vs' # is)\<rparr>"
  have "n = length (ClientList (mem ?s3)) - Suc j" "crash ?s3 = None" "code ?s3 t = See_loop a (Suc j) vs' # is"
    "bnd (vis_clients E a (drop (Suc j) (ClientList (mem ?s3))) vs') (see_npcs E a) (mem ?s3) = Inr (r, w')"
    using Suc.hyps(2) Suc.prems(1) w1(2) l by simp_all
  from Suc.hyps(1) [OF this] have r: "alone E t ?s3 (s\<lparr>mem := w', code := (code s)(t := is)\<rparr>)" by simp
  have "exec_instr E t (See_one a ?b j vs) (?s2\<lparr>code := (code ?s2)(t := is)\<rparr>) = ?s3"
    using w1(1) by (simp add: run_code_def see_one_def ret_def del: vis_clients.simps)
  from alone_exec [of ?s2, OF _ _ _ this r] have r2: "alone E t ?s2 (s\<lparr>mem := w', code := (code s)(t := is)\<rparr>)"
    using Suc.prems(1) by simp
  have "exec_instr E t (See_at a j vs) (?s1\<lparr>code := (code ?s1)(t := is)\<rparr>) = ?s2"
    using j by (simp add: run_code_def see_round_def list_at_def ret_def)
  from alone_exec [of ?s1, OF _ _ _ this r2] have r1: "alone E t ?s1 (s\<lparr>mem := w', code := (code s)(t := is)\<rparr>)"
    using Suc.prems(1) by simp
  have "exec_instr E t (See_loop a j vs) (s\<lparr>code := (code s)(t := is)\<rparr>) = ?s1"
    using j by (simp add: run_code_def gets_def see_test_def)
  from alone_exec [OF Suc.prems(1,2) _ this r1] show ?case by simp
qed

lemma see_alone_all:
  assumes "crash s = None" "code s t = See_loop a 0 [] # is" "VisiblityList E a (mem s) = Inr (r, w')"
  shows "alone E t s (s\<lparr>mem := w', code := (code s)(t := is)\<rparr>)"
  by (rule see_alone [OF assms(1,2)])
    (use assms(3) in \<open>simp add: VisiblityList_def see_npcs_def [abs_def]\<close>)

section \<open>Lock discipline\<close>

fun rank :: "mutex \<Rightarrow> nat" where
  "rank DropMutex = 0"
| "rank MonsterMutex = 1"
| "rank PlayerMutex = 2"
| "rank MainMutex = 3"

text \<open>
  \<open>disciplined t H is\<close>: from holding exactly \<open>H\<close>, thread \<open>t\<close>'s code \<open>is\<close> locks in ascending rank,
  unlocks only what it holds, ends holding nothing, and touches the clients only under the mutexes of
  the loop it is in.
\<close>

fun disciplined :: "mutex set \<Rightarrow> tinstr list \<Rightarrow> bool" where
  "disciplined H [] \<longleftrightarrow> H = {}"
| "disciplined H (Lock m # is) \<longleftrightarrow> (\<forall>h \<in> H. rank h < rank m) \<and> disciplined (insert m H) is"
| "disciplined H (Unlock m # is) \<longleftrightarrow> m \<in> H \<and> disciplined (H - {m}) is"
| "disciplined H (Map_loop i # is) \<longleftrightarrow> H = {PlayerMutex} \<and> disciplined H is"
| "disciplined H (Map_at i # is) \<longleftrightarrow> H = {PlayerMutex} \<and> disciplined H is"
| "disciplined H (Vis_loop i # is) \<longleftrightarrow> H = {DropMutex, MonsterMutex, PlayerMutex} \<and> disciplined H is"
| "disciplined H (Vis_at i # is) \<longleftrightarrow> H = {DropMutex, MonsterMutex, PlayerMutex} \<and> disciplined H is"
| "disciplined H (Move a # is) \<longleftrightarrow> PlayerMutex \<in> H \<and> disciplined H is"
| "disciplined H (See_loop a j vs # is) \<longleftrightarrow> PlayerMutex \<in> H \<and> disciplined H is"
| "disciplined H (See_at a j vs # is) \<longleftrightarrow> PlayerMutex \<in> H \<and> disciplined H is"
| "disciplined H (See_one a b j vs # is) \<longleftrightarrow> PlayerMutex \<in> H \<and> disciplined H is"
| "disciplined H (See_npcs a vs # is) \<longleftrightarrow> PlayerMutex \<in> H \<and> disciplined H is"
| "disciplined H (Delete a # is) \<longleftrightarrow> PlayerMutex \<in> H \<and> disciplined H is"
| "disciplined H (i # is) \<longleftrightarrow> H = {} \<and> disciplined H is"

definition held :: "mstate \<Rightarrow> tid \<Rightarrow> mutex set" where
  "held s t = {m. owner s m = Some t}"

definition lock_inv :: "mstate \<Rightarrow> bool" where
  "lock_inv s \<longleftrightarrow> (\<forall>t. disciplined (held s t) (code s t))"

inductive_cases startsE: "starts t s is"

lemma disciplined_bodies:
  "disciplined {} MapProcess" "disciplined {} VisibilityProcess" "disciplined {} WorldProcess"
  "disciplined {} (DeleteProcess a)" "disciplined {} ShutdownServer"
  by (auto simp: MapProcess_def VisibilityProcess_def WorldProcess_def DeleteProcess_def ShutdownServer_def)

lemma disciplined_starts: "starts t s is \<Longrightarrow> disciplined {} is"
  by (auto elim!: startsE simp: disciplined_bodies sigterm_def)

lemma list_at_run: "list_at i w = (if i < length (ClientList w) then Inr (ClientList w ! i, w) else Inl Out_of_bounds)"
  by (simp add: list_at_def ret_def throw_def)

lemmas round_defs = loop_test_def see_test_def map_round_def vis_round_def see_round_def disc_round_def list_at_run gets_def

fun loops :: "tinstr \<Rightarrow> bool" where
  "loops (Map_loop i) = True"
| "loops (Map_at i) = True"
| "loops (Vis_loop i) = True"
| "loops (Vis_at i) = True"
| "loops (See_loop a j vs) = True"
| "loops (See_at a j vs) = True"
| "loops (Disc_loop i) = True"
| "loops (Disc_at i) = True"
| "loops i = False"

definition extends :: "tinstr \<Rightarrow> bool" where
  "extends i \<longleftrightarrow> loops i \<or> (\<exists>a b j vs. i = See_one a b j vs)"

lemma goes_on_mem: "loops i \<Longrightarrow> goes_on E i w = Inr (js, w') \<Longrightarrow> w' = w"
  by (cases i) (auto simp: round_defs bnd_eq_Inr client_def ret_def split: if_splits option.splits)

text \<open>The code an instruction goes on with is of its kind; only rounds of a loop over the clients lead to more code.\<close>

lemma goes_on_code:
  assumes "goes_on E i w = Inr (js, w')"
  obtains (none) "js = []" | (loop) "loops i" | (one) a b j vs vs' where "i = See_one a b j vs" "js = [See_loop a (j + 1) vs']"
  using assms by (cases i) (auto simp: see_one_def bnd_eq_Inr ret_def)

lemma disciplined_goes_on:
  assumes "disciplined H (i # is)" "extends i"
  shows "disciplined H is" "goes_on E i w = Inr (js, w') \<Longrightarrow> disciplined H (js @ is)"
proof -
  show d: "disciplined H is" using assms by (cases i) (auto simp: extends_def)
  assume g: "goes_on E i w = Inr (js, w')"
  then show "disciplined H (js @ is)"
  proof (cases rule: goes_on_code)
    case none
    with d show ?thesis by simp
  next
    case loop
    with assms d g show ?thesis
      by (cases i) (auto simp: round_defs bnd_eq_Inr client_def insert_Diff_if split: if_splits option.splits)
  next
    case one
    with assms d show ?thesis by simp
  qed
qed

lemma run_act_code [simp]: "code (run_act m s) = code s" "owner (run_act m s) = owner s"
  by (auto simp: run_act_def split: sum.split)

lemma run_code_other [simp]: "owner (run_code t m s) = owner s" "u \<noteq> t \<Longrightarrow> code (run_code t m s) u = code s u"
  by (auto simp: run_code_def split: sum.split)

lemma held_simps [simp]:
  "held (s\<lparr>code := c\<rparr>) t = held s t" "held (s\<lparr>mem := w\<rparr>) t = held s t" "held (s\<lparr>crash := e\<rparr>) t = held s t" "held (run_act a s) t = held s t"
  "held (run_code u j s) t = held s t"
  "held (s\<lparr>owner := (owner s)(m := None)\<rparr>) t = held s t - {m}"
  "held (s\<lparr>owner := (owner s)(m := Some t')\<rparr>) t = (if t = t' then insert m (held s t) else held s t - {m})"
  by (auto simp: held_def)

lemma exec_other_code: "t' \<noteq> t \<Longrightarrow> code (exec_instr E t i s) t' = code s t'"
  by (cases i) auto

lemma exec_other_held:
  assumes "t' \<noteq> t" "\<And>m. i = Unlock m \<Longrightarrow> owner s m = Some t" "\<And>m. i = Lock m \<Longrightarrow> owner s m = None"
  shows "held (exec_instr E t i s) t' = held s t'"
  using assms by (cases i) (auto simp: held_def)

lemma exec_loops: "loops i \<Longrightarrow> exec_instr E t i s = run_code t (goes_on E i) s"
  by (cases i) simp_all

lemma exec_extends: "extends i \<Longrightarrow> exec_instr E t i s = run_code t (goes_on E i) s"
  using exec_loops by (auto simp: extends_def)

text \<open>The code of a thread after one of its instructions.\<close>

lemma exec_code:
  "code (exec_instr E t i s) t = (case goes_on E i (mem s) of Inl e \<Rightarrow> code s t | Inr (js, w) \<Rightarrow> js @ code s t)"
  by (cases i) (auto simp: run_code_def ret_def split: sum.split)

lemma exec_self:
  assumes "disciplined (held s t) (i # code s t)"
  shows "disciplined (held (exec_instr E t i s) t) (code (exec_instr E t i s) t)"
proof (cases "extends i")
  case True
  then show ?thesis
    using disciplined_goes_on [OF assms True] by (auto simp: exec_extends run_code_def split: sum.split)
qed (use assms in \<open>cases i; simp add: extends_def\<close>)

lemma lock_inv_step: "tstep E s s' \<Longrightarrow> lock_inv s \<Longrightarrow> lock_inv s'"
proof (induction rule: tstep.induct)
  case (start s t "is")
  have "held s t = {}" using start by (auto simp: lock_inv_def dest: spec [of _ t])
  with start show ?case by (auto simp: lock_inv_def disciplined_starts)
next
  case (exec s t i "is")
  let ?s = "s\<lparr>code := (code s)(t := is)\<rparr>"
  have d: "disciplined (held s t) (i # is)" using exec by (auto simp: lock_inv_def dest: spec [of _ t])
  have u: "i = Unlock m \<Longrightarrow> owner ?s m = Some t" for m using d by (auto simp: held_def)
  have l: "i = Lock m \<Longrightarrow> owner ?s m = None" for m using exec by auto
  have "disciplined (held (exec_instr E t i ?s) t') (code (exec_instr E t i ?s) t')" for t'
  proof (cases "t' = t")
    case True
    then show ?thesis using exec_self [of ?s t i E] d by simp
  next
    case False
    have "disciplined (held s t') (code s t')" using exec by (simp add: lock_inv_def)
    then show ?thesis
      using False exec_other_code [OF False, of E i ?s] exec_other_held [OF False u l, where E = E] by simp
  qed
  then show ?case by (simp add: lock_inv_def)
qed

lemma lock_inv_reach: "reach E s \<Longrightarrow> lock_inv s"
proof (induction rule: reach.induct)
  case (init s)
  from initialD [OF this] show ?case by (simp add: lock_inv_def held_def)
next
  case (next_step s s')
  then show ?case by (auto intro: lock_inv_step)
qed

section \<open>Progress\<close>

text \<open>A thread that waits for a mutex: the holder of a mutex waits only for one of a higher rank.\<close>

lemma holder_waits_higher:
  assumes "lock_inv s" "owner s m = Some t" "code s t = Lock m' # is"
  shows "rank m < rank m'"
proof -
  have "disciplined (held s t) (Lock m' # is)"
    using assms by (metis lock_inv_def)
  then show ?thesis using assms(2) by (auto simp: held_def)
qed

lemma holder_has_code:
  assumes "lock_inv s" "owner s m = Some t"
  shows "code s t \<noteq> []"
proof
  assume "code s t = []"
  then have "held s t = {}" using assms(1) by (metis lock_inv_def disciplined.simps(1))
  then show False using assms(2) by (auto simp: held_def)
qed

lemma joiner_holds_nothing:
  assumes "lock_inv s" "code s t = Join t' # is"
  shows "owner s m \<noteq> Some t"
proof -
  have "disciplined (held s t) (Join t' # is)" using assms by (metis lock_inv_def)
  then have "held s t = {}" by simp
  then show ?thesis by (auto simp: held_def)
qed

lemma rank_le3: "rank m \<le> 3"
  by (cases m) auto

lemma someone_runs:
  assumes inv: "lock_inv s" and "code s t = Lock m # is"
  shows "\<exists>t' i is'. code s t' = i # is' \<and> enabled i s"
  using assms(2)
proof (induction "3 - rank m" arbitrary: t m "is" rule: less_induct)
  case less
  show ?case
  proof (cases "owner s m")
    case None
    with less.prems show ?thesis by (metis enabled.simps(1))
  next
    case (Some h)
    then obtain i js where h: "code s h = i # js"
      using holder_has_code [OF inv] by (metis list.exhaust)
    show ?thesis
    proof (cases "\<exists>m'. i = Lock m'")
      case True
      then obtain m' where m': "i = Lock m'" by blast
      then have "rank m < rank m'" using holder_waits_higher [OF inv Some] h by simp
      moreover have "rank m' \<le> 3" by (rule rank_le3)
      ultimately have "3 - rank m' < 3 - rank m" by linarith
      from less.hyps [OF this] h m' show ?thesis by simp
    next
      case False
      have "\<not> (\<exists>t'. i = Join t')" using joiner_holds_nothing [OF inv] h Some by blast
      with False have "enabled i s" by (cases i) auto
      with h show ?thesis by blast
    qed
  qed
qed

definition shuts_down :: "tid \<Rightarrow> bool" where
  "shuts_down t \<longleftrightarrow> (\<exists>k. t = Shutdown_thread k)"

lemma shuts_down_simps [simp]:
  "shuts_down (Shutdown_thread k)" "\<not> shuts_down World_thread" "\<not> shuts_down Visuality_thread" "\<not> shuts_down Map_thread"
  "\<not> shuts_down Net_thread"
  by (simp_all add: shuts_down_def)

lemma no_deadlock_join:
  assumes inv: "lock_inv s" and off: "\<not> ServerOnline (mem s)" and j: "code s t = Join t' # is" and "\<not> shuts_down t'"
    and only: "\<And>u v js. code s u = Join v # js \<Longrightarrow> shuts_down u"
  shows "\<exists>u i is'. code s u = i # is' \<and> enabled i s"
proof (cases "code s t'")
  case Nil
  with off j show ?thesis by (metis enabled.simps(2))
next
  case (Cons i js)
  show ?thesis
  proof (cases "\<exists>m. i = Lock m")
    case True
    with Cons someone_runs [OF inv] show ?thesis by blast
  next
    case False
    moreover have "\<not> (\<exists>v. i = Join v)" using only [of t'] Cons \<open>\<not> shuts_down t'\<close> by blast
    ultimately have "enabled i s" by (cases i) auto
    with Cons show ?thesis by blast
  qed
qed

section \<open>Exclusion\<close>

text \<open>
  The instructions that the code puts under \<open>PlayerMutex\<close>: the workers' work on the clients, and the deletion of a
  client. Not among them are the loop of the shutdown and the handlers of the network thread, which work on
  clients without a mutex.
\<close>

fun guarded :: "tinstr \<Rightarrow> bool" where
  "guarded (Move a) = True"
| "guarded (See_loop a j vs) = True"
| "guarded (See_at a j vs) = True"
| "guarded (See_one a b j vs) = True"
| "guarded (See_npcs a vs) = True"
| "guarded (Delete a) = True"
| "guarded i = False"

lemma guarded_holds:
  assumes "lock_inv s" "code s t = i # is" "guarded i"
  shows "owner s PlayerMutex = Some t"
proof -
  have "disciplined (held s t) (i # is)" using assms by (metis lock_inv_def)
  then show ?thesis using assms(3) by (cases i) (auto simp: held_def)
qed

section \<open>Flags that the workers leave alone\<close>

definition same_flags :: "world \<Rightarrow> world \<Rightarrow> bool" where
  "same_flags w w' \<longleftrightarrow> ServerOnline w' = ServerOnline w \<and> srv_isActive w' = srv_isActive w \<and> tick w \<le> tick w'"

interpretation flags: client_frame same_flags this "\<lambda>_. True" for this
  by unfold_locales (auto simp: same_flags_def quiet_def)

lemmas flags_intros = flags.frame_intros TrueI

lemma flags_upd_npc: "keeps same_flags (upd_npc a f)"
  by (rule keepsI) (auto simp: upd_npc_def same_flags_def split: option.splits)

lemma flags_spawns: "keeps same_flags (SpawnChar E a b)" "keeps same_flags (SpawnNPC E a b)"
  unfolding SpawnChar_def SpawnNPC_def GetNewMobID_def by (rule flags_intros flags_upd_npc)+

lemma flags_ClearObject: "keeps same_flags (ClearObject a i)"
  unfolding ClearObject_def by (rule flags_intros)

lemma flags_vis_clients: "keeps same_flags (vis_clients E this as acc)"
  by (induction as arbitrary: acc)
    (simp_all only: vis_clients.simps, (rule flags_intros flags_spawns flags_ClearObject | (simp; fail))+)

lemma flags_vis_npcs: "keeps same_flags (vis_npcs E this as acc)"
  by (induction as arbitrary: acc)
    (simp_all only: vis_npcs.simps, (rule flags_intros flags_spawns flags_ClearObject | (simp; fail))+)

lemma flags_see: "keeps same_flags (see_npcs E a vs)" "keeps same_flags (see_one E a b j vs)"
  unfolding see_npcs_def see_one_def by (rule flags_intros flags_vis_clients flags_vis_npcs)+

lemma flags_PlayerMovement: "keeps same_flags (PlayerMovement E a)"
  unfolding PlayerMovement_def by (rule flags_intros)+

lemma flags_disconnect_loop: "keeps same_flags (disconnect_loop a)"
  unfolding disconnect_loop_def by (rule flags_intros)+

lemma flags_DeleteClientSocket: "keeps same_flags (DeleteClientSocket a)"
  unfolding DeleteClientSocket_def by (rule keeps_modify) (simp add: same_flags_def)

lemma run_act_flags: "keeps same_flags m \<Longrightarrow> same_flags (mem s) (mem (run_act m s))"
  by (auto simp: run_act_def same_flags_def keeps_def split: sum.split)

lemma run_code_flags: "keeps same_flags m \<Longrightarrow> same_flags (mem s) (mem (run_code t m s))"
  by (auto simp: run_code_def same_flags_def keeps_def split: sum.split)

section \<open>Shutdown\<close>

text \<open>
  A worker that has ended stays so (\<open>has_ended\<close>). \<open>shut_code s js\<close>: \<open>js\<close> is the rest of a shutdown, which is going through the
  clients, or has taken the server offline and joined the workers before the one it waits for. \<open>b\<close> says that
  nothing but a shutdown clears \<open>isActive\<close>.
\<close>

definition has_ended :: "mstate \<Rightarrow> tid \<Rightarrow> bool" where
  "has_ended s t \<longleftrightarrow> code s t = [] \<and> \<not> ServerOnline (mem s)"

definition workers :: "tid list" where
  "workers = [World_thread, Visuality_thread, Map_thread]"

fun disc :: "tinstr \<Rightarrow> bool" where
  "disc (Disc_loop i) = True"
| "disc (Disc_at i) = True"
| "disc (Disc a) = True"
| "disc i = False"

definition shut_code :: "mstate \<Rightarrow> tinstr list \<Rightarrow> bool" where
  "shut_code s js \<longleftrightarrow> js = [] \<or> (\<exists>pre. (\<forall>i \<in> set pre. disc i) \<and> js = pre @ tl ShutdownServer) \<or>
     (\<exists>k \<le> 3. js = drop (k + 2) ShutdownServer \<and> \<not> ServerOnline (mem s) \<and> (\<forall>t \<in> set (take k workers). has_ended s t))"

definition phase :: "bool \<Rightarrow> mstate \<Rightarrow> bool" where
  "phase b s \<longleftrightarrow> (\<forall>k. shut_code s (code s (Shutdown_thread k))) \<and>
     (b \<and> \<not> srv_isActive (mem s) \<longrightarrow> (\<forall>t \<in> set workers. has_ended s t))"

lemma has_ended_offline: "t \<in> set workers \<Longrightarrow> has_ended s t \<Longrightarrow> \<not> ServerOnline (mem s)"
  by (simp add: has_ended_def)

text \<open>What the steps of the other threads leave true.\<close>

definition calmer :: "mstate \<Rightarrow> mstate \<Rightarrow> bool" where
  "calmer s s' \<longleftrightarrow> (ServerOnline (mem s') \<longrightarrow> ServerOnline (mem s)) \<and> (\<forall>t \<in> set workers. has_ended s t \<longrightarrow> has_ended s' t)"

lemma shut_code_calmer:
  assumes "calmer s s'" "shut_code s js"
  shows "shut_code s' js"
proof -
  have "has_ended s' t" if "t \<in> set (take k workers)" "\<forall>t \<in> set (take k workers). has_ended s t" for t k
    using that assms(1) in_set_takeD [OF that(1)] by (simp add: calmer_def)
  then show ?thesis using assms unfolding shut_code_def calmer_def by metis
qed

fun control :: "tinstr \<Rightarrow> bool" where
  "control (Disc_loop i) = True"
| "control (Disc_at i) = True"
| "control (Disc a) = True"
| "control Go_offline = True"
| "control (Join t) = True"
| "control Stop_server = True"
| "control i = False"

definition no_control :: "mstate \<Rightarrow> bool" where
  "no_control s \<longleftrightarrow> (\<forall>t. \<not> shuts_down t \<longrightarrow> (\<forall>i \<in> set (code s t). \<not> control i))"

lemma no_control_starts: "starts t s is \<Longrightarrow> \<not> shuts_down t \<Longrightarrow> i \<in> set is \<Longrightarrow> \<not> control i"
  by (auto elim!: startsE simp: MapProcess_def VisibilityProcess_def WorldProcess_def DeleteProcess_def sigterm_def)

text \<open>The loops of the workers lead to worker code, the one of the shutdown to code of its loop.\<close>

lemma goes_on_kind:
  "goes_on E i w = Inr (js, w') \<Longrightarrow> j \<in> set js \<Longrightarrow> control j = control i \<and> disc j = disc i"
  by (cases i) (auto simp: round_defs see_one_def bnd_eq_Inr client_def ret_def split: if_splits option.splits)

lemma no_control_step: "tstep E s s' \<Longrightarrow> no_control s \<Longrightarrow> no_control s'"
proof (induction rule: tstep.induct)
  case (start s t "is")
  then show ?case by (auto simp: no_control_def dest: no_control_starts)
next
  case (exec s t i "is")
  let ?s = "s\<lparr>code := (code s)(t := is)\<rparr>"
  have "\<not> control j" if "\<not> shuts_down t'" "j \<in> set (code (exec_instr E t i ?s) t')" for t' j
  proof (cases "t' = t")
    case False
    then have "j \<in> set (code s t')" using that exec_other_code [OF False, of E i ?s] by simp
    then show ?thesis using exec.prems that(1) by (auto simp: no_control_def)
  next
    case True
    have "\<forall>u. \<not> shuts_down u \<longrightarrow> (\<forall>i \<in> set (code s u). \<not> control i)" using exec.prems by (simp add: no_control_def)
    then have c: "\<forall>j \<in> set (i # is). \<not> control j" using exec.hyps(2) that(1) True by metis
    have "j \<in> set is \<or> (\<exists>js w. goes_on E i (mem s) = Inr (js, w) \<and> j \<in> set js)"
      using that(2) True exec_code [of E t i ?s] by (auto split: sum.splits)
    then show ?thesis using c goes_on_kind by auto
  qed
  then show ?case by (simp add: no_control_def)
qed

lemma run_code_mem: "(\<And>js w'. m (mem s) = Inr (js, w') \<Longrightarrow> w' = mem s) \<Longrightarrow> mem (run_code t m s) = mem s"
  by (auto simp: run_code_def split: sum.split)

lemma exec_loops_mem: "loops i \<Longrightarrow> mem (exec_instr E t i s) = mem s"
  by (simp add: exec_loops run_code_mem goes_on_mem)

lemma exec_flags:
  assumes "\<not> control i \<or> disc i"
  shows "same_flags (mem s) (mem (exec_instr E t i s))"
proof (cases "loops i")
  case True
  then show ?thesis using exec_loops_mem [OF True] by (simp add: same_flags_def)
next
  case False
  show ?thesis
  proof (cases i)
    case (Move a)
    then show ?thesis using run_act_flags [OF flags_PlayerMovement] by simp
  next
    case (See_one a b j vs)
    then show ?thesis using run_code_flags [OF flags_see(2)] by simp
  next
    case (See_npcs a vs)
    then show ?thesis using run_act_flags [OF flags_see(1)] by simp
  next
    case (Delete a)
    then show ?thesis using run_act_flags [OF flags_DeleteClientSocket] by simp
  next
    case (Disc a)
    then show ?thesis using run_act_flags [OF flags_disconnect_loop] by simp
  qed (use assms False in \<open>auto simp: same_flags_def\<close>)
qed

text \<open>A step that keeps the flags and lets no worker that has ended start again.\<close>

lemma phase_same:
  assumes "phase b s" and flags: "ServerOnline (mem s') = ServerOnline (mem s)" "b \<longrightarrow> srv_isActive (mem s') = srv_isActive (mem s)"
    and others: "\<And>t'. t' \<noteq> t \<Longrightarrow> code s' t' = code s t'" and t: "t \<in> set workers \<Longrightarrow> \<not> has_ended s t"
    and own: "shuts_down t \<Longrightarrow> shut_code s (code s' t)"
  shows "phase b s'"
proof -
  have e: "has_ended s u \<Longrightarrow> has_ended s' u" if "u \<in> set workers" for u
    using that flags(1) others [of u] t by (cases "u = t") (auto simp: has_ended_def)
  then have calm: "calmer s s'" using flags(1) by (simp add: calmer_def)
  have "shut_code s (code s' (Shutdown_thread k))" for k
    using assms(1) others [of "Shutdown_thread k"] own by (cases "Shutdown_thread k = t") (auto simp: phase_def)
  then have "shut_code s' (code s' (Shutdown_thread k))" for k using shut_code_calmer [OF calm] by blast
  with e assms(1) flags(2) show ?thesis by (auto simp: phase_def)
qed

lemma phase_worker:
  assumes "phase b s" "\<not> shuts_down t" "code s t = i # is" "\<not> control i"
  shows "phase b (exec_instr E t i (s\<lparr>code := (code s)(t := is)\<rparr>))"
proof -
  let ?s = "s\<lparr>code := (code s)(t := is)\<rparr>"
  have "same_flags (mem s) (mem (exec_instr E t i ?s))"
    using exec_flags [of i ?s E t] assms(4) by simp
  moreover have "code (exec_instr E t i ?s) t' = code s t'" if "t' \<noteq> t" for t'
    using exec_other_code [OF that, of E i ?s] that by simp
  ultimately show ?thesis
    using phase_same [OF assms(1), of "exec_instr E t i ?s" t] assms(2,3) by (simp add: same_flags_def has_ended_def)
qed

lemma shutdown_cases:
  assumes "shut_code s (i # is)"
  obtains (disc) pre where "disc i" "\<forall>i \<in> set pre. disc i" "is = pre @ tl ShutdownServer"
    | (offline) "i = Go_offline" "is = drop 2 ShutdownServer"
    | (joins) k where "k < 3" "i = Join (workers ! k)" "is = drop (k + 3) ShutdownServer" "\<not> ServerOnline (mem s)"
        "\<forall>t \<in> set (take k workers). has_ended s t"
    | (stop) "i = Stop_server" "is = []" "\<forall>t \<in> set workers. has_ended s t"
proof -
  have d: "drop (k + 2) ShutdownServer = Join (workers ! k) # drop (k + 3) ShutdownServer" if "k < 3" for k
  proof -
    have "k = 0 \<or> k = 1 \<or> k = 2" using that by auto
    then show ?thesis by (auto simp: ShutdownServer_def workers_def)
  qed
  consider (loop) pre where "\<forall>i \<in> set pre. disc i" "i # is = pre @ tl ShutdownServer"
    | (joined) k where "k \<le> 3" "i # is = drop (k + 2) ShutdownServer" "\<not> ServerOnline (mem s)" "\<forall>t \<in> set (take k workers). has_ended s t"
    using assms by (auto simp: shut_code_def)
  then show thesis
  proof cases
    case loop
    show thesis
    proof (cases pre)
      case Nil
      with loop offline show thesis by (simp add: ShutdownServer_def)
    next
      case (Cons j pre')
      with loop disc [of pre'] show thesis by simp
    qed
  next
    case (joined k)
    show thesis
    proof (cases "k = 3")
      case True
      with joined stop show thesis by (simp add: ShutdownServer_def workers_def)
    next
      case False
      with joined have "k < 3" by simp
      with joined d [OF this] joins [of k] show thesis by simp
    qed
  qed
qed

text \<open>One instruction of the loop of a shutdown.\<close>

lemma disc_code:
  assumes "disc i" "\<forall>i \<in> set pre. disc i" "code s t = pre @ tl ShutdownServer"
  shows "\<exists>pre. (\<forall>i \<in> set pre. disc i) \<and> code (exec_instr E t i s) t = pre @ tl ShutdownServer"
proof (cases "goes_on E i (mem s)")
  case (Inl e)
  with assms show ?thesis by (auto simp: exec_code)
next
  case (Inr r)
  then obtain js w where r: "goes_on E i (mem s) = Inr (js, w)" by (cases r) auto
  then have "\<forall>j \<in> set (js @ pre). disc j" using goes_on_kind [OF r] assms by auto
  moreover have "code (exec_instr E t i s) t = (js @ pre) @ tl ShutdownServer" using r assms by (simp add: exec_code)
  ultimately show ?thesis by blast
qed

lemma phase_shutdown:
  assumes ph: "phase b s" and t: "shuts_down t" and c: "code s t = i # is" and en: "enabled i s"
  shows "phase b (exec_instr E t i (s\<lparr>code := (code s)(t := is)\<rparr>))"
proof -
  let ?s = "s\<lparr>code := (code s)(t := is)\<rparr>"
  let ?s' = "exec_instr E t i ?s"
  have sc: "shut_code s (i # is)" using ph t c unfolding phase_def shuts_down_def by metis
  have nw: "t \<notin> set workers" using t by (auto simp: workers_def)
  have others: "code ?s' t' = code s t'" if "t' \<noteq> t" for t'
    using exec_other_code [OF that, of E i ?s] that by simp
  have same: "phase b ?s'" if "same_flags (mem s) (mem ?s')" "shut_code s (code ?s' t)"
    using phase_same [OF ph, of ?s' t] others nw that by (simp add: same_flags_def)
  show ?thesis
    using sc
  proof (cases rule: shutdown_cases)
    case (disc pre)
    have "same_flags (mem s) (mem ?s')" using exec_flags [of i ?s E t] disc(1) by simp
    moreover have "\<exists>pre. (\<forall>i \<in> set pre. disc i) \<and> code ?s' t = pre @ tl ShutdownServer"
      by (rule disc_code) (use disc in simp_all)
    ultimately show ?thesis using same unfolding shut_code_def by blast
  next
    case offline
    then have s': "?s' = ?s\<lparr>mem := (mem s)\<lparr>ServerOnline := False\<rparr>\<rparr>" by simp
    have e: "has_ended ?s' u" if "u \<in> set workers" "has_ended s u" for u
      using that nw unfolding s' by (cases "u = t") (auto simp: has_ended_def)
    then have "calmer s ?s'" unfolding s' by (simp add: calmer_def)
    moreover have "shut_code ?s' (code ?s' t)"
      using offline unfolding s' shut_code_def by (intro disjI2 exI [of _ 0]) (simp add: numeral_2_eq_2)
    ultimately have "shut_code ?s' (code ?s' (Shutdown_thread k))" for k
      using ph others [of "Shutdown_thread k"] shut_code_calmer unfolding phase_def by metis
    moreover have "srv_isActive (mem ?s') = srv_isActive (mem s)" unfolding s' by simp
    ultimately show ?thesis using e ph unfolding phase_def by metis
  next
    case (joins k)
    have "has_ended s (workers ! k)" using joins(2) en by (simp add: has_ended_def)
    moreover have "k < length workers" using joins(1) by (simp add: workers_def)
    then have "take (Suc k) workers = take k workers @ [workers ! k]" by (rule take_Suc_conv_app_nth)
    ultimately have "\<forall>t \<in> set (take (Suc k) workers). has_ended s t" using joins(5) by auto
    moreover have "is = drop (Suc k + 2) ShutdownServer" using joins(3) by (simp add: numeral_3_eq_3)
    moreover have "code ?s' t = is" using joins(2) by simp
    ultimately have "shut_code s (code ?s' t)"
      using joins(1,4) unfolding shut_code_def by (intro disjI2 exI [of _ "Suc k"]) auto
    moreover have "same_flags (mem s) (mem ?s')" using joins(2) by (simp add: same_flags_def)
    ultimately show ?thesis using same by blast
  next
    case stop
    then have s': "?s' = ?s\<lparr>mem := (mem s)\<lparr>srv_isActive := False\<rparr>\<rparr>" by simp
    have e: "\<forall>u \<in> set workers. has_ended ?s' u"
      using stop(3) nw unfolding s' by (auto simp: has_ended_def)
    then have "calmer s ?s'" unfolding s' by (simp add: calmer_def)
    moreover have "shut_code ?s' (code ?s' t)" using stop(2) unfolding s' shut_code_def by simp
    ultimately have "shut_code ?s' (code ?s' (Shutdown_thread k))" for k
      using ph others [of "Shutdown_thread k"] shut_code_calmer unfolding phase_def by metis
    with e show ?thesis unfolding phase_def by blast
  qed
qed

lemma phase_step:
  assumes "tstep E s s'" "phase b s" "no_control s"
  shows "phase b s'"
  using assms
proof (induction rule: tstep.induct)
  case (start s t "is")
  have "\<not> has_ended s t" if "t \<in> set workers"
    using start(3) that by (auto simp: has_ended_def workers_def sigterm_def elim!: startsE)
  moreover have "shut_code s is" if "shuts_down t"
  proof -
    have "is = ShutdownServer" using start(3) that by (auto simp: sigterm_def elim!: startsE)
    then show ?thesis unfolding shut_code_def by (auto simp: ShutdownServer_def intro!: exI [of _ "[Disc_loop 0]"])
  qed
  ultimately show ?case
    using phase_same [OF start(4), of "s\<lparr>code := (code s)(t := is)\<rparr>" t] by simp
next
  case (exec s t i "is")
  show ?case
  proof (cases "shuts_down t")
    case True
    with phase_shutdown [of b s t i "is" E] exec show ?thesis by simp
  next
    case False
    have "\<not> control i" using exec False by (auto simp: no_control_def)
    with phase_worker [of b s t i "is" E] False exec show ?thesis by blast
  qed
qed

lemma phase_init: "initial s \<Longrightarrow> no_control s \<and> phase b s"
  using initialD [of s] by (simp add: no_control_def phase_def shut_code_def)

lemma phase_reach: "reach E s \<Longrightarrow> no_control s \<and> phase True s"
proof (induction rule: reach.induct)
  case (init s)
  then show ?case using phase_init by blast
next
  case (next_step s s')
  then show ?case using no_control_step phase_step by metis
qed

lemma join_only_shutdown:
  "no_control s \<Longrightarrow> code s u = Join v # js \<Longrightarrow> shuts_down u"
  unfolding no_control_def by (metis control.simps(5) list.set_intros(1))

lemma runnable:
  assumes inv: "lock_inv s" and nc: "no_control s" and ph: "phase b s" and t: "code s t \<noteq> []"
  shows "\<exists>u i is. code s u = i # is \<and> enabled i s"
proof -
  obtain i js where t: "code s t = i # js" using t by (cases "code s t") auto
  show ?thesis
  proof (cases "(\<exists>m. i = Lock m) \<or> (\<exists>t'. i = Join t')")
    case False
    then have "enabled i s" by (cases i) auto
    with t show ?thesis by blast
  next
    case True
    then show ?thesis
    proof
      assume "\<exists>m. i = Lock m"
      with t someone_runs [OF inv] show ?thesis by blast
    next
      assume "\<exists>t'. i = Join t'"
      then obtain t' where j: "i = Join t'" by blast
      have "shuts_down t" using join_only_shutdown [OF nc] t j by blast
      then have "shut_code s (Join t' # js)" using ph t j unfolding phase_def shuts_down_def by metis
      then have "\<not> ServerOnline (mem s) \<and> \<not> shuts_down t'"
      proof (cases rule: shutdown_cases)
        case (joins k)
        then have "t' \<in> set workers" by (simp add: workers_def nth_Cons')
        then show ?thesis using joins(4) by (auto simp: workers_def)
      qed auto
      then show ?thesis
        using join_only_shutdown [OF nc] t j by (intro no_deadlock_join [OF inv, of t t' js]) auto
    qed
  qed
qed

lemma workers_progress:
  assumes "reach E s" "code s t \<noteq> []"
  shows "\<exists>u i is. code s u = i # is \<and> enabled i s"
  using runnable [OF lock_inv_reach [OF assms(1)] _ _ assms(2)] phase_reach [OF assms(1)] by blast

lemma phase_stopped:
  assumes "phase True s" "\<not> srv_isActive (mem s)"
  shows "\<not> ServerOnline (mem s) \<and> code s World_thread = [] \<and> code s Visuality_thread = [] \<and> code s Map_thread = []"
  using assms by (auto simp: phase_def workers_def has_ended_def)

lemma guarded_exclusive:
  assumes "lock_inv s" "code s t = i # is" "guarded i" "code s u = j # js" "guarded j"
  shows "u = t"
  using guarded_holds [OF assms(1-3)] guarded_holds [OF assms(1,4,5)] by simp

end
