(* ===== verification/Config.thy ===== *)
theory Config
  imports CLib
begin

text \<open>
  The reader of \<open>name = value\<close> files, \<open>src/src/commom/config.cpp\<close>. A file is its text; \<open>fgets\<close>
  and \<open>feof\<close> are the C library's (\<open>fgets\<close> leaves the buffer alone when it reads nothing, and
  \<open>feof\<close> holds once a read has hit the end). The line buffer is \<^const>\<open>None\<close> until the first line
  is read. An empty C string in the buffer makes \<open>pcBuffer[len-1]\<close> an access before the array.
\<close>

section \<open>Reading lines\<close>

fun read_line :: "nat \<Rightarrow> string \<Rightarrow> string \<times> string" where
  "read_line 0 rest = ([], rest)"
| "read_line (Suc n) [] = ([], [])"
| "read_line (Suc n) (c # cs) =
     (if c = CHR 0x0A then ([c], cs) else map_prod (Cons c) id (read_line n cs))"

text \<open>\<open>fgets(buf, n, fh)\<close>: the buffer, the rest of the file and \<open>feof\<close> afterwards.\<close>

definition fgets :: "nat \<Rightarrow> string option \<Rightarrow> string \<Rightarrow> string option \<times> string \<times> bool" where
  "fgets n buf rest =
     (if rest = [] then (buf, [], True)
      else
        (let (line, rest') = read_line (n - 1) rest
         in (Some (takeWhile (\<lambda>c. c \<noteq> NUL) line), rest',
             rest' = [] \<and> last line \<noteq> CHR 0x0A \<and> length line < n - 1)))"

section \<open>One line\<close>

definition tolower_c :: "char \<Rightarrow> char" where
  "tolower_c c = (if 65 \<le> (of_char c :: nat) \<and> (of_char c :: nat) \<le> 90 then char_of ((of_char c :: nat) + 32) else c)"

definition strcmpi :: "string \<Rightarrow> string \<Rightarrow> bool" where
  "strcmpi a b \<longleftrightarrow> map tolower_c a = map tolower_c b"

definition cfg_blank :: "char \<Rightarrow> bool" where
  "cfg_blank c \<longleftrightarrow> c = CHR '' '' \<or> c = CHR 0x09"

text \<open>
  The body of the loop on the text of the buffer, its trailing newline removed: what is left in the
  buffer, and the value when the name matches. The code that should cut trailing blanks off the value
  starts at the terminating NUL and returns there at once.
\<close>

definition parse_line :: "string \<Rightarrow> string \<Rightarrow> string \<times> string option" where
  "parse_line pcNameMust buf =
     (let pcName = dropWhile cfg_blank buf in
      if pcName = [] \<or> hd pcName = CHR ''#'' then (buf, None)
      else
        (let stop = (\<lambda>c. cfg_blank c \<or> c = CHR ''#'' \<or> c = CHR ''='');
             nm = takeWhile (\<lambda>c. \<not> stop c) pcName;
             pcPoint = dropWhile (\<lambda>c. \<not> stop c) pcName in
         if pcPoint = [] \<or> hd pcPoint = CHR ''#'' then (buf, None)
         else
           (let pcPar = dropWhile (\<lambda>c. cfg_blank c \<or> c = CHR ''='') pcPoint in
            (takeWhile cfg_blank buf @ nm, if strcmpi nm pcNameMust then Some pcPar else None))))"

definition strip_newline :: "string \<Rightarrow> string res" where
  "strip_newline buf =
     (if buf = [] then Inl Out_of_bounds
      else if last buf = CHR 0x0A then Inr (butlast buf) else Inr buf)"

section \<open>The file\<close>

lemma read_line_length: "(line, rest') = read_line n rest \<Longrightarrow> length rest = length line + length rest'"
proof (induction n rest arbitrary: line rest' rule: read_line.induct)
  case (3 n c cs)
  then show ?case by (cases "read_line n cs") (auto split: if_splits)
qed auto

lemma read_line_nonempty: "(line, rest') = read_line (Suc n) rest \<Longrightarrow> rest \<noteq> [] \<Longrightarrow> line \<noteq> []"
  by (cases rest; cases "read_line n (tl rest)") (auto split: if_splits)

lemma fgets_shrinks: "fgets 510 buf rest = (b, rest', eof) \<Longrightarrow> \<not> eof \<Longrightarrow> length rest' < length rest"
proof -
  assume f: "fgets 510 buf rest = (b, rest', eof)" and "\<not> eof"
  then have ne: "rest \<noteq> []" by (auto simp: fgets_def)
  obtain line r where l: "(line, r) = read_line 509 rest" by (metis prod.collapse)
  have "line \<noteq> []" using read_line_nonempty [of line r 508 rest] l ne by simp
  moreover have "r = rest'" using f ne by (simp add: fgets_def flip: l)
  ultimately show ?thesis using read_line_length [OF l] by (cases line) auto
qed

function cfg_loop :: "string \<Rightarrow> string option \<Rightarrow> string \<Rightarrow> string option res" where
  "cfg_loop pcNameMust buf rest =
     (case fgets 510 buf rest of
        (None, rest', eof) \<Rightarrow> Inl Uninitialised
      | (Some s, rest', eof) \<Rightarrow>
          (case strip_newline s of
             Inl e \<Rightarrow> Inl e
           | Inr line \<Rightarrow>
               (case parse_line pcNameMust line of
                  (_, Some v) \<Rightarrow> Inr (Some v)
                | (buf', None) \<Rightarrow> if eof then Inr None else cfg_loop pcNameMust (Some buf') rest')))"
  by pat_completeness auto
termination
  by (relation "measure (\<lambda>(m, b, r). length r)") (auto dest: fgets_shrinks [OF sym])

declare cfg_loop.simps [simp del]

text \<open>\<open>pcFile\<close> is the text of the file, \<^const>\<open>None\<close> when it cannot be opened; the result pairs the
  returned flag with \<open>pcResult\<close>.\<close>

definition ConfigGetEntry :: "string option \<Rightarrow> string \<Rightarrow> (bool \<times> string option) res" where
  "ConfigGetEntry pcFile pcNameMust =
     (case pcFile of
        None \<Rightarrow> Inr (False, None)
      | Some txt \<Rightarrow> map_sum id (Pair True) (cfg_loop pcNameMust None txt))"

definition ConfigGetString :: "string option \<Rightarrow> string \<Rightarrow> string \<Rightarrow> string res" where
  "ConfigGetString pcFile pcName pcDefault =
     (case ConfigGetEntry pcFile pcName of
        Inl e \<Rightarrow> Inl e
      | Inr (ok, r) \<Rightarrow>
          (case r of
             None \<Rightarrow> Inr pcDefault
           | Some pcRet \<Rightarrow>
               if \<not> ok then Inr pcDefault
               else if pcRet \<noteq> [] \<and> hd pcRet = CHR 0x22 then Inr (butlast (tl pcRet))
               else Inr pcRet))"

definition ConfigGetInt :: "string option \<Rightarrow> string \<Rightarrow> u32 \<Rightarrow> u32 res" where
  "ConfigGetInt pcFile pcName uDefault =
     (case ConfigGetEntry pcFile pcName of
        Inl e \<Rightarrow> Inl e
      | Inr (ok, r) \<Rightarrow> Inr (case r of None \<Rightarrow> uDefault | Some s \<Rightarrow> if ok then atou s else uDefault))"

section \<open>Writing and reading back\<close>

lemma read_line_prefix:
  "CHR 0x0A \<notin> set s \<Longrightarrow> length s < n \<Longrightarrow> read_line n (s @ CHR 0x0A # rest) = (s @ [CHR 0x0A], rest)"
proof (induction s arbitrary: n)
  case Nil
  then show ?case by (cases n) auto
next
  case (Cons c s)
  then show ?case by (cases n) auto
qed

definition plain_name :: "string \<Rightarrow> bool" where
  "plain_name nm \<longleftrightarrow> nm \<noteq> [] \<and> (\<forall>c \<in> set nm. \<not> cfg_blank c \<and> c \<noteq> CHR ''#'' \<and> c \<noteq> CHR ''='' \<and> c \<noteq> CHR 0x0A \<and> c \<noteq> NUL)"

definition plain_value :: "string \<Rightarrow> bool" where
  "plain_value v \<longleftrightarrow> (\<forall>c \<in> set v. c \<noteq> CHR 0x0A \<and> c \<noteq> NUL) \<and> (v \<noteq> [] \<longrightarrow> \<not> cfg_blank (hd v) \<and> hd v \<noteq> CHR ''='')"

lemma dropWhile_hd: "(xs \<noteq> [] \<longrightarrow> \<not> p (hd xs)) \<Longrightarrow> dropWhile p xs = xs"
  by (cases xs) auto

lemma parse_entry:
  assumes nm: "plain_name nm" and v: "plain_value v"
  shows "parse_line must (nm @ CHR ''='' # v) = (nm, if strcmpi nm must then Some v else None)"
proof -
  let ?stop = "\<lambda>c. cfg_blank c \<or> c = CHR ''#'' \<or> c = CHR ''=''"
  obtain c cs where c: "nm = c # cs" using nm by (cases nm) (auto simp: plain_name_def)
  have n: "\<And>x. x \<in> set nm \<Longrightarrow> \<not> ?stop x" using nm by (auto simp: plain_name_def)
  have blank: "\<not> cfg_blank c" "c \<noteq> CHR ''#''" using n [of c] by (auto simp: c)
  have tw: "takeWhile (\<lambda>c. \<not> ?stop c) (nm @ CHR ''='' # v) = nm"
    "dropWhile (\<lambda>c. \<not> ?stop c) (nm @ CHR ''='' # v) = CHR ''='' # v"
    using n by (auto simp: takeWhile_append2 dropWhile_append2)
  have "dropWhile (\<lambda>c. cfg_blank c \<or> c = CHR ''='') v = v"
    using v by (intro dropWhile_hd) (auto simp: plain_value_def)
  moreover have "dropWhile cfg_blank (nm @ CHR ''='' # v) = nm @ CHR ''='' # v"
    "takeWhile cfg_blank (nm @ CHR ''='' # v) = []"
    using blank by (simp_all add: c)
  moreover have "nm \<noteq> []" "hd nm \<noteq> CHR ''#''" using blank by (simp_all add: c)
  ultimately show ?thesis
    using tw by (simp add: parse_line_def Let_def cfg_blank_def)
qed

lemma cfg_loop_entry:
  assumes nm: "plain_name nm" and v: "plain_value v" and len: "length nm + length v < 508"
  shows "cfg_loop must buf (nm @ CHR ''='' # v @ CHR 0x0A # rest) =
    (if strcmpi nm must then Inr (Some v) else cfg_loop must (Some nm) rest)"
proof -
  let ?l = "nm @ CHR ''='' # v"
  have no: "CHR 0x0A \<notin> set ?l" "NUL \<notin> set ?l" using nm v by (auto simp: plain_name_def plain_value_def)
  have "length ?l < 509" using len by simp
  from read_line_prefix [OF no(1) this] have rl: "read_line 509 (?l @ CHR 0x0A # rest) = (?l @ [CHR 0x0A], rest)" .
  have tw: "takeWhile (\<lambda>c. c \<noteq> NUL) (?l @ [CHR 0x0A]) = ?l @ [CHR 0x0A]"
    using no(2) by (auto simp: takeWhile_eq_all_conv)
  have "fgets 510 buf (?l @ CHR 0x0A # rest) = (Some (?l @ [CHR 0x0A]), rest, False)"
    using rl tw by (simp add: fgets_def)
  then show ?thesis
    by (subst cfg_loop.simps) (simp add: strip_newline_def parse_entry [OF nm v] butlast_append)
qed

lemma ConfigGetEntry_first:
  assumes "plain_name nm" "plain_value v" "length nm + length v < 508"
  shows "ConfigGetEntry (Some (nm @ CHR ''='' # v @ CHR 0x0A # rest)) nm = Inr (True, Some v)"
  using assms by (simp add: ConfigGetEntry_def cfg_loop_entry strcmpi_def)

lemma plain_dec: "plain_value (dec_int i)"
proof -
  have d: "is_digit c \<Longrightarrow> c \<noteq> CHR 0x0A \<and> c \<noteq> NUL \<and> \<not> cfg_blank c \<and> c \<noteq> CHR ''=''" for c
    by (auto simp: is_digit_def cfg_blank_def)
  have n: "c \<noteq> CHR 0x0A \<and> c \<noteq> NUL \<and> \<not> cfg_blank c \<and> c \<noteq> CHR ''=''" if "c \<in> set (dec_nat n)" for c n
    using d dec_nat_digits [OF that] by blast
  have "hd (dec_nat n) \<in> set (dec_nat n)" for n by (rule hd_in_set) simp
  from n [OF this] n show ?thesis
    by (auto simp: plain_value_def dec_int_def cfg_blank_def [of "CHR ''-''"])
qed

text \<open>The text of a file with one \<open>name=value\<close> entry per line.\<close>

fun render :: "(string \<times> string) list \<Rightarrow> string" where
  "render [] = []"
| "render ((nm, v) # es) = nm @ CHR ''='' # v @ CHR 0x0A # render es"

fun plain_entry :: "string \<times> string \<Rightarrow> bool" where
  "plain_entry (nm, v) \<longleftrightarrow> plain_name nm \<and> plain_value v \<and> length nm + length v < 508"

text \<open>At the end of the file the buffer still holds the last name, which is no entry.\<close>

lemma cfg_loop_end:
  assumes "plain_name nm"
  shows "cfg_loop must (Some nm) [] = Inr None"
proof -
  have nm: "nm \<noteq> []" "last nm \<noteq> CHR 0x0A" "\<And>c. c \<in> set nm \<Longrightarrow> \<not> cfg_blank c \<and> c \<noteq> CHR ''#'' \<and> c \<noteq> CHR ''=''"
    using assms last_in_set [of nm] by (auto simp: plain_name_def)
  then have "strip_newline nm = Inr nm" by (simp add: strip_newline_def)
  moreover have "parse_line must nm = (nm, None)"
    using nm(3) by (simp add: parse_line_def Let_def dropWhile_eq_Nil_conv)
  ultimately show ?thesis by (subst cfg_loop.simps) (simp add: fgets_def)
qed

lemma cfg_loop_render:
  assumes "es \<noteq> []" "list_all plain_entry es"
  shows "cfg_loop must buf (render es) = Inr (map_option snd (find (\<lambda>e. strcmpi (fst e) must) es))"
  using assms
proof (induction es arbitrary: buf)
  case (Cons e es)
  obtain nm v where e: "e = (nm, v)" by (cases e)
  with Cons.prems have p: "plain_name nm" "plain_value v" "length nm + length v < 508" by simp_all
  show ?case
  proof (cases "es = []")
    case True
    with e p show ?thesis by (simp add: cfg_loop_entry cfg_loop_end)
  next
    case False
    with Cons e p show ?thesis by (simp add: cfg_loop_entry)
  qed
qed simp

text \<open>
  C28. Looking a name up in a configuration file is a search in the list of its entries: for a file of
  plain \<open>name=value\<close> lines the result is the value of the first entry whose name matches up to case, blanks
  at the end of the value included, and no result when there is none.
\<close>

theorem ConfigGetEntry_find:
  assumes "es \<noteq> []" and "list_all plain_entry es"
  shows "ConfigGetEntry (Some (render es)) must = Inr (True, map_option snd (find (\<lambda>e. strcmpi (fst e) must) es))"
  using cfg_loop_render [OF assms] by (simp add: ConfigGetEntry_def)

theorem ConfigGetEntry_find_witness:
  "ConfigGetEntry (Some (render [(''port'', ''8281 ''), (''name'', ''x'')])) ''PORT'' = Inr (True, Some ''8281 '')"
proof -
  have "list_all plain_entry [(''port'', ''8281 ''), (''name'', ''x'')]"
    by (simp add: plain_name_def plain_value_def cfg_blank_def)
  moreover have "strcmpi ''port'' ''PORT''" by code_simp
  ultimately show ?thesis
    using ConfigGetEntry_find [of "[(''port'', ''8281 ''), (''name'', ''x'')]" "''PORT''"] by simp
qed

lemma dec_nat_length: "n < 10 ^ Suc k \<Longrightarrow> length (dec_nat n) \<le> Suc k"
proof (induction k arbitrary: n)
  case 0
  then show ?case by (simp add: dec_nat.simps [of n])
next
  case (Suc k)
  then have "n div 10 < 10 ^ Suc k" by (simp add: less_mult_imp_div_less)
  from Suc.IH [OF this] show ?case by (simp add: dec_nat.simps [of n])
qed

text \<open>
  C29. A number written into a configuration file in decimal is read back: for every 32-bit integer, under
  any plain name, whatever follows it in the file and whatever the default.
\<close>

theorem ConfigGetInt_roundtrip:
  assumes "plain_name nm" "length nm < 400" "-2147483648 \<le> i" "i \<le> 2147483647"
  shows "ConfigGetInt (Some (nm @ CHR ''='' # dec_int i @ CHR 0x0A # rest)) nm d = Inr (word_of_int i)"
proof -
  have "length (dec_nat (nat i)) \<le> 10" "length (dec_nat (nat (- i))) \<le> 10"
    using assms(3,4) dec_nat_length [of "nat i" 9] dec_nat_length [of "nat (- i)" 9] by simp_all
  then have "length (dec_int i) \<le> 11" by (simp add: dec_int_def)
  then have "length nm + length (dec_int i) < 508" using assms(2) by simp
  from ConfigGetEntry_first [OF assms(1) plain_dec this, of rest] show ?thesis
    using assms(3,4) by (simp add: ConfigGetInt_def atou_def atoi_dec_int sat32_def)
qed

theorem ConfigGetInt_roundtrip_witness:
  "ConfigGetInt (Some (''xprate'' @ CHR ''='' # dec_int (-5) @ CHR 0x0A # [])) ''xprate'' 1 = Inr (word_of_int (-5))"
proof -
  have "plain_name ''xprate''" by (simp add: plain_name_def cfg_blank_def)
  from ConfigGetInt_roundtrip [OF this, of "-5" "[]" 1] show ?thesis by simp
qed

text \<open>An empty file is not an empty configuration: the parser looks at its buffer before anything was read.\<close>

lemma empty_config_faults: "ConfigGetEntry (Some []) must = Inl Uninitialised"
  by (simp add: ConfigGetEntry_def cfg_loop.simps [of must None "[]"] fgets_def)

end
