(* ===== verification/Logging.thy ===== *)
theory Logging
  imports CLib
begin

text \<open>
  Console output, \<open>src/src/commom/log.cpp\<close>: the sixteen colours, \<open>textcolor\<close>, \<open>Log\<close> and
  \<open>ShowHeader\<close>. The console is the list of what was sent to it, attributes and text. A
  \<open>va_list\<close> is passed by value (it is a pointer in the Win32 build), so that using it a second
  time prints the same arguments again.
\<close>

section \<open>Colours and message types\<close>

datatype COLORS = BLACK | BLUE | GREEN | CYAN | RED | MAGENTA | BROWN | LIGHTGRAY | DARKGRAY
  | LIGHTBLUE | LIGHTGREEN | LIGHTCYAN | LIGHTRED | LIGHTMAGENTA | YELLOW | WHITE

definition all_colors :: "COLORS list" where
  "all_colors = [BLACK, BLUE, GREEN, CYAN, RED, MAGENTA, BROWN, LIGHTGRAY, DARKGRAY,
     LIGHTBLUE, LIGHTGREEN, LIGHTCYAN, LIGHTRED, LIGHTMAGENTA, YELLOW, WHITE]"

definition color_no :: "COLORS \<Rightarrow> nat" where
  "color_no c = length (takeWhile (\<lambda>x. x \<noteq> c) all_colors)"

datatype msg_type = MSG_NONE | MSG_STATUS | MSG_SQL | MSG_INFO | MSG_NOTICE | MSG_WARNING | MSG_DEBUG
  | MSG_ERROR | MSG_FATALERROR | MSG_HACK | MSG_LOAD | MSG_SDEBUG | MSG_GMACTION

datatype con_event = Attr nat | Put string

record console =
  background :: COLORS
  foreground :: COLORS
  screen :: "con_event list"

definition new_console :: console where
  "new_console = \<lparr>background = BLACK, foreground = LIGHTGRAY, screen = []\<rparr>"

section \<open>Output\<close>

definition SetConsoleTextAttribute :: "nat \<Rightarrow> (console, unit) op" where
  "SetConsoleTextAttribute n = modify (\<lambda>c. c\<lparr>screen := screen c @ [Attr n]\<rparr>)"

definition printf :: "string \<Rightarrow> (console, unit) op" where
  "printf s = modify (\<lambda>c. c\<lparr>screen := screen c @ [Put s]\<rparr>)"

definition vprintf :: "string \<Rightarrow> varg list \<Rightarrow> (console, unit) op" where
  "vprintf f ap = bnd (liftE (vsprintf f ap)) printf"

definition textcolor :: "COLORS \<Rightarrow> (console, unit) op" where
  "textcolor color =
     bnd (modify (\<lambda>c. c\<lparr>foreground := color\<rparr>)) (\<lambda>_.
     bnd (gets background) (\<lambda>bg.
     SetConsoleTextAttribute (color_no color + 16 * color_no bg)))"

fun msg_tag :: "msg_type \<Rightarrow> (COLORS \<times> string) option" where
  "msg_tag MSG_STATUS = Some (GREEN, ''[STATUS]: '')"
| "msg_tag MSG_SQL = Some (LIGHTMAGENTA, ''[SQL]: '')"
| "msg_tag MSG_INFO = Some (LIGHTGREEN, ''[INFO]: '')"
| "msg_tag MSG_NOTICE = Some (YELLOW, ''[NOTICE]: '')"
| "msg_tag MSG_WARNING = Some (LIGHTCYAN, ''[WARNING]: '')"
| "msg_tag MSG_DEBUG = Some (LIGHTBLUE, ''[DEBUG]: '')"
| "msg_tag MSG_ERROR = Some (LIGHTRED, ''[ERROR]: '')"
| "msg_tag MSG_FATALERROR = Some (LIGHTRED, ''[FATAL ERROR]: '')"
| "msg_tag MSG_HACK = Some (LIGHTRED, ''[HACK]: '')"
| "msg_tag MSG_LOAD = Some (LIGHTRED, ''[LOADING]: '')"
| "msg_tag MSG_GMACTION = Some (MAGENTA, ''[GM ACTION]: '')"
| "msg_tag flag = None"

text \<open>\<open>ctime\<close> is the text of the current time with its trailing newline, which becomes a blank.\<close>

definition Log :: "string \<Rightarrow> msg_type \<Rightarrow> string \<Rightarrow> varg list \<Rightarrow> (console, unit) op" where
  "Log ctime flag Format ap =
     (let timestamp = ctime[length ctime - 1 := CHR '' ''] in
      seqM
       [whenM (flag \<noteq> MSG_SQL) (seqM [textcolor WHITE, printf timestamp]),
        (if flag = MSG_NONE then seqM [textcolor WHITE, vprintf Format ap]
         else (case msg_tag flag of None \<Rightarrow> ret () | Some (color, tag) \<Rightarrow> seqM [textcolor color, printf tag])),
        textcolor LIGHTGRAY,
        vprintf Format ap,
        printf (if flag = MSG_LOAD then [CHR 0x0D] else [CHR 0x0A])])"

definition banner :: "string list" where
  "banner =
     [replicate 73 (CHR ''#'') @ [CHR 0x0A],
      ''#'' @ [CHR 0x09] @ [CHR 0x09] @ '' ____              _    _               '' @ [CHR 0x09] @ [CHR 0x09] @ ''#'' @ [CHR 0x0A],
      ''#'' @ [CHR 0x09] @ [CHR 0x09] @ ''|  _ '' @ [CHR 0x5C] @ ''   ___  ___ | |_ (_) _ __   _   _ '' @ [CHR 0x09] @ [CHR 0x09] @ ''#'' @ [CHR 0x0A],
      ''#'' @ [CHR 0x09] @ [CHR 0x09] @ ''| | | | / _ '' @ [CHR 0x5C] @ ''/ __|| __|| || '' @ [CHR 0x27] @ ''_ '' @ [CHR 0x5C] @ '' | | | |'' @ [CHR 0x09] @ [CHR 0x09] @ ''#'' @ [CHR 0x0A],
      ''#'' @ [CHR 0x09] @ [CHR 0x09] @ ''| |_| ||  __/'' @ [CHR 0x5C] @ ''__ '' @ [CHR 0x5C] @ ''| |_ | || | | || |_| |'' @ [CHR 0x09] @ [CHR 0x09] @ ''#'' @ [CHR 0x0A],
      ''#'' @ [CHR 0x09] @ [CHR 0x09] @ ''|____/  '' @ [CHR 0x5C] @ ''___||___/ '' @ [CHR 0x5C] @ ''__||_||_| |_| '' @ [CHR 0x5C] @ ''__, |'' @ [CHR 0x09] @ [CHR 0x09] @ ''#'' @ [CHR 0x0A],
      ''#'' @ [CHR 0x09] @ [CHR 0x09] @ ''                                  |___/ '' @ [CHR 0x09] @ [CHR 0x09] @ ''#'' @ [CHR 0x0A],
      ''#'' @ [CHR 0x09] @ [CHR 0x09] @ ''Home Page: http://destinyemu.sf.net'' @ [CHR 0x09] @ [CHR 0x09] @ [CHR 0x09] @ ''#'' @ [CHR 0x0A],
      replicate 73 (CHR ''#'') @ [CHR 0x0A]]"

definition ShowHeader :: "(console, unit) op" where
  "ShowHeader = seqM
     ([SetConsoleTextAttribute (color_no LIGHTCYAN + 16 * color_no BLUE)] @ map printf banner @
      [textcolor LIGHTGRAY, printf [CHR 0x09, CHR 0x0A, CHR 0x0A]])"

section \<open>What appears on the console\<close>

fun ev_text :: "con_event \<Rightarrow> string" where
  "ev_text (Put s) = s"
| "ev_text (Attr n) = []"

definition shown :: "console \<Rightarrow> string" where
  "shown c = concat (map ev_text (screen c))"

text \<open>
  \<open>writes m s\<close>: \<open>m\<close> does not fault, keeps the background and appends the text \<open>s\<close>.
\<close>

definition writes :: "(console, unit) op \<Rightarrow> string \<Rightarrow> bool" where
  "writes m s \<longleftrightarrow> (\<forall>c. \<exists>c'. m c = Inr ((), c') \<and> shown c' = shown c @ s \<and> background c' = background c)"

named_theorems writes_rules

lemma writes_printf [writes_rules]: "writes (printf s) s"
  by (simp add: writes_def printf_def modify_def shown_def)

lemma writes_textcolor [writes_rules]: "writes (textcolor k) []"
  by (simp add: writes_def textcolor_def SetConsoleTextAttribute_def modify_def shown_def)

lemma writes_attribute [writes_rules]: "writes (SetConsoleTextAttribute n) []"
  by (simp add: writes_def SetConsoleTextAttribute_def modify_def shown_def)

lemma writes_vprintf: "vsprintf f ap = Inr s \<Longrightarrow> writes (vprintf f ap) s"
  using writes_printf [of s] by (simp add: writes_def vprintf_def liftE_def bnd_def)

lemma writes_ret [writes_rules]: "writes (ret ()) []"
  by (simp add: writes_def)

lemma writes_Nil [writes_rules]: "writes (seqM []) []"
  by (simp add: writes_def)

lemma writes_Cons [writes_rules]: "writes m s \<Longrightarrow> writes (seqM ms) t \<Longrightarrow> writes (seqM (m # ms)) (s @ t)"
proof -
  assume m: "writes m s" and ms: "writes (seqM ms) t"
  show ?thesis
    unfolding writes_def
  proof
    fix c
    obtain c1 where c1: "m c = Inr ((), c1)" "shown c1 = shown c @ s" "background c1 = background c"
      using m by (metis writes_def)
    obtain c2 where "seqM ms c1 = Inr ((), c2)" "shown c2 = shown c1 @ t" "background c2 = background c1"
      using ms by (metis writes_def)
    with c1 show "\<exists>c'. seqM (m # ms) c = Inr ((), c') \<and> shown c' = shown c @ s @ t \<and> background c' = background c"
      by simp
  qed
qed

lemma writes_seqM: "list_all2 writes ms ss \<Longrightarrow> writes (seqM ms) (concat ss)"
proof (induction rule: list_all2_induct)
  case Nil
  show ?case by (simp only: writes_Nil concat.simps)
next
  case (Cons m ms s ss)
  from writes_Cons [OF Cons(1) Cons(3)] show ?case by simp
qed

text \<open>What \<open>Log\<close> is meant to print: time (not for SQL), tag, message, end of line.\<close>

definition log_line :: "string \<Rightarrow> msg_type \<Rightarrow> string \<Rightarrow> string" where
  "log_line ctime flag msg =
     (if flag = MSG_SQL then [] else butlast ctime @ '' '') @
     (case msg_tag flag of None \<Rightarrow> [] | Some (_, tag) \<Rightarrow> tag) @ msg @
     (if flag = MSG_LOAD then [CHR 0x0D] else [CHR 0x0A])"

lemma stamp_blank: "ct \<noteq> [] \<Longrightarrow> ct[length ct - 1 := x] = butlast ct @ [x]"
  by (induction ct rule: rev_induct) (auto simp: list_update_append)

lemma writes_Log:
  assumes msg: "vsprintf f ap = Inr s" and ct: "ct \<noteq> []"
  shows "writes (Log ct flag f ap)
    (if flag = MSG_NONE then butlast ct @ '' '' @ s @ s @ [CHR 0x0A] else log_line ct flag s)"
proof -
  have stamp: "writes (whenM (flag \<noteq> MSG_SQL) (seqM [textcolor WHITE, printf (butlast ct @ '' '')]))
      (if flag = MSG_SQL then [] else butlast ct @ '' '')"
    using writes_Cons [OF writes_textcolor writes_Cons [OF writes_printf writes_Nil]] writes_ret
    by (simp add: whenM_def del: seqM.simps)
  have tag: "writes (if flag = MSG_NONE then seqM [textcolor WHITE, vprintf f ap]
        else (case msg_tag flag of None \<Rightarrow> ret () | Some (color, tag) \<Rightarrow> seqM [textcolor color, printf tag]))
      (if flag = MSG_NONE then s else (case msg_tag flag of None \<Rightarrow> [] | Some (_, tag) \<Rightarrow> tag))"
    using writes_Cons [OF writes_textcolor writes_Cons [OF writes_vprintf [OF msg] writes_Nil]]
      writes_Cons [OF writes_textcolor writes_Cons [OF writes_printf writes_Nil]] writes_ret
    by (simp split: option.split del: seqM.simps)
  have "writes (Log ct flag f ap) (concat
      [(if flag = MSG_SQL then [] else butlast ct @ '' ''),
       (if flag = MSG_NONE then s else (case msg_tag flag of None \<Rightarrow> [] | Some (_, tag) \<Rightarrow> tag)),
       [], s, (if flag = MSG_LOAD then [CHR 0x0D] else [CHR 0x0A])])"
    unfolding Log_def Let_def stamp_blank [OF ct]
    by (rule writes_seqM)
      (simp only: list.rel_inject list.rel_intros stamp tag writes_textcolor writes_vprintf [OF msg] writes_printf simp_thms)
  then show ?thesis by (cases "flag = MSG_NONE") (auto simp: log_line_def)
qed

lemma color_attr_byte: "color_no a + 16 * color_no b < 256"
  by (cases a; cases b) (simp_all add: color_no_def all_colors_def)

text \<open>
  A log call prints one line: the time without its newline (unless the message is SQL), the tag of
  the kind, the formatted message, and a newline, or a carriage return for progress lines. The kind
  \<open>MSG_NONE\<close> prints its message twice.
\<close>

lemma Log_prints:
  assumes "vsprintf f ap = Inr s" and "ct \<noteq> []"
  shows "\<exists>c'. Log ct flag f ap c = Inr ((), c') \<and> background c' = background c \<and>
    shown c' = shown c @ (if flag = MSG_NONE then butlast ct @ '' '' @ s @ s @ [CHR 0x0A] else log_line ct flag s)"
  using writes_Log [OF assms, of flag] unfolding writes_def by blast

end
