(* ===== verification/Startup.thy ===== *)
theory Startup
  imports Threads Config Logging
begin

text \<open>
  Start and end of the process: \<open>main\<close> (\<open>src/src/gameserver/main.cpp\<close>), the signal handlers
  (\<open>game_signal.cpp\<close>), the loading of \<open>encdec.dll\<close> (\<open>src/src/commom/encdec.cpp\<close>), the monster
  object (\<open>game_monster.cpp\<close>) and the table of item effects (\<open>game_itemeffect.h\<close>).
\<close>

section \<open>Loading the cipher library\<close>

text \<open>
  Handles and function pointers are addresses, 0 is \<open>NULL\<close>. \<open>GetProcAddress\<close> is the system's; the
  messages the constructor logs are the second component.
\<close>

record CEncDec =
  hENCDEC :: u32
  WYD2_Decrypt :: u32
  WYD2_Encrypt :: u32
  WYD2_GetHash1 :: u32

definition CEncDec_new :: "u32 \<Rightarrow> (u32 \<Rightarrow> string \<Rightarrow> u32) \<Rightarrow> CEncDec \<times> string list" where
  "CEncDec_new lib GetProcAddress =
     (let e = \<lparr>hENCDEC = lib,
               WYD2_Decrypt = GetProcAddress lib ''WYD2_Decrypt'',
               WYD2_Encrypt = GetProcAddress lib ''WYD2_Encrypt'',
               WYD2_GetHash1 = GetProcAddress lib ''WYD2_GetHash1''\<rparr>
      in (e, (if hENCDEC e = 0 then [''Failed to load Library encdec.dll''] else []) @
             (if WYD2_Decrypt e = 0 then [''Failed to load Decrypt Function''] else []) @
             (if WYD2_Decrypt e = 0 then [''Failed to load Encrypt Function''] else []) @
             (if WYD2_Decrypt e = 0 then [''Failed to load Hash Function''] else [])))"

text \<open>A call through one of the pointers.\<close>

definition call_ptr :: "u32 \<Rightarrow> 'a \<Rightarrow> 'a res" where
  "call_ptr p r = (if p = 0 then Inl Null_deref else Inr r)"

section \<open>Signals\<close>

datatype signum = SIGINT | SIGILL | SIGFPE | SIGSEGV | SIGTERM | SIGBREAK | SIGABRT

datatype disposition = SIG_DFL | Handler

type_synonym dispositions = "signum \<Rightarrow> disposition"

definition all_signals :: "signum list" where
  "all_signals = [SIGINT, SIGILL, SIGFPE, SIGSEGV, SIGTERM, SIGBREAK, SIGABRT]"

definition StartSignal :: "dispositions \<Rightarrow> dispositions" where
  "StartSignal d = fold (\<lambda>s d. d(s := Handler)) all_signals d"

definition StopSignal :: "dispositions \<Rightarrow> dispositions" where
  "StopSignal d = fold (\<lambda>s d. d(s := SIG_DFL)) all_signals d"

datatype sig_act =
    Say msg_type string
  | Disconnect
  | Sleep nat
  | Raise signum
  | Shutdown_in nat
  | Unknown_signal

fun HandleSignal :: "signum \<Rightarrow> sig_act list" where
  "HandleSignal SIGINT = [Say MSG_ERROR ''Signal received: SIGINT'', Sleep 1000, Raise SIGINT]"
| "HandleSignal SIGILL =
     [Say MSG_ERROR ''Signal received: SIGILL, Server will be closed, Trying to save...'',
      Disconnect, Sleep 1000, Raise SIGILL]"
| "HandleSignal SIGFPE =
     [Say MSG_ERROR ''Signal received: SIGFPE, Server will be closed, Trying to save...'',
      Disconnect, Raise SIGFPE]"
| "HandleSignal SIGSEGV =
     [Say MSG_ERROR ''Signal received: SIGSEGV, Server will be closed, Trying to save...'',
      Disconnect, Sleep 1000, Raise SIGSEGV]"
| "HandleSignal SIGTERM =
     [Say MSG_INFO ''Signal received: SIGTERM, Server will be closed'', Shutdown_in 0]"
| "HandleSignal SIGBREAK =
     [Say MSG_INFO ''Signal received: SIGBREAK, Server will be closed'', Shutdown_in 0]"
| "HandleSignal SIGABRT = [Unknown_signal, Raise SIGABRT]"

text \<open>
  The process as the signal handlers see it. \<open>GServer\<close> is null until \<open>OnServerReady\<close>; then
  \<open>online\<close> holds. \<open>shutdowns\<close> counts the shutdown threads that have been created: every \<open>SIGTERM\<close> or \<open>SIGBREAK\<close>
  creates another one, whatever the state of the server. The C library sets the disposition of a signal back to \<open>SIG_DFL\<close> before it
  calls the handler, and the default action ends the process.
\<close>

record process =
  state :: mstate
  online :: bool
  disp :: dispositions
  shutdowns :: nat
  ended :: bool

fun sig_step :: "sig_act \<Rightarrow> (process, unit) op" where
  "sig_step (Say t s) = ret ()"
| "sig_step (Sleep n) = ret ()"
| "sig_step Unknown_signal = ret ()"
| "sig_step Disconnect = (\<lambda>p.
     if \<not> online p then Inl Null_deref
     else (case DisconnectAll (mem (state p)) of
             Inl e \<Rightarrow> Inl e
           | Inr (_, w) \<Rightarrow> Inr ((), p\<lparr>state := (state p)\<lparr>mem := w\<rparr>\<rparr>)))"
| "sig_step (Shutdown_in n) = (\<lambda>p.
     if \<not> online p then Inl Null_deref
     else Inr ((), p\<lparr>state := (state p)\<lparr>code := (code (state p))(Shutdown_thread (shutdowns p) := ShutdownServer)\<rparr>,
       shutdowns := Suc (shutdowns p)\<rparr>))"
| "sig_step (Raise s) = (\<lambda>p. Inr ((), if disp p s = SIG_DFL then p\<lparr>ended := True\<rparr> else p))"

definition deliver :: "signum \<Rightarrow> (process, unit) op" where
  "deliver s = (\<lambda>p.
     case disp p s of
       SIG_DFL \<Rightarrow> Inr ((), p\<lparr>ended := True\<rparr>)
     | Handler \<Rightarrow> forM_list (HandleSignal s) sig_step (p\<lparr>disp := (disp p)(s := SIG_DFL)\<rparr>))"

section \<open>main\<close>

datatype sysop =
    Show_header
  | Signals_on
  | Signals_off
  | Mysql_init
  | Mysql_close
  | Mutex_init mutex
  | Mutex_destroy mutex
  | Wsa_startup
  | Wsa_cleanup
  | Pause
  | New_server
  | Delete_server
  | Attr_init
  | Attr_destroy
  | Mysql_connect
  | Start_server

record main_in =
  mysql_thread_safe :: bool
  wsa_err :: int
  wsa_version :: u16
  mysql_real_connect :: bool
  start_args :: start_in
  rounds :: "loop_in list"

record run =
  calls :: "sysop list"
  srv :: world

definition call :: "sysop \<Rightarrow> (run, unit) op" where
  "call c = modify (\<lambda>r. r\<lparr>calls := calls r @ [c]\<rparr>)"

definition on_server :: "'a act \<Rightarrow> (run, 'a) op" where
  "on_server m = (\<lambda>r. case m (srv r) of Inl e \<Rightarrow> Inl e | Inr (x, w) \<Rightarrow> Inr (x, r\<lparr>srv := w\<rparr>))"

definition main :: "env \<Rightarrow> main_in \<Rightarrow> (run, int) op" where
  "main E inp =
     bnd (call Show_header) (\<lambda>_.
     bnd (call Signals_on) (\<lambda>_.
     if \<not> mysql_thread_safe inp then bnd (call Pause) (\<lambda>_. ret (-1))
     else
       bnd (seqM (map call [Mysql_init, Mutex_init MainMutex, Mutex_init PlayerMutex, Mutex_init MonsterMutex,
         Mutex_init DropMutex, Wsa_startup])) (\<lambda>_.
       if wsa_err inp \<noteq> 0 \<or> wsa_version inp \<noteq> 0x0202 then bnd (call Pause) (\<lambda>_. ret (-1))
       else
         bnd (call New_server) (\<lambda>_.
         bnd (on_server (CConnServer_new E)) (\<lambda>_.
         bnd (seqM (map call [Attr_init, Mysql_connect])) (\<lambda>_.
         if \<not> mysql_real_connect inp then bnd (call Pause) (\<lambda>_. ret (-1))
         else
           bnd (call Start_server) (\<lambda>_.
           bnd (on_server (StartServer E (start_args inp) (rounds inp))) (\<lambda>_.
           bnd (seqM (map call [Attr_destroy, Delete_server, Mysql_close, Wsa_cleanup, Signals_off,
             Mutex_destroy DropMutex, Mutex_destroy MonsterMutex, Mutex_destroy PlayerMutex,
             Mutex_destroy MainMutex])) (\<lambda>_.
           ret 0)))))))))"

section \<open>Monsters\<close>

record CMonster =
  Position :: currentition
  SpawnTime :: u32
  lastSighCheck :: u32

definition CMonster_new :: "env \<Rightarrow> currentition \<Rightarrow> fPoint \<Rightarrow> u32 \<Rightarrow> CMonster act" where
  "CMonster_new E junk mposition mspawnid =
     bnd (clockM E) (\<lambda>t1.
     bnd (clockM E) (\<lambda>t2.
     bnd (clockM E) (\<lambda>t3.
     ret \<lparr>Position = junk\<lparr>source := mposition, current := mposition, destiny := mposition,
            respawn := mspawnid, pos_lastMoveTime := t3\<rparr>,
          SpawnTime = t1, lastSighCheck = t2\<rparr>)))"

section \<open>Item effects\<close>

definition item_effects :: "(string \<times> nat) list" where
  "item_effects =
   [(''EF_NONE'', 0), (''EF_LEVEL'', 1), (''EF_DAMAGE'', 2), (''EF_AC'', 3), (''EF_HP'', 4),
    (''EF_MP'', 5), (''EF_EXP'', 6), (''EF_STR'', 7), (''EF_INT'', 8), (''EF_DEX'', 9),
    (''EF_CON'', 10), (''EF_SPECIAL1'', 11), (''EF_SPECIAL2'', 12), (''EF_SPECIAL3'', 13),
    (''EF_SPECIAL4'', 14), (''EF_SCORE14'', 15), (''EF_SCORE15'', 16), (''EF_POS'', 17),
    (''EF_CLASS'', 18), (''EF_R1SIDC'', 19), (''EF_R2SIDC'', 20), (''EF_WTYPE'', 21),
    (''EF_REQ_STR'', 22), (''EF_REQ_INT'', 23), (''EF_REQ_DEX'', 24), (''EF_REQ_CON'', 25),
    (''EF_ATTSPEED'', 26), (''EF_RANGE'', 27), (''EF_RUNSPEED'', 29), (''EF_SPELL'', 30),
    (''EF_DURATION'', 31), (''EF_PARM2'', 32), (''EF_GRID'', 33), (''EF_GROUND'', 34),
    (''EF_CLAN'', 35), (''EF_HWORDCOIN'', 36), (''EF_LWORDCOIN'', 37), (''EF_VOLATILE'', 38),
    (''EF_KEYID'', 39), (''EF_PARRY'', 40), (''EF_HITRATE'', 41), (''EF_CRITICAL'', 42),
    (''EF_SANC'', 43), (''EF_SAVEMANA'', 44), (''EF_HPADD'', 45), (''EF_MPADD'', 46),
    (''EF_REGENHP'', 47), (''EF_REGENMP'', 48), (''EF_RESIST1'', 49), (''EF_RESIST2'', 50),
    (''EF_RESIST3'', 51), (''EF_RESIST4'', 52), (''EF_ACADD'', 53), (''EF_RESISTALL'', 54),
    (''EF_BONUS'', 55), (''EF_HWORDGUILD'', 56), (''EF_LWORDGUILD'', 57), (''EF_QUEST'', 58),
    (''EF_UNIQUE'', 59), (''EF_MAGIC'', 60), (''EF_AMOUNT'', 61), (''EF_HWORDINDEX'', 62),
    (''EF_LWORDINDEX'', 63), (''EF_INIT1'', 64), (''EF_INIT2'', 65), (''EF_INIT3'', 66),
    (''EF_DAMAGEADD'', 67), (''EF_MAGICADD'', 68), (''EF_HPADD2'', 69), (''EF_MPADD2'', 70),
    (''EF_CRITICAL2'', 71), (''EF_ACADD2'', 72), (''EF_DAMAGE2'', 73), (''EF_SPECIALALL'', 74),
    (''EF_CURKILL'', 75), (''EF_LTOTKILL'', 76), (''EF_HTOTKILL'', 77), (''EF_INCUBATE'', 78),
    (''EF_MOUNTLIFE'', 79), (''EF_MOUNTHP'', 80), (''EF_MOUNTSANC'', 81), (''EF_MOUNTFEED'', 82),
    (''EF_MOUNTKILL'', 83), (''EF_INCUDELAY'', 84), (''EF_SUBGUILD'', 85), (''EF_GRADE0'', 100),
    (''EF_GRADE1'', 101), (''EF_GRADE2'', 102), (''EF_GRADE3'', 103), (''EF_GRADE4'', 104),
    (''EF_GRADE5'', 105)]"

section \<open>Lemmas\<close>

lemma all_signals_complete: "s \<in> set all_signals"
  by (cases s) (simp_all add: all_signals_def)

lemma fold_disp: "fold (\<lambda>s d. d(s := x)) ss d = (\<lambda>s. if s \<in> set ss then x else d s)"
  by (induction ss arbitrary: d) (auto simp: fun_eq_iff)

lemma StartSignal_all: "StartSignal d s = Handler"
  by (simp add: StartSignal_def fold_disp all_signals_complete)

lemma StopSignal_all: "StopSignal d s = SIG_DFL"
  by (simp add: StopSignal_def fold_disp all_signals_complete)

lemma codes_distinct: "distinct (map snd item_effects)" "distinct (map fst item_effects)"
  by (simp_all add: item_effects_def)

lemma codes_byte: "p \<in> set item_effects \<Longrightarrow> snd p < 256"
  by (auto simp: item_effects_def)

lemma call_run [simp]: "bnd (call c) f r = f () (r\<lparr>calls := calls r @ [c]\<rparr>)"
  by (simp add: call_def)

lemma calls_run: "seqM (map call cs) r = Inr ((), r\<lparr>calls := calls r @ cs\<rparr>)"
  by (induction cs arbitrary: r) (simp_all add: ret_def)

section \<open>Losing the process\<close>

definition offline :: "CConnClient \<Rightarrow> CConnClient" where
  "offline c = (if inGame (PlayerSession c) then c\<lparr>isActive := False\<rparr> else c)"

lemma disconnect_loop_run:
  "clients w a = Some c \<Longrightarrow> disconnect_loop a w = Inr ((), w\<lparr>clients := (clients w)(a \<mapsto> offline c)\<rparr>)"
  by (simp add: disconnect_loop_def offline_def whenM_def ret_def fun_upd_idem upd_client_def)

lemma offline_offline [simp]: "offline (offline c) = offline c"
  by (simp add: offline_def)

lemma disconnect_list_run:
  "(\<And>a. a \<in> set as \<Longrightarrow> clients w a \<noteq> None) \<Longrightarrow>
    forM_list as disconnect_loop w =
      Inr ((), w\<lparr>clients := (\<lambda>a. if a \<in> set as then map_option offline (clients w a) else clients w a)\<rparr>)"
proof (induction as arbitrary: w)
  case Nil
  then show ?case by (simp add: ret_def)
next
  case (Cons a as)
  then obtain c where c: "clients w a = Some c" by fastforce
  let ?w = "w\<lparr>clients := (clients w)(a \<mapsto> offline c)\<rparr>"
  have "clients ?w b \<noteq> None" if "b \<in> set as" for b using Cons.prems [of b] that by simp
  from Cons.IH [of ?w, OF this] c show ?case
    by (simp add: disconnect_loop_run) (auto simp: fun_eq_iff intro!: arg_cong [where f = "\<lambda>f. w\<lparr>clients := f\<rparr>"])
qed

text \<open>
  C39. A fault of the processor does not leave players active: with the handlers installed and the
  server online, the delivery of \<open>SIGILL\<close>, \<open>SIGFPE\<close> or \<open>SIGSEGV\<close> marks every client that is in the game
  inactive, changes no other client, and then ends the process.
\<close>

theorem fault_signal_ends:
  assumes "s \<in> {SIGILL, SIGFPE, SIGSEGV}" and disp: "disp p = StartSignal d" and on: "online p"
    and alive: "\<And>a. a \<in> set (ClientList (mem (state p))) \<Longrightarrow> clients (mem (state p)) a \<noteq> None"
  shows "\<exists>p'. deliver s p = Inr ((), p') \<and> ended p' \<and> clients (mem (state p')) = (\<lambda>a.
    if a \<in> set (ClientList (mem (state p))) then map_option offline (clients (mem (state p)) a) else clients (mem (state p)) a)"
proof -
  have run: "DisconnectAll (mem (state p)) = Inr ((), (mem (state p))\<lparr>clients := (\<lambda>a.
      if a \<in> set (ClientList (mem (state p))) then map_option offline (clients (mem (state p)) a)
      else clients (mem (state p)) a)\<rparr>)"
    using disconnect_list_run [of "ClientList (mem (state p))" "mem (state p)", OF alive] by (simp add: DisconnectAll_def)
  have "disp p s = Handler" unfolding disp by (rule StartSignal_all)
  then show ?thesis using assms(1) on run by (auto simp: deliver_def bnd_def ret_def)
qed

theorem fault_signal_ends_witness:
  "\<exists>p'. deliver SIGSEGV \<lparr>state = OnServerStep sample_world, online = True, disp = StartSignal (\<lambda>_. SIG_DFL), shutdowns = 0, ended = False\<rparr> =
     Inr ((), p') \<and> ended p'"
proof -
  let ?p = "\<lparr>state = OnServerStep sample_world, online = True, disp = StartSignal (\<lambda>_. SIG_DFL), shutdowns = 0, ended = False\<rparr>"
  have "\<And>a. a \<in> set (ClientList (mem (state ?p))) \<Longrightarrow> clients (mem (state ?p)) a \<noteq> None"
    by (auto simp: OnServerStep_def sample_world_def)
  from fault_signal_ends [OF _ _ _ this, of SIGSEGV "\<lambda>_. SIG_DFL"] show ?thesis by auto
qed

section \<open>The exit code\<close>

definition acquired :: "(sysop \<times> sysop) list" where
  "acquired = [(Signals_on, Signals_off), (Mysql_init, Mysql_close), (Mutex_init MainMutex, Mutex_destroy MainMutex),
     (Mutex_init PlayerMutex, Mutex_destroy PlayerMutex), (Mutex_init MonsterMutex, Mutex_destroy MonsterMutex),
     (Mutex_init DropMutex, Mutex_destroy DropMutex), (Wsa_startup, Wsa_cleanup), (New_server, Delete_server),
     (Attr_init, Attr_destroy)]"

text \<open>
  The end of the program: \<open>main\<close> returns 0 exactly when the client library is thread safe, the
  socket library starts in version 2.2 and the database can be reached; the outcome of \<open>StartServer\<close>
  has no part in it. A run that returns 0 has released everything it acquired, each once; a run that
  returns -1 has released nothing.
\<close>

lemma main_exit:
  assumes run: "main E inp r = Inr (n, r')" and new: "calls r = []"
  shows "n = (if mysql_thread_safe inp \<and> wsa_err inp = 0 \<and> wsa_version inp = 0x0202 \<and> mysql_real_connect inp then 0 else -1) \<and>
    list_all (\<lambda>(a, b). count_list (calls r') b = (if n = 0 then 1 else 0) \<and> (n = 0 \<longrightarrow> count_list (calls r') a = 1)) acquired"
proof -
  have srv: "calls v' = calls v" if "on_server m v = Inr (x, v')" for m :: "'z act" and v v' x
    using that by (auto simp: on_server_def split: sum.splits)
  show ?thesis
    using run new
    by (auto simp: main_def calls_run bnd_eq_Inr acquired_def dest!: srv split: if_splits)
qed

end
