(* ===== verification/Network.thy ===== *)
theory Network
  imports Threads
begin

text \<open>
  The whole process: the network thread's \<open>ServerLoop\<close> (\<open>src/src/commom/socket_server.cpp\<close>) interleaved
  with the threads of \<open>Threads\<close>. The network thread is a program counter, \<open>net_pc\<close>, and one function,
  \<open>net_exec\<close>, for what it does between two points at which another thread may run: one round of the loops
  \<open>FillFDS\<close> and \<open>HandleClients\<close>, \<open>select\<close>, \<open>accept\<close>, and the three parts of \<open>DisconnectClient\<close> (close,
  erase, delete). It takes no mutex but for \<open>DeleteClientSocket\<close>, whose code is \<open>DeleteProcess\<close>. The
  handling of one received block is one step.

  Shown: run alone, the network thread does what \<open>server_iter\<close> does; in every interleaving, only the
  handling of a received block can fault, and a thread whose loop over the clients, that of a scan included, the network
  thread has disturbed (\<open>stale\<close>), which is reachable for each of the loops; the threads keep their exclusion and never
  deadlock; and a failing \<open>select\<close> ends the loop while the workers go on.
\<close>

section \<open>The network thread\<close>

datatype net_pc =
    N_fill nat "u32 list"
  | N_select "u32 list"
  | N_accept loop_in "u32 list"
  | N_handle loop_in "u32 list" nat
  | N_close nat net_pc
  | N_erase nat net_pc
  | N_delete nat net_pc
  | N_again
  | N_end

text \<open>
  \<open>inp\<close> is what the operating system answers if the step is the \<open>select\<close>. What a failed \<open>select\<close> leaves in the set of
  descriptors is not documented for every system the program is written for (unchanged, by POSIX): it is any part of it.
\<close>

fun net_exec :: "env \<Rightarrow> loop_in \<Rightarrow> net_pc \<Rightarrow> net_pc act" where
  "net_exec E inp (N_fill i fds) =
     bnd (gets ClientList) (\<lambda>cs.
     if length cs \<le> i then ret (N_select fds)
     else
       bnd (client (cs ! i)) (\<lambda>c.
       ret (if isActive c then N_fill (i + 1) (fds @ [sock c]) else N_close (cs ! i) (N_fill (i + 1) fds))))"
| "net_exec E inp (N_select fds) =
     bnd (gets srv_sock) (\<lambda>s.
     let fds' = filter (\<lambda>x. x \<in> set (readyfds inp)) (fds @ [s]) in
     if activity inp = 0 then ret N_again
     else
       bnd (whenM (activity inp < 0 \<and> \<not> eintr inp) (modify (\<lambda>w. w\<lparr>srv_isActive := False\<rparr>))) (\<lambda>_.
       ret (N_accept inp fds')))"
| "net_exec E inp (N_accept os fds) =
     bnd (gets srv_sock) (\<lambda>s.
     bnd (whenM (s \<in> set fds \<and> accepted os \<noteq> INVALID_SOCKET) (AddUser E (accepted os))) (\<lambda>_.
     ret (N_handle os fds 0)))"
| "net_exec E inp (N_handle os fds i) =
     bnd (gets ClientList) (\<lambda>cs.
     if length cs \<le> i then ret N_again
     else
       bnd (client (cs ! i)) (\<lambda>c.
       if isActive c \<and> sock c \<in> set fds then
         bnd (ReceiveData E (cs ! i) (received os (sock c))) (\<lambda>ok.
         ret (if ok then N_handle os fds (i + 1) else N_close (cs ! i) (N_handle os fds (i + 1))))
       else ret (N_handle os fds (i + 1))))"
| "net_exec E inp (N_close a k) =
     bnd (OnClientDisconnect a) (\<lambda>_.
     bnd (client a) (\<lambda>c.
     bnd (emit (Ev_Close (sock c))) (\<lambda>_.
     bnd (upd_client a (\<lambda>c. c\<lparr>sock := INVALID_SOCKET, isActive := False\<rparr>)) (\<lambda>_.
     ret (N_erase a k)))))"
| "net_exec E inp (N_erase a k) =
     bnd (modify (\<lambda>w. w\<lparr>ClientList := remove1 a (ClientList w)\<rparr>)) (\<lambda>_. ret (N_delete a k))"
| "net_exec E inp (N_delete a k) = bnd (DeleteClientSocket a) (\<lambda>_. ret k)"
| "net_exec E inp N_again = bnd (gets srv_isActive) (\<lambda>act. ret (if act then N_fill 0 [] else N_end))"
| "net_exec E inp N_end = ret N_end"

text \<open>The network thread on its own.\<close>

inductive net_alone :: "env \<Rightarrow> loop_in \<Rightarrow> net_pc \<Rightarrow> world \<Rightarrow> net_pc \<Rightarrow> world \<Rightarrow> bool" for E inp where
  stop: "net_alone E inp pc w pc w"
| step: "net_exec E inp pc w = Inr (pc1, w1) \<Longrightarrow> net_alone E inp pc1 w1 pc' w' \<Longrightarrow> net_alone E inp pc w pc' w'"

section \<open>The process\<close>

text \<open>\<open>A\<close> admits answers of the operating system. \<open>nstep\<close> lets a thread start or execute, or the network thread advance.\<close>

inductive nstep :: "env \<Rightarrow> (loop_in \<Rightarrow> bool) \<Rightarrow> mstate \<Rightarrow> net_pc \<Rightarrow> mstate \<Rightarrow> net_pc \<Rightarrow> bool" for E A where
  start: "crash s = None \<Longrightarrow> t \<noteq> Net_thread \<Longrightarrow> code s t = [] \<Longrightarrow> starts t s is \<Longrightarrow>
    nstep E A s pc (s\<lparr>code := (code s)(t := is)\<rparr>) pc"
| exec: "crash s = None \<Longrightarrow> code s t = i # is \<Longrightarrow> enabled i s \<Longrightarrow>
    nstep E A s pc (exec_instr E t i (s\<lparr>code := (code s)(t := is)\<rparr>)) pc"
| delete: "crash s = None \<Longrightarrow> code s Net_thread = [] \<Longrightarrow>
    nstep E A s (N_delete a k) (s\<lparr>code := (code s)(Net_thread := DeleteProcess a)\<rparr>) k"
| net: "crash s = None \<Longrightarrow> code s Net_thread = [] \<Longrightarrow> \<forall>a k. pc \<noteq> N_delete a k \<Longrightarrow> A inp \<Longrightarrow>
    net_exec E inp pc (mem s) = Inr (pc', w) \<Longrightarrow> nstep E A s pc (s\<lparr>mem := w\<rparr>) pc'"
| fault: "crash s = None \<Longrightarrow> code s Net_thread = [] \<Longrightarrow> \<forall>a k. pc \<noteq> N_delete a k \<Longrightarrow> A inp \<Longrightarrow>
    net_exec E inp pc (mem s) = Inl e \<Longrightarrow> nstep E A s pc (s\<lparr>crash := Some e\<rparr>) pc"

text \<open>
  What the process starts from: each client in the list is alive, once, and its record well formed; the
  NPCs exist and their names fit the packet.
\<close>

definition world_ok :: "world \<Rightarrow> bool" where
  "world_ok w \<longleftrightarrow> distinct (ClientList w) \<and> set (ClientList w) \<subseteq> dom (clients w) \<and> (\<forall>a \<in> dom (clients w). a < tick w) \<and>
     all_clients wf_client w \<and> (\<forall>a \<in> set (NPCList w). \<exists>n. npcs w a = Some n \<and> length (npcname n) \<le> 60000)"

inductive preach :: "env \<Rightarrow> (loop_in \<Rightarrow> bool) \<Rightarrow> mstate \<Rightarrow> net_pc \<Rightarrow> bool" for E A where
  init: "initial s \<Longrightarrow> world_ok (mem s) \<Longrightarrow> preach E A s (N_fill 0 [])"
| next_step: "preach E A s pc \<Longrightarrow> nstep E A s pc s' pc' \<Longrightarrow> preach E A s' pc'"

section \<open>Alone, the thread is the server loop\<close>

lemma net_alone_trans: "net_alone E inp pc w pc1 w1 \<Longrightarrow> net_alone E inp pc1 w1 pc2 w2 \<Longrightarrow> net_alone E inp pc w pc2 w2"
  by (induction rule: net_alone.induct) (auto intro: net_alone.step)

lemma net_alone_disconnect:
  assumes "DisconnectClient a w = Inr (x, w')"
  shows "net_alone E inp (N_close a k) w k w'"
proof -
  obtain c where c: "clients w a = Some c" using assms by (auto simp: DisconnectClient_eq split: option.splits)
  let ?w1 = "w\<lparr>trace := trace w @ [Ev_Close (sock c)], clients := (clients w)(a \<mapsto> c\<lparr>sock := INVALID_SOCKET, isActive := False\<rparr>)\<rparr>"
  let ?w2 = "?w1\<lparr>ClientList := remove1 a (ClientList w)\<rparr>"
  have "net_exec E inp (N_close a k) w = Inr (N_erase a k, ?w1)"
    using c by (simp add: OnClientDisconnect_def ret_def)
  moreover have "net_exec E inp (N_erase a k) ?w1 = Inr (N_delete a k, ?w2)" by (simp add: ret_def)
  moreover have "net_exec E inp (N_delete a k) ?w2 = Inr (k, w')"
    using assms c by (auto simp: DisconnectClient_eq DeleteClientSocket_def ret_def)
  ultimately show ?thesis by (blast intro: net_alone.intros)
qed

lemma net_alone_fill: "fill_fds i fds w = Inr (r, w') \<Longrightarrow> net_alone E inp (N_fill i fds) w (N_select r) w'"
proof (induction i fds w rule: fill_fds.induct)
  case (1 i fds w)
  show ?case
  proof (cases "length (ClientList w) \<le> i")
    case True
    with "1.prems" show ?thesis
      by (intro net_alone.step [OF _ net_alone.stop]) (simp add: fill_fds.simps [of i fds w])
  next
    case False
    let ?a = "ClientList w ! i"
    obtain c where c: "client ?a w = Inr (c, w)"
      using False "1.prems" by (auto simp: fill_fds.simps [of i fds w] client_def Let_def split: option.splits)
    show ?thesis
    proof (cases "isActive c")
      case True
      with "1.IH"(1) [OF False refl c refl] "1.prems" False c show ?thesis
        by (intro net_alone.step [where pc = "N_fill i fds"]) (auto simp: fill_fds.simps [of i fds w])
    next
      case inactive: False
      then obtain w1 where w1: "DisconnectClient ?a w = Inr ((), w1)" "fill_fds (i + 1) fds w1 = Inr (r, w')"
        using False c "1.prems" by (auto simp: fill_fds.simps [of i fds w] Let_def split: sum.splits)
      have "net_exec E inp (N_fill i fds) w = Inr (N_close ?a (N_fill (i + 1) fds), w)"
        using False c inactive by (simp add: ret_def)
      from net_alone.step [OF this net_alone_trans [OF net_alone_disconnect [OF w1(1)] "1.IH"(2) [OF False refl c refl inactive w1(1) refl w1(2)]]]
      show ?thesis .
    qed
  qed
qed

lemma net_alone_handle:
  "handle_clients E (received os) fds i w = Inr (x, w') \<Longrightarrow> net_alone E inp (N_handle os fds i) w N_again w'"
proof (induction E "received os" fds i w rule: handle_clients.induct)
  case (1 E fds i w)
  let ?a = "ClientList w ! i" and ?pc = "N_handle os fds i"
  show ?case
  proof (cases "length (ClientList w) \<le> i")
    case True
    with "1.prems" show ?thesis
      by (intro net_alone.step [OF _ net_alone.stop]) (simp add: handle_clients.simps [of E "received os" fds i w])
  next
    case False
    then obtain c where c: "client ?a w = Inr (c, w)"
      using "1.prems" by (auto simp: handle_clients.simps [of E "received os" fds i w] client_def Let_def split: option.splits)
    show ?thesis
    proof (cases "isActive c \<and> sock c \<in> set fds")
      case skip: False
      have "net_exec E inp ?pc w = Inr (N_handle os fds (i + 1), w)" using False c skip by (auto simp: ret_def)
      then show ?thesis
        using "1.hyps"(3) [OF False refl c refl skip] "1.prems" False c skip
        by (intro net_alone.step [where pc = ?pc]) (auto simp: handle_clients.simps [of E "received os" fds i w])
    next
      case True
      then obtain ok w2 where w2: "ReceiveData E ?a (received os (sock c)) w = Inr (ok, w2)"
        using False c "1.prems" by (auto simp: handle_clients.simps [of E "received os" fds i w] Let_def split: sum.splits)
      show ?thesis
      proof (cases ok)
        case ok: True
        have "net_exec E inp ?pc w = Inr (N_handle os fds (i + 1), w2)" using False c True w2 ok by (simp add: ret_def)
        then show ?thesis
          using "1.hyps"(1) [OF False refl c refl True w2 refl ok] "1.prems" False c True w2 ok
          by (intro net_alone.step [where pc = ?pc]) (auto simp: handle_clients.simps [of E "received os" fds i w])
      next
        case no: False
        then obtain w3 where w3: "DisconnectClient ?a w2 = Inr ((), w3)" "handle_clients E (received os) fds (i + 1) w3 = Inr (x, w')"
          using False c True w2 "1.prems" by (auto simp: handle_clients.simps [of E "received os" fds i w] Let_def split: sum.splits)
        have "net_exec E inp ?pc w = Inr (N_close ?a (N_handle os fds (i + 1)), w2)" using False c True w2 no by (simp add: ret_def)
        from net_alone.step [OF this net_alone_trans [OF net_alone_disconnect [OF w3(1)] "1.hyps"(2) [OF False refl c refl True w2 refl no w3(1) refl w3(2)]]]
        show ?thesis .
      qed
    qed
  qed
qed

lemma net_alone_iter:
  assumes "server_iter E inp w = Inr ((), w')"
  shows "net_alone E inp (N_fill 0 []) w N_again w'"
proof -
  obtain fds w1 where f: "fill_fds 0 [] w = Inr (fds, w1)"
    and rest: "(let fds = filter (\<lambda>x. x \<in> set (readyfds inp)) (fds @ [srv_sock w1]) in
      if activity inp = 0 then ret ()
      else
        bnd (whenM (activity inp < 0 \<and> \<not> eintr inp) (modify (\<lambda>w. w\<lparr>srv_isActive := False\<rparr>))) (\<lambda>_.
        bnd (whenM (srv_sock w1 \<in> set fds \<and> accepted inp \<noteq> INVALID_SOCKET) (AddUser E (accepted inp))) (\<lambda>_.
        HandleClients E (received inp) fds))) w1 = Inr ((), w')"
    using assms by (auto simp: server_iter_def FillFDS_def bnd_eq_Inr gets_def)
  let ?fds = "filter (\<lambda>x. x \<in> set (readyfds inp)) (fds @ [srv_sock w1])"
  have "net_alone E inp (N_select fds) w1 N_again w'"
  proof (cases "activity inp = 0")
    case True
    with rest show ?thesis by (intro net_alone.step [OF _ net_alone.stop]) (simp add: ret_def Let_def)
  next
    case False
    define w2 where "w2 = (if activity inp < 0 \<and> \<not> eintr inp then w1\<lparr>srv_isActive := False\<rparr> else w1)"
    have r2: "bnd (whenM (srv_sock w1 \<in> set ?fds \<and> accepted inp \<noteq> INVALID_SOCKET) (AddUser E (accepted inp))) (\<lambda>_.
        HandleClients E (received inp) ?fds) w2 = Inr ((), w')"
      using rest False by (auto simp: Let_def w2_def whenM_def split: if_splits)
    then obtain w3 where w3: "whenM (srv_sock w1 \<in> set ?fds \<and> accepted inp \<noteq> INVALID_SOCKET) (AddUser E (accepted inp)) w2 = Inr ((), w3)"
      "handle_clients E (received inp) ?fds 0 w3 = Inr ((), w')" by (auto simp: bnd_eq_Inr HandleClients_def)
    have s: "srv_sock w2 = srv_sock w1" by (simp add: w2_def)
    have "net_exec E inp (N_select fds) w1 = Inr (N_accept inp ?fds, w2)"
      using False by (auto simp: Let_def w2_def whenM_def ret_def)
    moreover have "net_exec E inp (N_accept inp ?fds) w2 = Inr (N_handle inp ?fds 0, w3)"
      using w3(1) s by (simp add: ret_def)
    ultimately show ?thesis
      using net_alone_handle [OF w3(2)] by (blast intro: net_alone.step)
  qed
  with net_alone_fill [OF f] show ?thesis by (rule net_alone_trans)
qed

section \<open>What the instructions do to the world\<close>

definition stays :: "world \<Rightarrow> world \<Rightarrow> bool" where
  "stays w w' \<longleftrightarrow> ClientList w' = ClientList w \<and> dom (clients w') = dom (clients w) \<and> NPCList w' = NPCList w \<and>
     npcs w' = npcs w \<and> tick w \<le> tick w' \<and> typed wf_client w w'"

interpretation st: client_frame stays this "\<lambda>f. \<forall>c. wf_client c \<longrightarrow> wf_client (f c)" for this
proof unfold_locales
  show "stays w w'" if "quiet w w'" for w w'
    using that ty.frame_quiet [OF that] by (simp add: stays_def quiet_def)
  show "stays w (w\<lparr>clients := (clients w)(this \<mapsto> f c)\<rparr>)"
    if "\<forall>c. wf_client c \<longrightarrow> wf_client (f c)" "clients w this = Some c" for w f c
    using that ty.frame_upd [OF that] by (auto simp: stays_def)
  show "stays s s" for s by (simp add: stays_def ty.frame_refl)
  show "stays s u" if "stays s t" "stays t u" for s t u using that ty.frame_trans by (auto simp: stays_def)
qed

lemma world_ok_stays: "stays w w' \<Longrightarrow> world_ok w \<Longrightarrow> world_ok w'"
  unfolding stays_def world_ok_def typed_def by (metis less_le_trans)

lemma stays_ReceiveData: "keeps stays (ReceiveData E a bs)"
  using own_ReceiveData [of a E bs] typed_ReceiveData [of E a bs]
  by (auto simp: keeps_def stays_def own_def)

lemma stays_PlayerMovement: "keeps stays (PlayerMovement E a)"
  unfolding PlayerMovement_def by (rule st.frame_intros allI impI | simp add: wf_client_def)+

lemma stays_disconnect_loop: "keeps stays (disconnect_loop a)"
  unfolding disconnect_loop_def by (rule st.frame_intros allI impI | simp add: wf_client_def)+

text \<open>Each of them returns on a living client.\<close>

lemma PlayerMovement_total: "clients w a \<noteq> None \<Longrightarrow> \<exists>r w'. PlayerMovement E a w = Inr (r, w')"
  by (auto simp: PlayerMovement_def Let_def ret_def)

lemma disconnect_loop_total: "clients w a \<noteq> None \<Longrightarrow> \<exists>w'. disconnect_loop a w = Inr ((), w')"
  by (auto simp: disconnect_loop_def whenM_def ret_def)

lemma world_ok_scannable: "world_ok w \<Longrightarrow> scannable w"
  using wf_texts(3) unfolding world_ok_def scannable_def named_def all_clients_def by blast

text \<open>The parts of a scan return, and keep what the process relies on.\<close>

lemma see_one_ok:
  assumes ok: "world_ok w" and me: "clients w a = Some me" and b: "clients w b = Some c"
  shows "\<exists>js w'. see_one E a b j vs w = Inr (js, w') \<and> world_ok w' \<and> ClientList w' = ClientList w \<and> clients w' = clients w"
proof -
  have "named c" using ok b wf_texts(3) unfolding world_ok_def all_clients_def named_def by blast
  then obtain vs' w' where w': "vis_clients E a [b] vs w = Inr (vs', w')" "pk_only w w'"
    using vis_clients_run [OF me, of "[b]" E vs] b by auto
  have run: "see_one E a b j vs w = Inr ([See_loop a (j + 1) vs'], w')"
    using w'(1) by (simp add: see_one_def ret_def del: vis_clients.simps)
  have "tick w \<le> tick w'" using keepsD [OF flags_see(2) run] by (simp add: same_flags_def)
  then have "world_ok w'"
    using ok unfolding world_ok_def all_clients_def pk_onlyD [OF w'(2)] by (metis less_le_trans)
  with run show ?thesis using pk_onlyD [OF w'(2)] by blast
qed

lemma see_npcs_ok:
  assumes ok: "world_ok w" and me: "clients w a = Some me"
  shows "\<exists>w'. see_npcs E a vs w = Inr (True, w') \<and> world_ok w' \<and> ClientList w' = ClientList w \<and> dom (clients w') = dom (clients w)"
proof -
  have npcs: "\<exists>n. npcs w b = Some n \<and> length (npcname n) \<le> 60000" if "b \<in> set (NPCList w)" for b
    using ok that by (simp add: world_ok_def)
  obtain vn w1 where w1: "vis_npcs E a (NPCList w) [] w = Inr (vn, w1)" "npc_ids_only w w1"
    using vis_npcs_run [OF me npcs, of "NPCList w" E "[]"] by auto
  note ids = npc_ids_onlyD [OF w1(2)]
  let ?me = "me\<lparr>VisibleClients := vs, VisibleNPCs := vn\<rparr>"
  let ?w = "w1\<lparr>clients := (clients w)(a \<mapsto> ?me)\<rparr>"
  have run: "see_npcs E a vs w = Inr (True, ?w)"
    using w1(1) me ids(1) by (simp add: see_npcs_def ret_def)
  have tick: "tick w \<le> tick ?w" using keepsD [OF flags_see(1) run] by (simp add: same_flags_def)
  have dom: "dom (clients ?w) = dom (clients w)" using me by auto
  have "wf_client ?me" using ok me by (auto simp: world_ok_def all_clients_def wf_client_def)
  then have wfs: "all_clients wf_client ?w" using ok by (auto simp: world_ok_def all_clients_def)
  have "\<exists>n. npcs ?w b = Some n \<and> length (npcname n) \<le> 60000" if "b \<in> set (NPCList w)" for b
    using npcs [OF that] ids(4) [of b] by fastforce
  then have "world_ok ?w"
    using ok ids(2,3) dom wfs tick unfolding world_ok_def by simp (metis less_le_trans)
  with run ids(2) dom show ?thesis by auto
qed

section \<open>Who is about to touch what\<close>

text \<open>The clients a worker's instruction works on; code that works on none; code that works on none once \<open>PlayerMutex\<close> is released.\<close>

fun targets :: "tinstr \<Rightarrow> nat set" where
  "targets (Move a) = {a}"
| "targets (See_loop a j vs) = {a}"
| "targets (See_at a j vs) = {a}"
| "targets (See_one a b j vs) = {a, b}"
| "targets (See_npcs a vs) = {a}"
| "targets i = {}"

definition calm :: "tinstr list \<Rightarrow> bool" where
  "calm is \<longleftrightarrow> (\<forall>i \<in> set is. targets i = {})"

fun tame :: "tinstr list \<Rightarrow> bool" where
  "tame [] \<longleftrightarrow> True"
| "tame (i # is) \<longleftrightarrow> (i = Unlock PlayerMutex \<longrightarrow> calm is) \<and> tame is"

fun plain_instr :: "tinstr \<Rightarrow> bool" where
  "plain_instr (Lock m) = True"
| "plain_instr (Unlock m) = True"
| "plain_instr (Delete a) = True"
| "plain_instr i = False"

text \<open>
  What an instruction finds when the list or the object has changed since the test before it: an index past
  the end, at which \<open>at\<close> throws, or a client that is gone.
\<close>

fun stale :: "tinstr \<Rightarrow> world \<Rightarrow> fault option" where
  "stale (Map_at i) w = (if length (ClientList w) \<le> i then Some Out_of_bounds else None)"
| "stale (Vis_at i) w = (if length (ClientList w) \<le> i then Some Out_of_bounds else None)"
| "stale (See_at a i vs) w = (if length (ClientList w) \<le> i then Some Out_of_bounds else None)"
| "stale (Disc_at i) w = (if length (ClientList w) \<le> i then Some Out_of_bounds else None)"
| "stale (Disc a) w = (if clients w a = None then Some Dangling else None)"
| "stale i w = None"

definition code_inv :: "mstate \<Rightarrow> bool" where
  "code_inv s \<longleftrightarrow> (\<forall>t. tame (code s t) \<and> (calm (code s t) \<or> owner s PlayerMutex = Some t)) \<and>
     (\<forall>i \<in> set (code s Net_thread). plain_instr i) \<and> (\<forall>t a. t = Net_thread \<or> Delete a \<notin> set (code s t))"

lemma rounds_end:
  "length (ClientList w) \<le> n \<Longrightarrow> map_round n w = Inl Out_of_bounds"
  "length (ClientList w) \<le> n \<Longrightarrow> vis_round n w = Inl Out_of_bounds"
  "length (ClientList w) \<le> n \<Longrightarrow> see_round a n vs w = Inl Out_of_bounds"
  "length (ClientList w) \<le> n \<Longrightarrow> disc_round n w = Inl Out_of_bounds"
  by (simp_all add: round_defs bnd_def)

lemma rounds_run:
  assumes "world_ok w" "n < length (ClientList w)"
  shows "\<exists>js. map_round n w = Inr (js, w)" "\<exists>js. vis_round n w = Inr (js, w)" "\<exists>js. see_round a n vs w = Inr (js, w)"
    "\<exists>js. disc_round n w = Inr (js, w)"
proof -
  obtain c where "clients w (ClientList w ! n) = Some c" using assms nth_mem [of n "ClientList w"] unfolding world_ok_def by blast
  then show "\<exists>js. map_round n w = Inr (js, w)" "\<exists>js. vis_round n w = Inr (js, w)" "\<exists>js. see_round a n vs w = Inr (js, w)"
    "\<exists>js. disc_round n w = Inr (js, w)"
    using assms(2) by (auto simp: round_defs bnd_def ret_def)
qed

lemma goes_on_stale:
  assumes ok: "world_ok w" and i: "loops i"
  shows "(case goes_on E i w of Inl e \<Rightarrow> Some e | Inr r \<Rightarrow> None) = stale i w"
proof (cases "\<exists>n a vs. i = Map_at n \<or> i = Vis_at n \<or> i = See_at a n vs \<or> i = Disc_at n")
  case True
  then obtain n a vs where n: "i = Map_at n \<or> i = Vis_at n \<or> i = See_at a n vs \<or> i = Disc_at n" by blast
  show ?thesis
  proof (cases "n < length (ClientList w)")
    case True
    with n rounds_run(1,2,4) [OF ok True] rounds_run(3) [OF ok True, of a vs] show ?thesis by auto
  next
    case False
    with n show ?thesis by (auto simp: rounds_end)
  qed
next
  case False
  with i show ?thesis by (cases i) (auto simp: gets_def)
qed

lemma exec_mem:
  assumes ok: "world_ok (mem s)" and alive: "targets i \<subseteq> dom (clients (mem s))"
    and gone: "\<And>a. i = Delete a \<Longrightarrow> a \<notin> set (ClientList (mem s))"
  shows "world_ok (mem (exec_instr E t i s)) \<and> ClientList (mem (exec_instr E t i s)) = ClientList (mem s) \<and>
    dom (clients (mem (exec_instr E t i s))) = dom (clients (mem s)) - {a. i = Delete a} \<and>
    crash (exec_instr E t i s) = (if stale i (mem s) = None then crash s else stale i (mem s))"
proof (cases "loops i")
  case True
  have "crash (exec_instr E t i s) = (if stale i (mem s) = None then crash s else stale i (mem s))"
    using goes_on_stale [OF ok True, of E] by (auto simp: exec_loops [OF True] run_code_def split: sum.splits)
  moreover have "{a. i = Delete a} = {}" using True by auto
  ultimately show ?thesis using ok by (simp add: exec_loops_mem [OF True])
next
  case False
  show ?thesis
  proof (cases i)
    case (Move a)
    then obtain r w' where w': "PlayerMovement E a (mem s) = Inr (r, w')"
      using alive PlayerMovement_total [of "mem s" a E] by auto
    with keepsD [OF stays_PlayerMovement w'] world_ok_stays ok Move show ?thesis
      by (auto simp: run_act_def stays_def)
  next
    case (See_one a b j vs)
    then obtain c d where "clients (mem s) a = Some c" "clients (mem s) b = Some d" using alive by auto
    from see_one_ok [OF ok this, of E j vs] obtain js w' where "see_one E a b j vs (mem s) = Inr (js, w')" "world_ok w'"
      "ClientList w' = ClientList (mem s)" "clients w' = clients (mem s)" by blast
    with See_one show ?thesis by (simp add: run_code_def)
  next
    case (See_npcs a vs)
    then obtain c where "clients (mem s) a = Some c" using alive by auto
    from see_npcs_ok [OF ok this, of E vs] obtain w' where "see_npcs E a vs (mem s) = Inr (True, w')" "world_ok w'"
      "ClientList w' = ClientList (mem s)" "dom (clients w') = dom (clients (mem s))" by blast
    with See_npcs show ?thesis by (simp add: run_act_def)
  next
    case (Delete a)
    then show ?thesis using ok gone by (auto simp: run_act_def DeleteClientSocket_def modify_def world_ok_def all_clients_def)
  next
    case (Disc a)
    show ?thesis
    proof (cases "clients (mem s) a = None")
      case True
      with Disc ok show ?thesis by (simp add: run_act_def disconnect_loop_def)
    next
      case False
      then obtain w' where w': "disconnect_loop a (mem s) = Inr ((), w')" using disconnect_loop_total by blast
      with keepsD [OF stays_disconnect_loop w'] world_ok_stays ok Disc False show ?thesis
        by (auto simp: run_act_def stays_def)
    qed
  qed (use ok False in \<open>auto simp: world_ok_def all_clients_def\<close>)
qed

lemma calm_bodies: "calm MapProcess" "calm VisibilityProcess" "calm WorldProcess" "calm ShutdownServer" "calm (DeleteProcess a)"
  by (simp_all add: calm_def MapProcess_def VisibilityProcess_def WorldProcess_def ShutdownServer_def DeleteProcess_def)

lemma calm_tame: "calm is \<Longrightarrow> tame is"
  by (induction "is") (auto simp: calm_def)

lemma calm_starts: "starts t s is \<Longrightarrow> calm is"
  by (auto elim!: startsE simp: calm_bodies sigterm_def)

lemma no_delete_starts: "starts t s is \<Longrightarrow> t \<noteq> Net_thread \<Longrightarrow> Delete a \<notin> set is"
  by (auto elim!: startsE simp: MapProcess_def VisibilityProcess_def WorldProcess_def ShutdownServer_def sigterm_def)

lemma tame_append: "(\<forall>i \<in> set js. i \<noteq> Unlock PlayerMutex) \<Longrightarrow> tame is \<Longrightarrow> tame (js @ is)"
  by (induction js) auto

text \<open>
  The code an instruction goes on with works on listed clients and those the instruction works on; that of the
  shutdown's loop is calm.
\<close>

lemma goes_on_targets:
  assumes "goes_on E i w = Inr (js, w')" "j \<in> set js"
  shows "targets j \<subseteq> targets i \<union> set (ClientList w)" "disc i \<Longrightarrow> targets j = {}" "j \<noteq> Unlock PlayerMutex" "j \<noteq> Delete b"
    "\<not> plain_instr i"
  using assms by (cases i; auto simp: round_defs see_one_def bnd_eq_Inr client_def ret_def split: if_splits option.splits)+

lemma exec_code_set:
  assumes "j \<in> set (code (exec_instr E t i s) t)"
  shows "j \<in> set (code s t) \<or> (\<exists>js w. goes_on E i (mem s) = Inr (js, w) \<and> j \<in> set js)"
  using assms by (fastforce simp: exec_code split: sum.splits)

lemma loop_holds:
  assumes "extends i" "disciplined (held s t) (i # is)"
  shows "disc i \<or> owner s PlayerMutex = Some t"
  using assms by (cases i) (auto simp: held_def extends_def)

lemma code_inv_exec:
  assumes inv: "code_inv s" and lock: "lock_inv s" and t: "code s t = i # is" and en: "enabled i s"
  shows "code_inv (exec_instr E t i (s\<lparr>code := (code s)(t := is)\<rparr>))"
proof -
  let ?s = "s\<lparr>code := (code s)(t := is)\<rparr>"
  let ?s' = "exec_instr E t i ?s"
  have d: "disciplined (held s t) (i # is)" using lock t by (metis lock_inv_def)
  have tame: "tame (i # is)" and calm: "calm (i # is) \<or> owner s PlayerMutex = Some t"
    using inv t by (metis code_inv_def)+
  have other: "tame (code ?s' u) \<and> (calm (code ?s' u) \<or> owner ?s' PlayerMutex = Some u)" if u: "u \<noteq> t" for u
  proof -
    have c: "code ?s' u = code s u" using exec_other_code [OF u, of E i ?s] u by simp
    have "owner ?s' PlayerMutex = Some u" if o: "owner s PlayerMutex = Some u"
    proof (cases i)
      case (Lock m)
      with en o show ?thesis by auto
    next
      case (Unlock m)
      with d have "owner s m = Some t" by (simp add: held_def)
      with Unlock o u show ?thesis by auto
    qed (use o in auto)
    with c inv show ?thesis by (metis code_inv_def)
  qed
  have self: "tame (code ?s' t) \<and> (calm (code ?s' t) \<or> owner ?s' PlayerMutex = Some t)"
  proof (cases "extends i")
    case True
    then have o: "owner ?s' = owner s" by (simp add: exec_extends)
    show ?thesis
    proof (cases "goes_on E i (mem s)")
      case (Inl e)
      have "code ?s' t = is" using Inl by (simp add: exec_code)
      then show ?thesis using tame calm o by (auto simp: calm_def)
    next
      case (Inr r)
      then obtain js w where r: "goes_on E i (mem s) = Inr (js, w)" by (cases r) auto
      then have c: "code ?s' t = js @ is" by (simp add: exec_code)
      have "tame (code ?s' t)" using c tame tame_append [of js "is"] goes_on_targets(3) [OF r] by auto
      moreover have "calm (code ?s' t)" if "owner s PlayerMutex \<noteq> Some t"
        using loop_holds [OF True d] that calm goes_on_targets(2) [OF r] c by (auto simp: calm_def)
      ultimately show ?thesis using o by auto
    qed
  next
    case False
    then show ?thesis
    proof (cases i)
      case (Lock m)
      with tame calm show ?thesis by (auto simp: calm_def)
    next
      case (Unlock m)
      with tame calm show ?thesis by (cases "m = PlayerMutex") (auto simp: calm_def)
    qed (use tame calm in \<open>auto simp: calm_def extends_def\<close>)
  qed
  have plain: "\<forall>j \<in> set (code ?s' Net_thread). plain_instr j"
  proof (cases "t = Net_thread")
    case True
    have p: "\<forall>j \<in> set (i # is). plain_instr j" using inv t True unfolding code_inv_def by metis
    show ?thesis
    proof
      fix j
      assume "j \<in> set (code ?s' Net_thread)"
      then show "plain_instr j" using exec_code_set [of j E t i ?s] p True goes_on_targets(5) by auto
    qed
  next
    case False
    then show ?thesis using exec_other_code [of Net_thread t E i ?s] inv by (simp add: code_inv_def)
  qed
  have "u = Net_thread \<or> Delete a \<notin> set (code ?s' u)" for u a
  proof (cases "u = t")
    case True
    have "t = Net_thread" if "Delete a \<in> set (code ?s' t)"
    proof -
      have "Delete a \<notin> set js" if "goes_on E i (mem s) = Inr (js, w)" for js w using goes_on_targets(4) [OF that] by blast
      with exec_code_set [OF that] have "Delete a \<in> set (code s t)" using t by auto
      then show ?thesis using inv unfolding code_inv_def by metis
    qed
    then show ?thesis unfolding True by blast
  next
    case False
    then show ?thesis using exec_other_code [OF False, of E i ?s] inv by (auto simp: code_inv_def)
  qed
  with other self plain show ?thesis unfolding code_inv_def by metis
qed

section \<open>The invariant of the process\<close>

text \<open>Where the network thread is, in terms of the client list: what it closes and erases is listed, what it deletes is not.\<close>

fun in_loop :: "net_pc \<Rightarrow> bool" where
  "in_loop (N_fill i fds) = True"
| "in_loop (N_handle os fds i) = True"
| "in_loop pc = False"

fun net_ok :: "net_pc \<Rightarrow> nat list \<Rightarrow> bool" where
  "net_ok (N_close a k) cs \<longleftrightarrow> a \<in> set cs \<and> in_loop k"
| "net_ok (N_erase a k) cs \<longleftrightarrow> a \<in> set cs \<and> in_loop k"
| "net_ok (N_delete a k) cs \<longleftrightarrow> a \<notin> set cs \<and> in_loop k"
| "net_ok pc cs \<longleftrightarrow> True"

lemma in_loop_ok: "in_loop k \<Longrightarrow> net_ok k cs"
  by (cases k) auto

definition mem_inv :: "mstate \<Rightarrow> net_pc \<Rightarrow> bool" where
  "mem_inv s pc \<longleftrightarrow> world_ok (mem s) \<and> net_ok pc (ClientList (mem s)) \<and>
     (\<forall>t. \<forall>i \<in> set (code s t). targets i \<subseteq> dom (clients (mem s))) \<and>
     (\<forall>a. Delete a \<in> set (code s Net_thread) \<longrightarrow> a \<notin> set (ClientList (mem s)))"

text \<open>While a client is being deleted nobody is about to touch one.\<close>

lemma deleting_calm:
  assumes inv: "code_inv s" and lock: "lock_inv s" and t: "code s t = Delete a # is"
  shows "t = Net_thread" "calm (code s u)"
proof -
  show n: "t = Net_thread" using inv t by (metis code_inv_def list.set_intros(1))
  have own: "owner s PlayerMutex = Some t" using guarded_holds [OF lock t] by simp
  show "calm (code s u)"
  proof (cases "u = t")
    case True
    have "targets j = {}" if "plain_instr j" for j using that by (cases j) auto
    then show ?thesis using inv n True by (auto simp: code_inv_def calm_def)
  next
    case False
    then show ?thesis using inv own by (metis code_inv_def option.inject)
  qed
qed

lemma mem_inv_exec:
  assumes inv: "code_inv s" "lock_inv s" "mem_inv s pc" and t: "code s t = i # is"
  shows "mem_inv (exec_instr E t i (s\<lparr>code := (code s)(t := is)\<rparr>)) pc \<and>
    crash (exec_instr E t i (s\<lparr>code := (code s)(t := is)\<rparr>)) = (if stale i (mem s) = None then crash s else stale i (mem s))"
proof -
  let ?s = "s\<lparr>code := (code s)(t := is)\<rparr>"
  let ?s' = "exec_instr E t i ?s"
  have ok: "world_ok (mem s)" and n: "net_ok pc (ClientList (mem s))" using inv(3) by (simp_all add: mem_inv_def)
  have alive: "targets j \<subseteq> dom (clients (mem s))" if "j \<in> set (code s u)" for j u
    using inv(3) that unfolding mem_inv_def by blast
  have gone: "a \<notin> set (ClientList (mem s))" if "i = Delete a" for a
  proof -
    have d: "code s t = Delete a # is" using t that by simp
    then have "Delete a \<in> set (code s Net_thread)" using deleting_calm(1) [OF inv(1,2) d] by simp
    with inv(3) show ?thesis by (simp add: mem_inv_def)
  qed
  have m: "world_ok (mem ?s')" "ClientList (mem ?s') = ClientList (mem s)"
    "dom (clients (mem ?s')) = dom (clients (mem s)) - {a. i = Delete a}" "crash ?s' = (if stale i (mem s) = None then crash s else stale i (mem s))"
    using exec_mem [of ?s i E t] ok alive [of i t] gone t by (auto split: option.splits)
  have c: "j \<in> set (code s u) \<or> targets j \<subseteq> targets i \<union> set (ClientList (mem s)) \<and> u = t \<and> (\<forall>a. j \<noteq> Delete a)"
    if j: "j \<in> set (code ?s' u)" for j u
  proof (cases "u = t")
    case True
    have "j \<in> set is \<or> (\<exists>js w. goes_on E i (mem s) = Inr (js, w) \<and> j \<in> set js)"
      using exec_code_set [of j E t i ?s] j True by simp
    then show ?thesis
    proof
      assume "\<exists>js w. goes_on E i (mem s) = Inr (js, w) \<and> j \<in> set js"
      then obtain js w where js: "goes_on E i (mem s) = Inr (js, w)" "j \<in> set js" by blast
      from goes_on_targets(1,4) [OF js] True show ?thesis by blast
    qed (use True t in simp)
  next
    case False
    then show ?thesis using j exec_other_code [OF False, of E i ?s] by simp
  qed
  have listed: "set (ClientList (mem s)) \<subseteq> dom (clients (mem s))" using ok by (simp add: world_ok_def)
  have "targets j \<subseteq> dom (clients (mem ?s'))" if j: "j \<in> set (code ?s' u)" for u j
  proof (cases "\<exists>b. i = Delete b")
    case True
    then obtain b where b: "i = Delete b" by blast
    have "calm (code s u)" using deleting_calm(2) [OF inv(1,2)] t b by blast
    then have "targets j \<subseteq> set (ClientList (mem s))" using c [OF j] b by (auto simp: calm_def)
    with listed gone [OF b] b have "targets j \<subseteq> dom (clients (mem s)) - {a. i = Delete a}" by auto
    then show ?thesis by (simp only: m(3))
  next
    case False
    have "targets i \<subseteq> dom (clients (mem s))" using alive [of i t] t by simp
    then have "targets j \<subseteq> dom (clients (mem s)) - {a. i = Delete a}" using False c [OF j] alive [of j u] listed by auto
    then show ?thesis by (simp only: m(3))
  qed
  moreover have "a \<notin> set (ClientList (mem s))" if "Delete a \<in> set (code ?s' Net_thread)" for a
    using c [OF that] inv(3) by (auto simp: mem_inv_def)
  ultimately show ?thesis using m(1,2,4) n unfolding mem_inv_def by metis
qed

text \<open>A step of the network thread itself.\<close>

lemma net_exec_ok:
  assumes run: "net_exec E inp pc w = Inr (pc', w')" and ok: "world_ok w" and n: "net_ok pc (ClientList w)"
    and nodel: "\<forall>a k. pc \<noteq> N_delete a k"
  shows "world_ok w' \<and> net_ok pc' (ClientList w') \<and> dom (clients w) \<subseteq> dom (clients w')"
proof (cases pc)
  case (N_fill i fds)
  with run ok show ?thesis
    by (auto simp: bnd_eq_Inr gets_def client_def split: if_splits option.splits)
next
  case (N_select fds)
  with run ok show ?thesis
    by (auto simp: bnd_eq_Inr gets_def whenM_def modify_def Let_def world_ok_def all_clients_def split: if_splits)
next
  case (N_accept os fds)
  have "world_ok v" "dom (clients w) \<subseteq> dom (clients v)" if "AddUser E x w = Inr ((), v)" for v x
  proof -
    have fresh: "tick w \<notin> dom (clients w)" using ok by (auto simp: world_ok_def)
    then show "dom (clients w) \<subseteq> dom (clients v)" using that by (auto simp: AddUser_run)
    have "all_clients wf_client v" using wf.inv_connect [OF that] ok by (simp add: world_ok_def)
    then show "world_ok v" using that ok fresh by (auto simp: AddUser_run world_ok_def less_Suc_eq)
  qed
  moreover have "w' = w \<or> AddUser E (accepted os) w = Inr ((), w')" "pc' = N_handle os fds 0"
    using N_accept run by (auto simp: bnd_eq_Inr gets_def whenM_def split: if_splits)
  ultimately show ?thesis using ok by (metis net_ok.simps(7) order_refl)
next
  case (N_handle os fds i)
  have r: "world_ok v \<and> ClientList v = ClientList w \<and> dom (clients v) = dom (clients w)"
    if "ReceiveData E a bs w = Inr (x, v)" for a bs x v
    using keepsD [OF stays_ReceiveData that] ok world_ok_stays by (auto simp: stays_def)
  show ?thesis
  proof (cases "length (ClientList w) \<le> i")
    case True
    with N_handle run ok show ?thesis by (simp add: ret_def)
  next
    case False
    then obtain c where c: "client (ClientList w ! i) w = Inr (c, w)"
      using N_handle run by (auto simp: bnd_eq_Inr gets_def client_def split: option.splits)
    show ?thesis
    proof (cases "isActive c \<and> sock c \<in> set fds")
      case skip: False
      with N_handle run ok c False show ?thesis by (auto split: if_splits)
    next
      case True
      with N_handle run c False obtain x where "ReceiveData E (ClientList w ! i) (received os (sock c)) w = Inr (x, w')"
        "pc' = (if x then N_handle os fds (i + 1) else N_close (ClientList w ! i) (N_handle os fds (i + 1)))"
        by (auto simp: bnd_eq_Inr)
      with r [OF this(1)] False show ?thesis by auto
    qed
  qed
next
  case (N_close a k)
  with run obtain c where c: "clients w a = Some c"
    "w' = w\<lparr>trace := trace w @ [Ev_Close (sock c)], clients := (clients w)(a \<mapsto> c\<lparr>sock := INVALID_SOCKET, isActive := False\<rparr>)\<rparr>"
    "pc' = N_erase a k"
    by (auto simp: OnClientDisconnect_def bnd_eq_Inr client_def upd_client_def emit_def modify_def split: option.splits)
  with ok N_close n show ?thesis by (auto simp: world_ok_def all_clients_def wf_client_def)
next
  case (N_erase a k)
  with run have w': "w' = w\<lparr>ClientList := remove1 a (ClientList w)\<rparr>" "pc' = N_delete a k" by simp_all
  with ok N_erase n show ?thesis
    using set_remove1_subset [of a "ClientList w"] by (auto simp: world_ok_def all_clients_def)
next
  case N_again
  with run ok show ?thesis by (auto simp: gets_def ret_def)
next
  case N_end
  with run ok show ?thesis by simp
qed (use nodel in simp)

text \<open>What can fault in the network thread.\<close>

lemma net_exec_fault:
  assumes run: "net_exec E inp pc w = Inl e" and ok: "world_ok w" and n: "net_ok pc (ClientList w)"
  shows "\<exists>os fds i c. pc = N_handle os fds i \<and> i < length (ClientList w) \<and> clients w (ClientList w ! i) = Some c \<and>
    ReceiveData E (ClientList w ! i) (received os (sock c)) w = Inl e"
proof -
  have alive: "a \<in> set (ClientList w) \<Longrightarrow> \<exists>c. clients w a = Some c" for a using ok by (auto simp: world_ok_def)
  then have nth: "\<exists>c. clients w (ClientList w ! i) = Some c" if "i < length (ClientList w)" for i using that by simp
  show ?thesis
  proof (cases pc)
    case (N_fill i fds)
    with run nth [of i] show ?thesis by (cases "length (ClientList w) \<le> i") (auto simp: ret_def)
  next
    case (N_select fds)
    with run show ?thesis by (auto simp: Let_def whenM_def ret_def split: if_splits)
  next
    case (N_accept os fds)
    with run show ?thesis
      by (cases "srv_sock w \<in> set fds \<and> accepted os \<noteq> INVALID_SOCKET") (auto simp: whenM_def ret_def AddUser_run)
  next
    case (N_handle os fds i)
    show ?thesis
    proof (cases "length (ClientList w) \<le> i")
      case True
      with N_handle run show ?thesis by (simp add: ret_def)
    next
      case False
      with nth obtain c where c: "clients w (ClientList w ! i) = Some c" by force
      with N_handle run False show ?thesis
        by (auto simp: bnd_def ret_def gets_def split: if_splits sum.splits)
    qed
  next
    case (N_close a k)
    with alive [of a] n run show ?thesis by (auto simp: OnClientDisconnect_def ret_def)
  next
    case (N_erase a k)
    with run show ?thesis by (simp add: ret_def)
  next
    case (N_delete a k)
    with run show ?thesis by (simp add: DeleteClientSocket_def ret_def)
  next
    case N_again
    with run show ?thesis by (simp add: ret_def)
  next
    case N_end
    with run show ?thesis by (simp add: ret_def)
  qed
qed

definition proc_inv :: "mstate \<Rightarrow> net_pc \<Rightarrow> bool" where
  "proc_inv s pc \<longleftrightarrow> lock_inv s \<and> code_inv s \<and> (crash s = None \<longrightarrow> mem_inv s pc)"

lemma nstep_threads:
  assumes "nstep E A s pc s' pc'"
  shows "tstep E s s' \<or> code s' = code s \<and> owner s' = owner s"
  using assms by (cases rule: nstep.cases) (auto intro: tstep.intros starts.intros)

lemma lock_inv_cong: "code s' = code s \<Longrightarrow> owner s' = owner s \<Longrightarrow> lock_inv s \<Longrightarrow> lock_inv s'"
  by (simp add: lock_inv_def held_def)

lemma code_inv_cong: "code s' = code s \<Longrightarrow> owner s' = owner s \<Longrightarrow> code_inv s \<Longrightarrow> code_inv s'"
  by (simp add: code_inv_def)

lemma code_inv_start:
  assumes inv: "code_inv s" and st: "starts t s is" and net: "t = Net_thread \<longrightarrow> (\<exists>a. is = DeleteProcess a)"
  shows "code_inv (s\<lparr>code := (code s)(t := is)\<rparr>)"
proof -
  have "calm is" using calm_starts [OF st] .
  moreover have "t \<noteq> Net_thread \<Longrightarrow> Delete a \<notin> set is" for a using no_delete_starts [OF st] .
  moreover have "\<forall>i \<in> set (DeleteProcess a). plain_instr i" for a by (simp add: DeleteProcess_def)
  ultimately show ?thesis using inv net calm_tame unfolding code_inv_def by auto
qed

lemma proc_inv_step: "nstep E A s pc s' pc' \<Longrightarrow> proc_inv s pc \<Longrightarrow> proc_inv s' pc'"
proof (induction rule: nstep.induct)
  case (start s t "is" pc)
  have "lock_inv (s\<lparr>code := (code s)(t := is)\<rparr>)"
    by (rule lock_inv_step [OF tstep.start]) (use start in \<open>auto simp: proc_inv_def\<close>)
  moreover have "code_inv (s\<lparr>code := (code s)(t := is)\<rparr>)"
    by (rule code_inv_start) (use start in \<open>auto simp: proc_inv_def\<close>)
  moreover have "mem_inv (s\<lparr>code := (code s)(t := is)\<rparr>) pc"
    using start calm_starts [OF start(4)] by (auto simp: proc_inv_def mem_inv_def calm_def)
  ultimately show ?case by (simp add: proc_inv_def)
next
  case (exec s t i "is" pc)
  let ?s = "exec_instr E t i (s\<lparr>code := (code s)(t := is)\<rparr>)"
  have "lock_inv ?s" by (rule lock_inv_step [OF tstep.exec]) (use exec in \<open>auto simp: proc_inv_def\<close>)
  moreover have "code_inv ?s" by (rule code_inv_exec) (use exec in \<open>auto simp: proc_inv_def\<close>)
  moreover have "mem_inv ?s pc"
    using mem_inv_exec [of s pc t i "is" E] exec by (simp add: proc_inv_def)
  ultimately show ?case by (simp add: proc_inv_def)
next
  case (delete s a k)
  have st: "starts Net_thread s (DeleteProcess a)" by (rule starts.net_delete)
  let ?s = "s\<lparr>code := (code s)(Net_thread := DeleteProcess a)\<rparr>"
  have "lock_inv ?s" by (rule lock_inv_step [OF tstep.start]) (use delete st in \<open>auto simp: proc_inv_def\<close>)
  moreover have "code_inv ?s" by (rule code_inv_start [OF _ st]) (use delete in \<open>auto simp: proc_inv_def\<close>)
  moreover have "mem_inv ?s k"
    using delete calm_bodies(5) [of a] in_loop_ok
    by (auto simp: proc_inv_def mem_inv_def calm_def) (auto simp: DeleteProcess_def)
  ultimately show ?case by (simp add: proc_inv_def)
next
  case (net s pc inp pc' w)
  have m: "mem_inv s pc" using net by (simp add: proc_inv_def)
  have "world_ok w \<and> net_ok pc' (ClientList w) \<and> dom (clients (mem s)) \<subseteq> dom (clients w)"
    by (rule net_exec_ok [OF net(5)]) (use m net in \<open>auto simp: mem_inv_def\<close>)
  then have "mem_inv (s\<lparr>mem := w\<rparr>) pc'"
    using m net(2) by (fastforce simp: mem_inv_def)
  then show ?case using net by (simp add: proc_inv_def lock_inv_cong [of _ s] code_inv_cong [of _ s])
next
  case (fault s pc inp e)
  then show ?case by (simp add: proc_inv_def lock_inv_cong [of _ s] code_inv_cong [of _ s])
qed

lemma proc_inv_reach: "preach E A s pc \<Longrightarrow> proc_inv s pc"
proof (induction rule: preach.induct)
  case (init s)
  from initialD [OF init(1)] init(2) show ?case
    by (simp add: proc_inv_def lock_inv_def held_def code_inv_def mem_inv_def calm_def)
next
  case (next_step s pc s' pc')
  then show ?case by (rule_tac proc_inv_step)
qed

text \<open>What a crashing step can be.\<close>

lemma proc_crash:
  assumes inv: "proc_inv s pc" and "crash s = None" and "nstep E A s pc s' pc'" and "crash s' = Some e"
  shows "(\<exists>os fds i c. pc = N_handle os fds i \<and> i < length (ClientList (mem s)) \<and>
      clients (mem s) (ClientList (mem s) ! i) = Some c \<and>
      ReceiveData E (ClientList (mem s) ! i) (received os (sock c)) (mem s) = Inl e) \<or>
    (\<exists>t i is. code s t = i # is \<and> stale i (mem s) = Some e)"
  using assms(3)
proof (cases rule: nstep.cases)
  case (exec t i "is")
  from exec mem_inv_exec [of s pc t i "is" E] inv assms(2) have
    "crash s' = stale i (mem s)" by (simp add: proc_inv_def)
  with assms(4) have "stale i (mem s) = Some e" by simp
  with exec(4) show ?thesis by blast
next
  case (fault inp e')
  have m: "world_ok (mem s)" "net_ok pc (ClientList (mem s))" using inv assms(2) by (simp_all add: proc_inv_def mem_inv_def)
  from net_exec_fault [OF fault(7) m] fault(1) assms(4) show ?thesis by simp
qed (use assms(2,4) in simp_all)

section \<open>Flags\<close>

text \<open>Of the two flags the network thread only clears \<open>isActive\<close>, and only when \<open>select\<close> fails.\<close>

definition select_works :: "loop_in \<Rightarrow> bool" where
  "select_works inp \<longleftrightarrow> 0 \<le> activity inp \<or> eintr inp"

lemma flags_ReceiveData: "keeps same_flags (ReceiveData E a bs)"
  using own_ReceiveData [of a E bs] by (auto simp: keeps_def own_def same_flags_def)

lemma net_exec_flags:
  assumes run: "net_exec E inp pc w = Inr (pc', w')" and nodel: "\<forall>a k. pc \<noteq> N_delete a k"
  shows "ServerOnline w' = ServerOnline w \<and> (srv_isActive w' \<longrightarrow> srv_isActive w) \<and>
    (select_works inp \<longrightarrow> srv_isActive w' = srv_isActive w) \<and> (pc' = N_end \<longrightarrow> pc = N_end \<or> \<not> srv_isActive w')"
proof (cases pc)
  case (N_handle os fds i)
  have r: "ServerOnline v = ServerOnline w \<and> srv_isActive v = srv_isActive w" if "ReceiveData E a bs w = Inr (x, v)" for a bs x v
    using keepsD [OF flags_ReceiveData that] by (simp add: same_flags_def)
  from run N_handle r show ?thesis
    by (auto simp: bnd_eq_Inr gets_def client_def Let_def split: if_splits option.splits)
next
  case (N_accept os fds)
  then have "w' = w \<or> AddUser E (accepted os) w = Inr ((), w')" "pc' = N_handle os fds 0"
    using run by (auto simp: bnd_eq_Inr gets_def whenM_def split: if_splits)
  then show ?thesis by (auto simp: AddUser_run)
next
  case (N_close a k)
  with run show ?thesis
    by (auto simp: OnClientDisconnect_def bnd_eq_Inr client_def upd_client_def emit_def modify_def split: option.splits)
qed (use run nodel in \<open>auto simp: bnd_eq_Inr gets_def client_def whenM_def modify_def Let_def select_works_def
    split: if_splits option.splits\<close>)

lemma phase_net:
  assumes "phase b s" "ServerOnline w = ServerOnline (mem s)" "b \<longrightarrow> srv_isActive w = srv_isActive (mem s)"
  shows "phase b (s\<lparr>mem := w\<rparr>)"
  by (rule phase_same [where t = Net_thread, OF assms(1)]) (use assms(2,3) in \<open>simp_all add: workers_def\<close>)

definition flag_inv :: "bool \<Rightarrow> mstate \<Rightarrow> net_pc \<Rightarrow> bool" where
  "flag_inv b s pc \<longleftrightarrow> no_control s \<and> phase b s \<and> (pc = N_end \<longrightarrow> \<not> srv_isActive (mem s))"

lemma inactive_stays: "tstep E s s' \<Longrightarrow> no_control s \<Longrightarrow> \<not> srv_isActive (mem s) \<Longrightarrow> \<not> srv_isActive (mem s')"
proof (induction rule: tstep.induct)
  case (exec s t i "is")
  show ?case
  proof (cases "control i")
    case False
    from exec_flags [of i "s\<lparr>code := (code s)(t := is)\<rparr>" E t] exec False show ?thesis by (simp add: same_flags_def)
  next
    case True
    with exec show ?thesis
      using exec_flags [of i "s\<lparr>code := (code s)(t := is)\<rparr>" E t] by (cases i) (auto simp: same_flags_def)
  qed
qed simp

lemma flag_inv_tstep:
  assumes "tstep E s s'" "flag_inv b s pc"
  shows "flag_inv b s' pc"
  using assms no_control_step phase_step inactive_stays unfolding flag_inv_def by metis

lemma flag_inv_step:
  assumes b: "b \<longrightarrow> (\<forall>inp. A inp \<longrightarrow> select_works inp)"
  shows "nstep E A s pc s' pc' \<Longrightarrow> proc_inv s pc \<Longrightarrow> flag_inv b s pc \<Longrightarrow> flag_inv b s' pc'"
proof (induction rule: nstep.induct)
  case (start s t "is" pc)
  then show ?case by (blast intro: flag_inv_tstep tstep.start)
next
  case (exec s t i "is" pc)
  then show ?case by (blast intro: flag_inv_tstep tstep.exec)
next
  case (delete s a k)
  have "in_loop k" using delete by (simp add: proc_inv_def mem_inv_def)
  then have "k \<noteq> N_end" by auto
  have "tstep E s (s\<lparr>code := (code s)(Net_thread := DeleteProcess a)\<rparr>)"
    by (rule tstep.start) (use delete starts.net_delete in auto)
  from flag_inv_tstep [OF this delete(4)] \<open>k \<noteq> N_end\<close> show ?case by (simp add: flag_inv_def)
next
  case (net s pc inp pc' w)
  note f = net_exec_flags [OF net(5,3)]
  have "phase b s" using net by (simp add: flag_inv_def)
  then have "phase b (s\<lparr>mem := w\<rparr>)" by (rule phase_net) (use f b net(4) in auto)
  then show ?case using net f by (auto simp: flag_inv_def no_control_def)
next
  case (fault s pc inp e)
  then have "phase b s" by (simp add: flag_inv_def)
  then have "phase b (s\<lparr>crash := Some e\<rparr>)"
    by (rule phase_same [where t = Net_thread]) (simp_all add: workers_def)
  with fault show ?case by (auto simp: flag_inv_def no_control_def)
qed

lemma flag_inv_reach:
  assumes b: "b \<longrightarrow> (\<forall>inp. A inp \<longrightarrow> select_works inp)" and "preach E A s pc"
  shows "flag_inv b s pc"
  using assms(2)
proof (induction rule: preach.induct)
  case (init s)
  from phase_init [OF init(1)] have "no_control s" "phase b s" using initialD [OF init(1)] by (auto simp: phase_def)
  then show ?case by (simp add: flag_inv_def)
next
  case (next_step s pc s' pc')
  then show ?case using flag_inv_step [OF b] proc_inv_reach by blast
qed

section \<open>Steps of the network thread alone\<close>

lemma not_own_part: "k \<noteq> N_close a k" "k \<noteq> N_erase a k" "k \<noteq> N_delete a k"
  by (induction k) auto

lemma net_exec_moves:
  assumes "net_exec E inp pc w = Inr (pc', w')" "pc \<noteq> N_end"
  shows "pc' \<noteq> pc"
  using assms not_own_part
  by (cases pc) (auto simp: bnd_eq_Inr gets_def client_def Let_def split: if_splits option.splits)

text \<open>It never waits: outside its deletion it can always take a step.\<close>

lemma net_advances:
  assumes "crash s = None" "code s Net_thread = []" "A inp" "pc \<noteq> N_end"
  shows "\<exists>s' pc'. nstep E A s pc s' pc' \<and> (pc' \<noteq> pc \<or> crash s' \<noteq> None)"
proof (cases "\<exists>a k. pc = N_delete a k")
  case True
  then obtain a k where "pc = N_delete a k" by blast
  with nstep.delete [OF assms(1,2), of E A a k] not_own_part(3) [of k a] show ?thesis by blast
next
  case False
  then have pc: "\<forall>a k. pc \<noteq> N_delete a k" by blast
  show ?thesis
  proof (cases "net_exec E inp pc (mem s)")
    case (Inl e)
    from nstep.fault [where A = A, OF assms(1,2) pc assms(3) this] show ?thesis by fastforce
  next
    case (Inr r)
    then obtain pc' w where r: "net_exec E inp pc (mem s) = Inr (pc', w)" by (cases r) auto
    from nstep.net [where A = A, OF assms(1,2) pc assms(3) r] net_exec_moves [OF r assms(4)] show ?thesis by blast
  qed
qed

lemma preach_net:
  assumes "preach E A s pc" "crash s = None" "code s Net_thread = []" "A inp" "\<forall>a k. pc \<noteq> N_delete a k"
    and "net_exec E inp pc (mem s) = Inr (pc', w)"
  shows "preach E A (s\<lparr>mem := w\<rparr>) pc'"
  using preach.next_step [OF assms(1)] nstep.net assms by blast

text \<open>A worker's step, in the process.\<close>

lemma preach_exec:
  "preach E A s pc \<Longrightarrow> crash s = None \<Longrightarrow> code s t = i # is \<Longrightarrow> enabled i s \<Longrightarrow>
    s' = exec_instr E t i (s\<lparr>code := (code s)(t := is)\<rparr>) \<Longrightarrow> preach E A s' pc"
  by (auto intro: preach.next_step nstep.exec)

lemma preach_start:
  "preach E A s pc \<Longrightarrow> crash s = None \<Longrightarrow> t \<noteq> Net_thread \<Longrightarrow> code s t = [] \<Longrightarrow> starts t s is \<Longrightarrow>
    s' = s\<lparr>code := (code s)(t := is)\<rparr> \<Longrightarrow> preach E A s' pc"
  by (auto intro: preach.next_step nstep.start)

text \<open>
  While \<open>PlayerMutex\<close> is free the network thread can take its steps without any other thread taking one, its
  deletions included.
\<close>

lemma preach_delete:
  assumes r: "preach E A s (N_delete a k)" and s: "crash s = None" "code s Net_thread = []" and free: "owner s PlayerMutex = None"
  shows "preach E A (s\<lparr>mem := (mem s)\<lparr>clients := (clients (mem s))(a := None)\<rparr>\<rparr>) k"
proof -
  let ?n = Net_thread
  let ?s1 = "s\<lparr>code := (code s)(?n := DeleteProcess a)\<rparr>"
  have r1: "preach E A ?s1 k" using preach.next_step [OF r nstep.delete [OF s]] .
  let ?s2 = "exec_instr E ?n (Lock PlayerMutex) (?s1\<lparr>code := (code ?s1)(?n := [Delete a, Unlock PlayerMutex])\<rparr>)"
  have r2: "preach E A ?s2 k" by (rule preach_exec [OF r1, of ?n]) (use s free in \<open>auto simp: DeleteProcess_def\<close>)
  let ?s3 = "exec_instr E ?n (Delete a) (?s2\<lparr>code := (code ?s2)(?n := [Unlock PlayerMutex])\<rparr>)"
  have r3: "preach E A ?s3 k" by (rule preach_exec [OF r2, of ?n]) (use s in auto)
  let ?s4 = "exec_instr E ?n (Unlock PlayerMutex) (?s3\<lparr>code := (code ?s3)(?n := [])\<rparr>)"
  have r4: "preach E A ?s4 k"
    by (rule preach_exec [OF r3, of ?n]) (use s in \<open>auto simp: run_act_def DeleteClientSocket_def modify_def\<close>)
  have "(code s)(?n := []) = code s" "(owner s)(PlayerMutex := None) = owner s" using s(2) free by auto
  then have "?s4 = s\<lparr>mem := (mem s)\<lparr>clients := (clients (mem s))(a := None)\<rparr>\<rparr>"
    by (simp add: run_act_def DeleteClientSocket_def modify_def)
  with r4 show ?thesis by (simp only:)
qed

lemma preach_alone:
  assumes "net_alone E inp pc w pc' w'" and "A inp"
  shows "preach E A s pc \<Longrightarrow> mem s = w \<Longrightarrow> crash s = None \<Longrightarrow> code s Net_thread = [] \<Longrightarrow> owner s PlayerMutex = None \<Longrightarrow>
    preach E A (s\<lparr>mem := w'\<rparr>) pc'"
  using assms(1)
proof (induction arbitrary: s rule: net_alone.induct)
  case (stop pc w)
  then have "s\<lparr>mem := w\<rparr> = s" by simp
  with stop show ?case by (simp only:)
next
  case (step pc w pc1 w1 pc' w')
  have "preach E A (s\<lparr>mem := w1\<rparr>) pc1"
  proof (cases "\<exists>a k. pc = N_delete a k")
    case True
    then obtain a k where pc: "pc = N_delete a k" by blast
    with step.hyps(1) have "pc1 = k" "w1 = w\<lparr>clients := (clients w)(a := None)\<rparr>" by (simp_all add: DeleteClientSocket_def ret_def)
    with preach_delete [of E A s a k] step.prems pc show ?thesis by simp
  next
    case False
    then have "\<forall>a k. pc \<noteq> N_delete a k" by blast
    from preach_net [OF step.prems(1,3,4) assms(2) this] step.prems(2) step.hyps(1) show ?thesis by simp
  qed
  from step.IH [OF this] step.prems show ?case by simp
qed

text \<open>A round in which \<open>select\<close> fails, whatever the set of descriptors holds afterwards.\<close>

fun before_select :: "net_pc \<Rightarrow> bool" where
  "before_select (N_fill i fds) = True"
| "before_select (N_select fds) = True"
| "before_select (N_close a k) = before_select k"
| "before_select (N_erase a k) = before_select k"
| "before_select (N_delete a k) = before_select k"
| "before_select pc = False"

lemma net_exec_fails:
  assumes run: "net_exec E inp pc w = Inr (pc', w')" and inp: "\<not> select_works inp" and b: "before_select pc \<or> \<not> srv_isActive w"
  shows "(before_select pc' \<or> \<not> srv_isActive w') \<and> ServerOnline w' = ServerOnline w"
proof (cases pc)
  case (N_select fds)
  with run inp show ?thesis by (auto simp: bnd_eq_Inr gets_def whenM_def modify_def Let_def select_works_def split: if_splits)
next
  case (N_delete a k)
  with run b show ?thesis by (auto simp: DeleteClientSocket_def)
next
  case (N_fill i fds)
  with run show ?thesis by (auto simp: bnd_eq_Inr gets_def client_def split: if_splits option.splits)
next
  case (N_close a k)
  with run b show ?thesis
    by (auto simp: OnClientDisconnect_def bnd_eq_Inr client_def upd_client_def emit_def modify_def split: option.splits)
next
  case (N_erase a k)
  with run b show ?thesis by auto
qed (use net_exec_flags [OF run] b in auto)

lemma net_alone_fails:
  "net_alone E inp pc w pc' w' \<Longrightarrow> \<not> select_works inp \<Longrightarrow> before_select pc \<or> \<not> srv_isActive w \<Longrightarrow>
    (before_select pc' \<or> \<not> srv_isActive w') \<and> ServerOnline w' = ServerOnline w"
proof (induction rule: net_alone.induct)
  case (step pc w pc1 w1 pc' w')
  then show ?case using net_exec_fails [OF step.hyps(1)] by metis
qed simp

lemma failing_round:
  assumes r: "preach E A s (N_fill 0 [])" and s: "crash s = None" "code s Net_thread = []" "owner s PlayerMutex = None"
    and inp: "A inp" "\<not> select_works inp" and it: "server_iter E inp (mem s) = Inr ((), w')"
  shows "preach E A (s\<lparr>mem := w'\<rparr>) N_end \<and> \<not> srv_isActive w' \<and> ServerOnline w' = ServerOnline (mem s)"
proof -
  note alone = net_alone_iter [OF it]
  have f: "\<not> srv_isActive w'" "ServerOnline w' = ServerOnline (mem s)"
    using net_alone_fails [OF alone inp(2)] by simp_all
  have "net_exec E inp N_again w' = Inr (N_end, w')" using f by (simp add: ret_def)
  with net_alone_trans [OF alone] have "net_alone E inp (N_fill 0 []) (mem s) N_end w'"
    by (blast intro: net_alone.intros)
  from preach_alone [OF this inp(1) r refl s] f show ?thesis by blast
qed

section \<open>Races\<close>

text \<open>Between the test of a loop and its access the network thread may erase the last client of the list.\<close>

lemma erased_under_loop:
  assumes r: "preach E A s (N_erase a k)" and s: "crash s = None" "code s Net_thread = []" and inp: "A inp"
    and t: "code s t = i # is" "i = Map_at n \<or> i = Vis_at n \<or> i = See_at b n vs \<or> i = Disc_at n" and n: "Suc n = length (ClientList (mem s))"
  shows "\<exists>s'. preach E A s' (N_delete a k) \<and> crash s' = Some Out_of_bounds"
proof -
  let ?w = "(mem s)\<lparr>ClientList := remove1 a (ClientList (mem s))\<rparr>"
  let ?s = "s\<lparr>mem := ?w\<rparr>"
  have "a \<in> set (ClientList (mem s))" using proc_inv_reach [OF r] s(1) by (simp add: proc_inv_def mem_inv_def)
  then have len: "length (ClientList (mem ?s)) \<le> n" using n by (simp add: length_remove1)
  have e: "net_exec E inp (N_erase a k) (mem s) = Inr (N_delete a k, ?w)" by (simp add: ret_def)
  have r1: "preach E A ?s (N_delete a k)" by (rule preach_net [OF r s inp _ e]) simp
  let ?s' = "exec_instr E t i (?s\<lparr>code := (code ?s)(t := is)\<rparr>)"
  have "preach E A ?s' (N_delete a k)"
    by (rule preach_exec [OF r1, of t i "is"]) (use s t in auto)
  moreover have "crash ?s' = Some Out_of_bounds" using t(2) len by (auto simp: run_code_def rounds_end)
  ultimately show ?thesis by blast
qed

text \<open>The shutdown goes through the clients without a mutex: the client it has read may be deleted under it.\<close>

lemma deleted_under_shutdown:
  assumes r: "preach E A s (N_delete a k)" and s: "crash s = None" "code s Net_thread = []"
    and t: "code s (Shutdown_thread k') = Disc a # is" and free: "owner s PlayerMutex = None"
  shows "\<exists>s'. preach E A s' k \<and> crash s' = Some Dangling"
proof -
  let ?n = Net_thread
  let ?s1 = "s\<lparr>code := (code s)(?n := DeleteProcess a)\<rparr>"
  have r1: "preach E A ?s1 k" using preach.next_step [OF r nstep.delete [OF s]] .
  let ?s2 = "exec_instr E ?n (Lock PlayerMutex) (?s1\<lparr>code := (code ?s1)(?n := [Delete a, Unlock PlayerMutex])\<rparr>)"
  have r2: "preach E A ?s2 k" by (rule preach_exec [OF r1, of ?n]) (use s free in \<open>auto simp: DeleteProcess_def\<close>)
  let ?s3 = "exec_instr E ?n (Delete a) (?s2\<lparr>code := (code ?s2)(?n := [Unlock PlayerMutex])\<rparr>)"
  have r3: "preach E A ?s3 k" by (rule preach_exec [OF r2, of ?n]) (use s in auto)
  have s3: "crash ?s3 = None" "code ?s3 (Shutdown_thread k') = Disc a # is" "clients (mem ?s3) a = None"
    using s t by (simp_all add: run_act_def DeleteClientSocket_def modify_def)
  let ?s4 = "exec_instr E (Shutdown_thread k') (Disc a) (?s3\<lparr>code := (code ?s3)(Shutdown_thread k' := is)\<rparr>)"
  have "preach E A ?s4 k" by (rule preach_exec [OF r3 s3(1,2)]) auto
  moreover have "crash ?s4 = Some Dangling" using s3(3) by (simp add: run_act_def disconnect_loop_def)
  ultimately show ?thesis by blast
qed

end
