(* ===== verification/Boot.thy ===== *)
theory Boot
  imports Startup Network
begin

text \<open>
  From the start of the program to its loop: what the constructors of \<open>CConnServer\<close>, which run the loaders of
  \<open>LoadFiles\<close>, and \<open>StartServer\<close> establish. A new process has no objects; after the constructor it has no
  client, every id is free and the listed NPCs exist, which is what the invariants of the server loop and of
  the interleaved process start from. The names of the NPCs come from files; \<open>names_fit\<close> says that none is longer
  than the packet that carries it.
\<close>

section \<open>Loading\<close>

definition names_fit :: "env \<Rightarrow> bool" where
  "names_fit E \<longleftrightarrow> (\<forall>f roots r s. xmlParseFile E f = Some roots \<and> r \<in> set roots \<and> readXMLString r ''name'' = Some s \<longrightarrow>
     length s \<le> 60000)"

definition short_named :: "CNPC \<Rightarrow> bool" where
  "short_named n \<longleftrightarrow> length (npcname n) \<le> 60000"

definition loading :: "world \<Rightarrow> bool" where
  "loading w \<longleftrightarrow> ClientList w = [] \<and> clients w = Map.empty \<and> \<not> srv_isActive w \<and> (\<forall>i < 65535. ClientIDList w i = 1) \<and>
     set (NPCList w) \<subseteq> dom (npcs w) \<and> (\<forall>a n. npcs w a = Some n \<longrightarrow> short_named n)"

lemma loading_upd [simp]:
  "loading (w\<lparr>equips := es\<rparr>) = loading w" "loading (w\<lparr>EquipList := l\<rparr>) = loading w" "loading (w\<lparr>conf := c\<rparr>) = loading w"
  "loading (w\<lparr>lang := g\<rparr>) = loading w" "loading (w\<lparr>tick := k\<rparr>) = loading w"
  by (simp_all add: loading_def)

lemma loading_npc: "loading w \<Longrightarrow> short_named n \<Longrightarrow> loading (w\<lparr>npcs := (npcs w)(a \<mapsto> n)\<rparr>)"
  by (auto simp: loading_def)

definition loads :: "'a act \<Rightarrow> bool" where
  "loads m \<longleftrightarrow> triple loading m (\<lambda>_. loading)"

lemma loads_bnd: "loads m \<Longrightarrow> (\<And>x. loads (f x)) \<Longrightarrow> loads (bnd m f)"
  unfolding loads_def by (rule triple_bnd)

lemma loads_basic: "loads (ret x)" "loads (gets g)" "loads (liftE r)" "loads (throw e)"
  by (simp_all add: loads_def triple_ret triple_gets triple_liftE triple_throw)

lemma loads_modify: "(\<And>w. loading w \<Longrightarrow> loading (f w)) \<Longrightarrow> loads (modify f)"
  unfolding loads_def by (rule triple_modify)

lemma loads_if: "(b \<Longrightarrow> loads m) \<Longrightarrow> (\<not> b \<Longrightarrow> loads m') \<Longrightarrow> loads (if b then m else m')"
  by simp

lemma loads_option: "loads m \<Longrightarrow> (\<And>x. loads (f x)) \<Longrightarrow> loads (case v of None \<Rightarrow> m | Some x \<Rightarrow> f x)"
  by (simp split: option.split)

lemma loads_with_root: "(\<And>ps. loads (f ps)) \<Longrightarrow> loads (with_root E file r f)"
  unfolding with_root_def by (simp add: loads_basic split: option.split list.split)

lemma loads_ticks: "loads tickM" "loads (memoryM E)" "loads (wordM E)"
  by (auto intro!: tripleI simp: loads_def tickM_def memoryM_def wordM_def bnd_eq_Inr gets_def modify_def)

lemmas loads_intros = loads_bnd loads_basic loads_if loads_option loads_with_root loads_ticks

lemma loads_settings: "loads (LoadConfigs E)" "loads (LoadLanguage E)"
  unfolding LoadConfigs_def LoadLanguage_def by (rule loads_intros loads_modify | simp)+

lemma loads_item_list: "loads (item_list a ps)"
  by (induction ps) (simp_all only: item_list.simps, (rule loads_intros loads_modify | simp)+)

lemma loads_LoadItemList: "loads (LoadItemList E)"
  unfolding LoadItemList_def by (rule loads_intros loads_modify loads_item_list | simp)+

section \<open>NPCs\<close>

lemma npc_children_name: "npc_children ps slotnum n = Inr (slotnum', n') \<Longrightarrow> npcname n' = npcname n"
  by (induction ps arbitrary: slotnum n) (auto split: if_splits sum.splits)

lemma npc_attrs_name: "npcname (npc_attrs p n) = (case readXMLString p ''name'' of None \<Rightarrow> npcname n | Some s \<Rightarrow> s)"
  by (simp add: npc_attrs_def set_int_def set_str_def split: option.split)

lemma loads_npc_roots:
  "(\<And>r s. r \<in> set rs \<Longrightarrow> readXMLString r ''name'' = Some s \<Longrightarrow> length s \<le> 60000) \<Longrightarrow> loads (npc_roots a rs slotnum)"
proof (induction rs arbitrary: slotnum)
  case Nil
  then show ?case by (simp add: loads_basic)
next
  case (Cons r rs)
  have IH: "loads (npc_roots a rs m)" for m using Cons.prems by (intro Cons.IH) auto
  show ?case
    unfolding loads_def
  proof (rule tripleI)
    fix w x w'
    assume w: "loading w" and run: "npc_roots a (r # rs) slotnum w = Inr (x, w')"
    show "loading w'"
    proof (cases "xname r = ''npc''")
      case True
      with run obtain n m n' where n: "npcs w a = Some n" and c: "npc_children (xchildren r) slotnum (npc_attrs r n) = Inr (m, n')"
        and rest: "npc_roots a rs m (w\<lparr>npcs := (npcs w)(a \<mapsto> n'), NPCList := NPCList w @ [a]\<rparr>) = Inr (x, w')"
        by (auto simp: bnd_eq_Inr npc_def upd_npc_def modify_def liftE_def split: option.splits sum.splits)
      have "short_named n" using w n by (auto simp: loading_def)
      then have "short_named n'"
        using npc_children_name [OF c] Cons.prems [of r] by (auto simp: short_named_def npc_attrs_name split: option.splits)
      then have "loading (w\<lparr>npcs := (npcs w)(a \<mapsto> n'), NPCList := NPCList w @ [a]\<rparr>)"
        using w by (auto simp: loading_def)
      with IH rest show ?thesis unfolding loads_def by (blast dest: tripleD)
    next
      case False
      with run IH w show ?thesis unfolding loads_def by (auto dest: tripleD)
    qed
  qed
qed

lemma loads_LoadNPCFile:
  assumes "names_fit E"
  shows "loads (LoadNPCFile E file posx posy)"
proof -
  have roots: "loads (npc_roots a roots m)" if "xmlParseFile E f = Some roots" for a f roots m
    by (rule loads_npc_roots) (use assms that in \<open>auto simp: names_fit_def\<close>)
  have "loads (case xmlParseFile E f of None \<Rightarrow> ret False
      | Some roots \<Rightarrow> bnd (wordM E) (\<lambda>slotnum. bnd (npc_roots a roots slotnum) (\<lambda>_. ret True)))" for a f
    by (cases "xmlParseFile E f") (simp_all add: loads_basic roots loads_bnd loads_ticks)
  then show ?thesis
    unfolding LoadNPCFile_def
    by (intro loads_bnd loads_ticks loads_modify loading_npc) (simp_all add: short_named_def mem_npc_def)
qed

lemma loads_npc_list: "names_fit E \<Longrightarrow> loads (npc_list E ps)"
  by (induction ps) (simp_all only: npc_list.simps prod.case, (rule loads_intros loads_LoadNPCFile | simp split: option.split)+)

lemma loads_LoadNPCList: "names_fit E \<Longrightarrow> loads (LoadNPCList E)"
  unfolding LoadNPCList_def by (rule loads_intros loads_npc_list | assumption)+

section \<open>The constructor and the start\<close>

text \<open>A process that has created nothing yet.\<close>

definition newborn :: "world \<Rightarrow> bool" where
  "newborn w \<longleftrightarrow> clients w = Map.empty \<and> npcs w = Map.empty"

lemma loading_CConnServer_new:
  assumes "names_fit E" "newborn w" "CConnServer_new E w = Inr (x, w')"
  shows "loading w'"
proof -
  define u where "u = (CServerSocket_new w)\<lparr>ClientIDList := (\<lambda>i. if i < 65535 then 1 else ClientIDList (CServerSocket_new w) i)\<rparr>"
  let ?loads = "bnd (LoadConfigs E) (\<lambda>_. bnd (LoadLanguage E) (\<lambda>_. bnd (LoadNPCList E) (\<lambda>_. bnd (LoadItemList E) (\<lambda>_. ret ()))))"
  have "loads ?loads"
    by (rule loads_bnd loads_settings loads_LoadNPCList [OF assms(1)] loads_LoadItemList loads_basic)+
  moreover have "loading u" using assms(2) by (simp add: u_def loading_def newborn_def CServerSocket_new_def)
  moreover have "?loads u = Inr (x, w')"
    using assms(3) unfolding CConnServer_new_def u_def by (simp only: bnd_modify)
  ultimately show ?thesis unfolding loads_def by (rule tripleD)
qed

text \<open>The world in which \<open>ServerLoop\<close> begins.\<close>

definition served :: "start_in \<Rightarrow> world \<Rightarrow> world" where
  "served st w = w\<lparr>srv_sock := so_socket st, srv_isActive := True, ServerOnline := True,
     CKeys := snd (ReadKeysFromFile (so_keys st) (CKeys w))\<rparr>"

definition listens :: "start_in \<Rightarrow> bool" where
  "listens st \<longleftrightarrow> so_socket st \<noteq> INVALID_SOCKET \<and> so_bind st = 0 \<and> so_listen st \<noteq> -1"

lemma StartServer_serves:
  "listens st \<Longrightarrow> StartServer E st inps w =
     bnd (server_run E inps) (\<lambda>_. bnd (gets srv_sock) (\<lambda>s. bnd (emit (Ev_Close s)) (\<lambda>_. ret True))) (served st w)"
  by (simp add: listens_def StartServer_def OnServerReady_def served_def)

lemma StartServer_idle:
  assumes "\<not> listens st" "StartServer E st inps w = Inr (b, w')"
  shows "clients w' = clients w \<and> ClientList w' = ClientList w"
  using assms by (auto simp: listens_def StartServer_def close_server_def emit_def ret_def split: if_splits)

lemma loading_invariants: "loading w \<Longrightarrow> cl_inv w \<and> all_clients wf_client w"
  by (simp add: loading_def cl_inv_def all_clients_def)

lemma served_ok:
  assumes "loading w"
  shows "cl_inv (served st w)" "all_clients wf_client (served st w)" "world_ok (served st w)" "initial (OnServerStep (served st w))"
proof -
  show "cl_inv (served st w)" "all_clients wf_client (served st w)"
    using assms by (simp_all add: loading_def served_def cl_inv_def all_clients_def)
  have "\<exists>n. npcs w a = Some n \<and> length (npcname n) \<le> 60000" if "a \<in> set (NPCList w)" for a
    using assms that unfolding loading_def short_named_def by blast
  then show "world_ok (served st w)"
    using assms by (simp add: world_ok_def served_def loading_def all_clients_def)
  show "initial (OnServerStep (served st w))" by (simp add: initial_def OnServerStep_def served_def)
qed

lemma on_server_eq: "on_server m r = Inr (x, r') \<longleftrightarrow> (\<exists>w. m (srv r) = Inr (x, w) \<and> r' = r\<lparr>srv := w\<rparr>)"
  by (auto simp: on_server_def split: sum.splits)

lemma main_serves:
  assumes "main E inp r = Inr (0, r')"
  shows "\<exists>w b w'. CConnServer_new E (srv r) = Inr ((), w) \<and> StartServer E (start_args inp) (rounds inp) w = Inr (b, w') \<and> srv r' = w'"
  using assms
  by (fastforce simp: main_def calls_run bnd_eq_Inr on_server_eq split: if_splits)

text \<open>
  C7. The program establishes what its loop relies on: whatever the files, the system calls and the rounds,
  a run of \<open>main\<close> that ends with 0 ends with a client list that names exactly the living clients, whose records
  are well formed; and if the socket can be opened, bound and listened on, the server loop has run in a
  world from which the threads, created in it, start: all that is shown of the process holds of it.
\<close>

theorem program_start:
  assumes run: "main E inp r = Inr (0, r')" and new: "newborn (srv r)" and files: "names_fit E"
  shows "cl_inv (srv r') \<and> all_clients wf_client (srv r') \<and>
    (listens (start_args inp) \<longrightarrow> (\<exists>w w'. preach E A (OnServerStep w) (N_fill 0 []) \<and>
      server_run E (rounds inp) w = Inr ((), w') \<and> ClientList (srv r') = ClientList w' \<and> clients (srv r') = clients w'))"
proof -
  obtain w b where w: "CConnServer_new E (srv r) = Inr ((), w)"
    and st: "StartServer E (start_args inp) (rounds inp) w = Inr (b, srv r')" using main_serves [OF run] by blast
  have l: "loading w" by (rule loading_CConnServer_new [OF files new w])
  show ?thesis
  proof (cases "listens (start_args inp)")
    case True
    let ?w = "served (start_args inp) w"
    obtain w' where w': "server_run E (rounds inp) ?w = Inr ((), w')" "srv r' = w'\<lparr>trace := trace w' @ [Ev_Close (srv_sock w')]\<rparr>"
      using st StartServer_serves [OF True, of E "rounds inp" w] by (auto simp: bnd_eq_Inr emit_def gets_def modify_def)
    have "preach E A (OnServerStep ?w) (N_fill 0 [])"
      by (rule preach.init) (use served_ok [OF l] in \<open>simp_all add: OnServerStep_def\<close>)
    moreover have "cl_inv w'" "all_clients wf_client w'"
      using cl.inv_server_run [OF w'(1)] wf.inv_server_run [OF w'(1)] served_ok [OF l] by blast+
    ultimately show ?thesis using w' by (auto simp: cl_inv_def all_clients_def)
  next
    case False
    have "clients (srv r') = clients w \<and> ClientList (srv r') = ClientList w" using StartServer_idle [OF False st] .
    with False l show ?thesis by (simp add: loading_def cl_inv_def all_clients_def)
  qed
qed

definition quiet_day :: main_in where
  "quiet_day = \<lparr>mysql_thread_safe = True, wsa_err = 0, wsa_version = 0x0202, mysql_real_connect = True,
     start_args = \<lparr>so_socket = 60, so_bind = 0, so_listen = 0, so_keys = no_keys\<rparr>,
     rounds = [\<lparr>activity = 1, eintr = False, readyfds = [60], accepted = 77, received = (\<lambda>_. [])\<rparr>]\<rparr>"

theorem program_start_witness:
  "\<exists>r' a. main sample_env quiet_day \<lparr>calls = [], srv = sample_world\<lparr>clients := Map.empty, npcs := Map.empty\<rparr>\<rparr> = Inr (0, r') \<and>
    cl_inv (srv r') \<and> ClientList (srv r') = [a]"
proof -
  let ?r = "\<lparr>calls = [], srv = sample_world\<lparr>clients := Map.empty, npcs := Map.empty\<rparr>\<rparr>"
  have x: "xmlParseFile sample_env f = None" for f by (simp add: sample_env_def)
  obtain w where w: "CConnServer_new sample_env (srv ?r) = Inr ((), w)"
    by (simp add: CConnServer_new_def LoadConfigs_def LoadLanguage_def LoadNPCList_def LoadItemList_def with_root_def x ret_apply bnd_assoc)
  have new: "newborn (srv ?r)" by (simp add: newborn_def)
  have files: "names_fit sample_env" by (simp add: names_fit_def x)
  have l: "loading w" by (rule loading_CConnServer_new [OF files new w])
  let ?st = "start_args quiet_day" and ?i = "hd (rounds quiet_day)"
  let ?w = "served ?st w"
  have st: "listens ?st" by (simp add: listens_def quiet_day_def INVALID_SOCKET_def)
  have e: "ClientList ?w = []" "srv_sock ?w = 60" using l by (simp_all add: served_def loading_def quiet_day_def)
  have "FillFDS ?w = Inr ([], ?w)" using fill_fds_active [of 0 ?w "[]"] e by (simp add: FillFDS_def)
  moreover obtain w1 a where w1: "AddUser sample_env 77 ?w = Inr ((), w1)" "ClientList w1 = [a]"
    "clients w1 a = Some (CConnClient_new (mem_client (memory_at sample_env (tick ?w + 1)))\<lparr>sock := 77, isActive := True\<rparr>)"
    using e by (simp add: AddUser_run)
  moreover have "HandleClients sample_env (received ?i) [60] w1 = Inr ((), w1)"
    using w1(2,3) by (simp add: HandleClients_def handle_clients.simps [of sample_env _ _ 0 w1] handle_clients.simps [of sample_env _ _ "Suc 0" w1])
  ultimately have it: "server_iter sample_env ?i ?w = Inr ((), w1)"
    using e by (simp add: server_iter_def quiet_day_def Let_def INVALID_SOCKET_def whenM_def)
  have "server_run sample_env (rounds quiet_day) ?w = Inr ((), w1)"
    using it by (simp add: quiet_day_def ret_apply)
  then have "StartServer sample_env ?st (rounds quiet_day) w = Inr (True, w1\<lparr>trace := trace w1 @ [Ev_Close (srv_sock w1)]\<rparr>)"
    by (simp add: StartServer_serves [OF st] ret_apply)
  then obtain r' where r': "main sample_env quiet_day ?r = Inr (0, r')" "ClientList (srv r') = [a]"
    using w w1(2) by (simp add: main_def bnd_def on_server_def calls_run ret_def quiet_day_def call_def modify_def)
  from program_start [OF r'(1)] new files r' show ?thesis by simp
qed

end
