(* ===== verification/SharedPacket.thy ===== *)
theory SharedPacket
  imports Frames
begin

text \<open>
  The global \<open>packet\<close> is shared: the scan of the visibility thread (\<open>VisiblityList\<close>, under \<open>MainMutex\<close>) builds its
  packets in it, and so does every handler on the network thread, which takes no mutex. Here one handler, \<open>SendChat\<close>, is cut
  in two between building its packet and sending it, and a scan runs in between: what it leaves in the packet is
  what it sent last (\<open>last_sent\<close>, an interpretation of \<open>framed\<close>), and that is what the handler sends.
\<close>

section \<open>What a scan leaves in the packet\<close>

definition last_sent :: "world \<Rightarrow> world \<Rightarrow> bool" where
  "last_sent w w' \<longleftrightarrow> packet w' = packet w \<and> deliveries (trace w') = deliveries (trace w) \<or>
     (\<exists>ds s. deliveries (trace w') = deliveries (trace w) @ ds @ [(s, map (bufD (packet w')) [0..<172])])"

interpretation ls: framed last_sent
proof
  show "last_sent w w" for w by (simp add: last_sent_def)
  show "last_sent u w" if "last_sent u v" "last_sent v w" for u v w
    using that unfolding last_sent_def by (elim disjE exE conjE) (auto intro: exI [of _ "_ @ [_] @ _"])
qed

lemmas ls_intros = ls.keeps_ret ls.keeps_gets ls.keeps_liftE ls.keeps_bnd keeps_if keeps_let

lemma ls_basic: "keeps last_sent (client a)" "keeps last_sent (npc a)" "keeps last_sent (ClearObject a i)"
  "keeps last_sent (memoryM E)" "keeps last_sent (upd_npc a f)" "keeps last_sent (upd_client a g)"
  by (auto intro!: keepsI simp: client_def npc_def ClearObject_def memoryM_def tickM_def upd_npc_def upd_client_def
      last_sent_def gets_def modify_def ret_def bnd_def split: option.splits)

lemma ls_send: "keeps last_sent (bnd (on_packet m) (\<lambda>_. bnd (SendPk E a 172) (\<lambda>_. ret True)))"
proof (rule keepsI)
  fix w x w'
  assume run: "bnd (on_packet m) (\<lambda>_. bnd (SendPk E a 172) (\<lambda>_. ret True)) w = Inr (x, w')"
  then obtain p where p: "m (packet w) = Inr ((), p)"
    by (cases "m (packet w)") (auto simp: on_packet_fault)
  from run obtain c where c: "clients w a = Some c"
    by (cases "clients w a") (auto simp: on_packet_ok [where m = m and w = w, OF p] SendPk_dangling)
  from build_send_run [where m = m and w = w, OF p c, of E 172] run p show "last_sent w w'"
    by (auto simp: last_sent_def on_packet_ok [where m = m and w = w] ret_def)
qed

lemma ls_alloc: "keeps last_sent (GetNewMobID E)"
proof (rule keepsI)
  fix w i w1
  assume "GetNewMobID E w = Inr (i, w1)"
  then have "id_base w1 = id_base w"
    using id_loop_cases [of E 2000 w i w1] by (auto simp: GetNewMobID_def elim: id_stepE)
  from id_base_sel(5,6) [OF this] show "last_sent w w1" by (simp add: last_sent_def)
qed

lemma ls_Spawn: "keeps last_sent (SpawnChar E this a)" "keeps last_sent (SpawnNPC E this a)"
  unfolding SpawnChar_def SpawnNPC_def by (rule ls_send ls_basic ls_alloc ls_intros)+

lemma ls_vis: "keeps last_sent (vis_clients E this as vs)" "keeps last_sent (vis_npcs E this as vs)"
  by (induction as arbitrary: vs) (simp_all only: vis_clients.simps vis_npcs.simps, (assumption | rule ls_basic ls_Spawn ls_intros)+)

lemma ls_VisiblityList: "keeps last_sent (VisiblityList E this)"
  unfolding VisiblityList_def by (rule ls_vis ls_basic ls_intros)+

section \<open>A handler cut in two\<close>

definition chat_build :: "cbuf \<Rightarrow> unit act" where
  "chat_build P = on_packet (seqM [Free, AddPrefix P 109])"

definition chat_send :: "env \<Rightarrow> nat \<Rightarrow> bool act" where
  "chat_send E this = bnd (SendToVisible E this 108 False) (\<lambda>_. ret True)"

lemma SendChat_parts: "SendChat E this P = bnd (chat_build P) (\<lambda>_. chat_send E this)"
  by (simp add: SendChat_def chat_build_def chat_send_def)

text \<open>
  C9. A chat line can go out as somebody else's packet: if the visibility thread scans after the handler has
  built the packet and before it sends it, and the scan sends anything, then everybody who sees the speaker
  receives the first 108 bytes of the last packet of the scan, whatever the line was.
\<close>

theorem chat_race:
  assumes "chat_build P w = Inr ((), w1)" and scan: "VisiblityList E b w1 = Inr (r, w2)"
    and sent: "deliveries (trace w2) \<noteq> deliveries (trace w1)"
    and c: "clients w2 this = Some c" and alive: "\<And>a. a \<in> set (VisibleClients c) \<Longrightarrow> clients w2 a \<noteq> None"
  shows "\<exists>ds s p w3. deliveries (trace w2) = deliveries (trace w1) @ ds @ [(s, p)] \<and> chat_send E this w2 = Inr (True, w3) \<and>
    deliveries (trace w3) = deliveries (trace w2) @ map (\<lambda>a. (sock (the (clients w2 a)), take 108 p)) (VisibleClients c)"
proof -
  obtain ds s where p: "deliveries (trace w2) = deliveries (trace w1) @ ds @ [(s, map (bufD (packet w2)) [0..<172])]"
    using keepsD [OF ls_VisiblityList scan] sent by (auto simp: last_sent_def)
  have "plain w2 108 = take 108 (map (bufD (packet w2)) [0..<172])" by (simp add: plain_def take_map)
  moreover obtain w3 where "SendToVisible E this 108 False w2 = Inr ((), w3)"
    "deliveries (trace w3) = deliveries (trace w2) @ map (\<lambda>a. (sock (the (clients w2 a)), plain w2 108)) (VisibleClients c)"
    using SendToVisible_run [of w2 this c E 108 False] c alive by fastforce
  ultimately show ?thesis using p by (intro exI conjI) (assumption | simp add: chat_send_def ret_def)+
qed

text \<open>Bob walks up to Ana while she is speaking.\<close>

definition newcomer_world :: world where
  "newcomer_world = sample_world\<lparr>clients := (clients sample_world)(2 \<mapsto> sample_client 2 ''Bob'' 103 104 [])\<rparr>"

theorem chat_race_witness:
  "\<exists>w1 w2 w3 ds s p. chat_build (sample_packet 109) newcomer_world = Inr ((), w1) \<and>
    VisiblityList sample_env 2 w1 = Inr (True, w2) \<and> chat_send sample_env 1 w2 = Inr (True, w3) \<and>
    deliveries (trace w3) = ds @ [(s, p), (102, take 108 p)]"
proof -
  let ?ana = "sample_client 1 ''Ana'' 100 100 [2]" and ?bob = "sample_client 2 ''Bob'' 103 104 []"
  obtain q where q: "chat_build (sample_packet 109) newcomer_world = Inr ((), newcomer_world\<lparr>packet := q\<rparr>)"
    by (rule laysE [OF relay_layout [of 109 "sample_packet 109"], of "packet newcomer_world"])
      (simp_all add: chat_build_def on_packet_ok del: seqM.simps)
  let ?w = "newcomer_world\<lparr>packet := q\<rparr>"
  have bob: "clients ?w 2 = Some ?bob" and ana: "clients ?w 1 = Some ?ana" and l: "ClientList ?w = [1, 2]"
    by (simp_all add: newcomer_world_def sample_world_def)
  have ok: "scannable ?w"
    using sample_scannable by (auto simp: scannable_def newcomer_world_def named_def sample_client_def sample_world_def)
  have "f_less (distance (point 103 104) (point 100 100)) (Fin (of_int 30))"
    by (subst distance_less_iff) simp_all
  then have "sees_client ?w 2 MINVISUALRANGE 1"
    using ana bob by (simp add: sees_client_def f_of_int_range sample_client_def point_def)
  then have "1 \<in> set (client_view ?w 2 [] (ClientList ?w))" by (simp add: l)
  then have some: "0 < newcomers [] (client_view ?w 2 [] (ClientList ?w))" by (auto simp: length_pos_if_in_set)
  have b: "VisibleClients ?bob = []" "sock ?bob = 102" by (simp_all add: sample_client_def)
  obtain w2 k v n where w2: "VisiblityList sample_env 2 ?w = Inr (True, w2)"
      "clients w2 = (clients ?w)(2 \<mapsto> ?bob\<lparr>VisibleClients := v, VisibleNPCs := n\<rparr>)"
      "to_only 102 ?w (newcomers [] (client_view ?w 2 [] (ClientList ?w)) + k) w2"
    using VisiblityList_run [OF bob ok, of sample_env, unfolded b] by blast
  have cs: "clients w2 1 = Some ?ana" "VisibleClients ?ana = [2]" "\<exists>c. clients w2 2 = Some c \<and> sock c = 102"
    using ana by (simp_all add: w2(2) sample_client_def)
  have "deliveries (trace w2) \<noteq> deliveries (trace ?w)" using w2(3) some by (auto simp: to_only_def)
  from chat_race [OF q w2(1) this cs(1)] cs(2,3) q w2(1) show ?thesis by auto
qed

end
