(* ===== verification/Spec2Isabelle.thy ===== *)
theory Spec2Isabelle
  imports Boot SharedPacket
begin

text \<open>
  Destiny emulator: a game server for the WYD client, in C++ under \<open>src/src\<close>. This library models the
  whole of the program's own code and proves what it does, where it is right and where it is not.

  \<^bold>\<open>The program.\<close> \<open>main\<close> (\<open>gameserver/main.cpp\<close>) installs signal handlers, creates the mutexes, loads
  \<open>encdec.dll\<close>, constructs \<open>CConnServer\<close> (whose constructor reads the XML files) and calls
  \<open>StartServer\<close>. The network thread then runs \<open>ServerLoop\<close>: it fills a descriptor set from the client
  list, accepts connections and lets every ready client receive. A received block is decrypted and
  dispatched by its opcode to a handler, which talks to the database, changes the record of the client
  and sends packets. Three worker threads move the players and keep the lists of visible clients and NPCs.

  \<^bold>\<open>The theories and their sources.\<close>
  \<^item> \<open>Prelude\<close>: errors as values (\<open>fault\<close>), state-passing operations \<open>('s, 'a) op\<close> with \<open>bnd\<close> and
    \<open>ret\<close>, triples, the frame relation \<open>keeps\<close> with its locale \<open>framed\<close>, bytes and words.
  \<^item> \<open>CLib\<close>: what is used of the C library: blocks with bounds, strings, \<open>strtok\<close>, \<open>atoi\<close>, \<open>vsprintf\<close>.
  \<^item> \<open>PacketWriter\<close>: \<open>commom/packetwriter.cpp\<close>. The packet under construction is the record \<open>bufwrite\<close>;
    \<open>lays m f\<close> says that a builder never leaves the array and turns its bytes \<open>d\<close> into \<open>f d\<close>.
  \<^item> \<open>Float32\<close>: IEEE single precision over rationals, with infinities and NaN.
  \<^item> \<open>GameTypes\<close>, \<open>World\<close>: the structures of \<open>game_types.h\<close> and \<open>game_player.h\<close>, and the state of the server as
    one record \<open>world\<close>. Objects live at addresses (\<open>clients\<close>, \<open>npcs\<close>, \<open>equips\<close> are maps), so a pointer to a
    deleted object is the fault \<open>Dangling\<close>. \<open>env\<close> holds what the program calls but does not contain: the
    cipher functions of \<open>encdec.dll\<close>, the database, the XML parser, the clocks, and the contents of
    uninitialised memory, each a function of how often it was asked. \<open>trace\<close> records what leaves the
    program, and \<open>deliveries\<close> reads the packets handed to the cipher with the sockets they are sent to.
  \<^item> \<open>Sample\<close>: a small concrete server for the witnesses.
  \<^item> \<open>ExtraFunctions\<close>, \<open>Spawn\<close>, \<open>ClientFunctions\<close>, \<open>Handlers\<close>, \<open>CharList\<close>, \<open>LoadFiles\<close>, \<open>Login\<close>, \<open>Commands\<close>,
    \<open>Dispatch\<close>: one theory per group of functions of \<open>gameserver/\<close>, one definition per function, under
    the function's name, every branch, early return and fault included.
  \<^item> \<open>Frames\<close>: what operations leave alone, as the locale \<open>client_frame\<close>, in which every handler is followed once.
  \<^item> \<open>Sessions\<close>: what the packets of a session change of its client, and the way into the world.
  \<^item> \<open>Sockets\<close>: \<open>commom/socket_server.cpp\<close> and the members of \<open>CConnServer\<close> that override it.
  \<^item> \<open>Threads\<close>: \<open>game_mainprocess.cpp\<close> as a step relation: a thread is the list of instructions it still has
    to execute, and any thread whose next instruction is enabled may take a step. Every termination signal may start another
    shutdown, whatever the state of the server. The scan for visible objects is a loop of its own, in steps, which undisturbed
    are \<open>VisiblityList\<close>.
  \<^item> \<open>Network\<close>: the whole process: the network thread's loop as a program counter (\<open>net_pc\<close>) and a step function
    (\<open>net_exec\<close>), interleaved with the threads of \<open>Threads\<close>.
  \<^item> \<open>SharedPacket\<close>: a handler and a scan of the visibility thread in the one packet they share.
  \<^item> \<open>Config\<close>, \<open>Logging\<close>, \<open>Startup\<close>: \<open>commom/config.cpp\<close>, \<open>commom/log.cpp\<close>, and \<open>main\<close>, signals, cipher loading,
    monsters and the table of item effects. \<open>Boot\<close>: from \<open>main\<close> through the constructors and the loaders to the
    first round of the loop.

  \<^bold>\<open>Interfaces.\<close> The locale \<open>framed\<close> (a reflexive and transitive relation that every operation keeps) is
  extended by \<open>client_frame\<close>, which admits, besides output and bookkeeping, given updates of the record of one
  client. Inside it every packet handler is shown to keep the relation; it is interpreted for \<open>own\<close> (only
  the sender's record may change), for \<open>same_view\<close> (a view of that record stays), for \<open>typed\<close> (a property
  of records is kept), for \<open>same_flags\<close> and for \<open>stays\<close>, the two relations of the threads. \<open>round_invariant\<close> states what
  carries an invariant through every round of the server loop and is interpreted for the client list and for the
  records. \<open>framed\<close> itself is interpreted for \<open>quiet\<close> (no object changes) and for \<open>last_sent\<close> (what is in the shared packet
  was sent last). \<open>id_allocator\<close> states what handing out an id promises and is interpreted for the two allocators of
  the server, which share a table. \<open>packet_buffer\<close> states what the builders rely on in a buffer with bytes, words and
  double words and is interpreted for \<open>bufwrite\<close>. \<open>hysteresis\<close> is the abstract view that is entered at a
  small distance and left at a large one, interpreted for players and for NPCs.

  \<^bold>\<open>What is shown.\<close>
  \<^item> Across components (this theory): a packet changes no client but its sender; the client list names
    exactly the living clients, and their records keep their type, through any number of rounds; an NPC's id
    goes stale when it is spawned again. \<open>main\<close> establishes what these invariants and the process start from.
    In every interleaving of the process, no deadlock, at most one thread at what the code puts under \<open>PlayerMutex\<close>, all
    workers at their end when a shutdown has stopped the server, however many are started; what can crash the process is the
    handling of a received block, an index of a loop that the network thread has made stale (it can), and a deletion during a
    shutdown (it can); a failing \<open>select\<close> leaves the workers behind; a chat line may go out as a packet of the visibility
    thread.
  \<^item> Sessions: nobody becomes logged in without the password but by entering the world, which asks for no
    login; only a login changes who a session is; no character is deleted without a password, but the
    owner is not asked; no character is created under a taken name; old clients are refused; commands are
    closed to ordinary accounts.
  \<^item> Game: the visibility scan implements a view with hysteresis and settles; its float test is exact on
    whole coordinates; entering the world, purchases, chat, walking and broadcasts do what they should and
    reach whom they should; ids are distinct as long as no two searches overlap (when they do, two can be the same), and
    the search for one ends at the least free.
  \<^item> Data: layout of packets (every byte of the player's character and of its appearance, every field of the list of
    characters), round trip of words, bounds of every write, the tables filled from database rows, the configuration files
    against reference searches, decimal numbers read back.
  \<^item> Faults: what happens to packets that are too short, to clients that are still
    listed as visible after a disconnect, to the neighbours of inactive clients, to texts given to \<open>AddStr\<close>, to a
    speed of 0, to the item list, and to the exit code.

  \<^bold>\<open>Loops and bounds.\<close> Loops over lists and the id search are total functions with a measure. The server loop,
  which runs forever, is \<open>server_run\<close> on a list of rounds of any length; nothing is proved only for some
  length. No definition uses fuel.

  \<^bold>\<open>Choices.\<close> Addresses are never reused, so a dangling pointer is always visible as a fault. Reading outside a
  received packet is a fault although the block behind it is larger in the process. A statement is at
  most 1999 characters, as the buffer of \<open>DoSQL\<close> is 2000 bytes; a longer one is an overflow.

  \<^bold>\<open>Not modelled.\<close> The vendored headers under \<open>src/include\<close>, the libraries and the data files are not the
  program's code. \<open>Sleep\<close> and the text of log lines written by the handlers are left out. In the interleaved
  process the handling of one received block, one \<open>PlayerMovement\<close>, and of a scan the round for one client and all that
  follows its loop are single steps; in the loops of the worker threads, of a scan and of a shutdown the test of the index
  and the access are two. The network thread takes no mutex for its handlers, so that in the program a scan may run in the
  middle of one, in the packet they share: \<open>SharedPacket\<close> follows this for one handler and one cut, \<open>ExtraFunctions\<close> for the
  search for an id, the process does not. The loop of \<open>DisconnectClient\<close> that erases the client from the list is also one
  step. What a failed \<open>select\<close> leaves in the set of descriptors is any part of it.
\<close>

section \<open>Isolation of clients\<close>

text \<open>
  C1. A packet from one client changes no other client: whatever the bytes, the opcode, the database
  and the clock, if handling it returns, every other client's record, the client list, the NPCs, the
  equipment, the configuration, the language table and the server's keys are as before.
\<close>

theorem handler_isolation:
  assumes "PacketControl E this sz P w = Inr (r, w')"
  shows "(\<forall>a. a \<noteq> this \<longrightarrow> clients w' a = clients w a) \<and> ClientList w' = ClientList w \<and>
    NPCList w' = NPCList w \<and> npcs w' = npcs w \<and> equips w' = equips w \<and> conf w' = conf w \<and>
    lang w' = lang w \<and> CKeys w' = CKeys w \<and> srv_isActive w' = srv_isActive w"
  using keepsD [OF own_PacketControl assms] by (simp add: own_def)

theorem handler_isolation_witness:
  "\<exists>r w'. PacketControl sample_env 1 24 (sample_packet 24) sample_world = Inr (r, w') \<and>
    clients w' 2 = clients sample_world 2"
proof -
  obtain r w' where r: "PacketControl sample_env 1 24 (sample_packet 24) sample_world = Inr (r, w')"
    by (simp add: PacketControl_def liftE_def word16_def sample_packet_def ret_def)
  have "clients w' 2 = clients sample_world 2" using handler_isolation [OF r] by simp
  with r show ?thesis by blast
qed

section \<open>The client list\<close>

text \<open>
  C2. Invariant of the server loop: over any number of rounds, whatever arrives, the client list names
  each client once and names exactly the client objects that exist.
\<close>

theorem client_list_invariant:
  assumes "server_run E inps w = Inr ((), w')" and "cl_inv w"
  shows "cl_inv w' \<and> distinct (ClientList w') \<and> set (ClientList w') = dom (clients w')"
  using cl.inv_server_run [OF assms] by (simp add: cl_inv_def)

text \<open>One round in which the server socket is ready and a connection is accepted.\<close>

definition connect_round :: loop_in where
  "connect_round = \<lparr>activity = 1, eintr = False, readyfds = [50], accepted = 77, received = (\<lambda>_. [])\<rparr>"

lemma handle_nobody:
  "(\<And>a. a \<in> set (ClientList w) \<Longrightarrow> \<exists>c. clients w a = Some c \<and> sock c \<notin> set fds) \<Longrightarrow> handle_clients E data fds i w = Inr ((), w)"
proof (induction E data fds i w rule: handle_clients.induct)
  case (1 E data fds i w)
  show ?case
  proof (cases "length (ClientList w) \<le> i")
    case True
    then show ?thesis by (simp add: handle_clients.simps [of E data fds i w])
  next
    case False
    with "1.prems" obtain c where c: "clients w (ClientList w ! i) = Some c" "sock c \<notin> set fds" by (meson not_le nth_mem)
    with "1.IH"(3) [OF False refl client_ok [OF c(1)] refl] "1.prems" False show ?thesis
      by (simp add: handle_clients.simps [of E data fds i w])
  qed
qed

lemma connect_iter:
  "\<exists>w'. server_iter sample_env connect_round sample_world = Inr ((), w') \<and> ClientList w' = [1, 2, 10]"
proof -
  have fds: "FillFDS sample_world = Inr ([101, 102], sample_world)"
    using fill_fds_active [of 0 sample_world "[]"] by (simp add: FillFDS_def sample_world_def sample_client_def)
  obtain w' where add: "AddUser sample_env 77 sample_world = Inr ((), w')" "ClientList w' = [1, 2, 10]"
    "clients w' 1 = clients sample_world 1" "clients w' 2 = clients sample_world 2" "\<exists>c. clients w' 10 = Some c \<and> sock c = 77"
    by (simp add: AddUser_run sample_world_def)
  have "HandleClients sample_env (received connect_round) [50] w' = Inr ((), w')"
    unfolding HandleClients_def by (rule handle_nobody) (use add in \<open>auto simp: sample_client_def\<close>)
  moreover have "srv_sock sample_world = 50" by (simp add: sample_world_def)
  ultimately show ?thesis
    using fds add(1,2) by (simp add: server_iter_def connect_round_def Let_def INVALID_SOCKET_def ret_def whenM_def)
qed

lemma connect_run:
  "\<exists>w'. server_run sample_env [connect_round] sample_world = Inr ((), w') \<and> ClientList w' = [1, 2, 10]"
  using connect_iter by (auto simp: ret_def)

theorem client_list_invariant_witness:
  "\<exists>w'. server_run sample_env [connect_round] sample_world = Inr ((), w') \<and> cl_inv w' \<and> ClientList w' = [1, 2, 10]"
proof -
  obtain w' where r: "server_run sample_env [connect_round] sample_world = Inr ((), w')" and l: "ClientList w' = [1, 2, 10]"
    using connect_run by blast
  have "cl_inv sample_world" by (auto simp: cl_inv_def sample_world_def)
  from client_list_invariant [OF r this] r l show ?thesis by blast
qed

text \<open>
  C19. The client records keep their type: over any number of rounds, whatever arrives, in every record
  the arrays have their declared sizes, so the user name and the password are strings of at most 12
  characters and the character's name one of at most 29, each with its end.
\<close>

theorem client_records_typed:
  assumes "server_run E inps w = Inr ((), w')" and "all_clients wf_client w"
  shows "all_clients wf_client w' \<and> (\<forall>a. clients w' a = None \<or> (\<exists>c u p n. clients w' a = Some c \<and>
    cstr (username (PlayerSession c)) = Inr u \<and> length u \<le> 12 \<and> cstr (password (PlayerSession c)) = Inr p \<and> length p \<le> 12 \<and>
    cstr (char_name (PlayerInfo c)) = Inr n \<and> length n \<le> 29))"
proof -
  have w': "all_clients wf_client w'" using wf.inv_server_run [OF assms] .
  have "\<exists>c u p n. clients w' a = Some c \<and> cstr (username (PlayerSession c)) = Inr u \<and> length u \<le> 12 \<and>
      cstr (password (PlayerSession c)) = Inr p \<and> length p \<le> 12 \<and> cstr (char_name (PlayerInfo c)) = Inr n \<and> length n \<le> 29"
    if "clients w' a \<noteq> None" for a
    using that wf_texts all_clientsD [OF w'] by (metis option.exhaust)
  with w' show ?thesis by metis
qed

lemma sample_typed: "all_clients wf_client sample_world"
proof -
  have "wf_client (sample_client 1 ''Ana'' 100 100 [2])" "wf_client (sample_client 2 ''Bob'' 103 104 [1])" by code_simp+
  then show ?thesis by (auto simp: all_clients_def sample_world_def split: if_splits)
qed

theorem client_records_typed_witness:
  "\<exists>w' c u. server_run sample_env [connect_round] sample_world = Inr ((), w') \<and> clients w' 1 = Some c \<and>
    cstr (username (PlayerSession c)) = Inr u \<and> length u \<le> 12"
proof -
  obtain w' where r: "server_run sample_env [connect_round] sample_world = Inr ((), w')" "ClientList w' = [1, 2, 10]"
    using connect_run by blast
  note typed = client_records_typed [OF r(1) sample_typed]
  have "cl_inv sample_world" by (auto simp: cl_inv_def sample_world_def)
  then have "cl_inv w'" by (rule cl.inv_server_run [OF r(1)])
  then have "clients w' 1 \<noteq> None" using r(2) by (auto simp: cl_inv_def)
  with conjunct2 [OF typed, THEN spec [of _ 1]] r(1) show ?thesis by blast
qed

section \<open>The process\<close>

text \<open>
  C10. No deadlock: in every reachable state of the process that has not crashed, if any thread has
  instructions left then some thread can execute its next one; and the network thread waits only for its
  deletion of a client: otherwise, until its loop has ended, it can take a step that leads on.
\<close>

theorem process_no_deadlock:
  assumes "preach E A s pc" and "crash s = None" and "A inp"
  shows "((\<exists>t. code s t \<noteq> []) \<longrightarrow> (\<exists>u i is. code s u = i # is \<and> enabled i s)) \<and>
    (code s Net_thread = [] \<and> pc \<noteq> N_end \<longrightarrow> (\<exists>s' pc'. nstep E A s pc s' pc' \<and> (pc' \<noteq> pc \<or> crash s' \<noteq> None)))"
proof -
  have inv: "lock_inv s" using proc_inv_reach [OF assms(1)] by (simp add: proc_inv_def)
  have "flag_inv False s pc" by (rule flag_inv_reach [of False A]) (use assms in simp_all)
  then have "no_control s" "phase False s" by (simp_all add: flag_inv_def)
  note run = runnable [OF inv this]
  note net = net_advances [where A = A, OF assms(2) _ assms(3)]
  show ?thesis using run net by (intro conjI impI) (elim exE, assumption | blast)+
qed

text \<open>
  C11. Of the instructions that the code puts under \<open>PlayerMutex\<close> (\<open>guarded\<close>: moving a player, each step of a scan, deleting a
  client) at most one thread is about to execute one: it holds the mutex, and the clients the instruction names
  (\<open>targets\<close>) are alive. The loop of a shutdown and the handlers of the network thread work on the clients without a mutex
  and are not covered.
\<close>

theorem exclusive_access:
  assumes "preach E A s pc" and "crash s = None" and "code s t = i # is" and "guarded i"
  shows "owner s PlayerMutex = Some t \<and> (\<forall>u j js. u \<noteq> t \<and> code s u = j # js \<longrightarrow> \<not> guarded j) \<and>
    targets i \<subseteq> dom (clients (mem s))"
proof -
  have inv: "lock_inv s" and m: "mem_inv s pc" using proc_inv_reach [OF assms(1)] assms(2) by (simp_all add: proc_inv_def)
  have "u = t" if "code s u = j # js" "guarded j" for u j js
    using guarded_exclusive [OF inv assms(3,4) that] .
  moreover have "targets i \<subseteq> dom (clients (mem s))"
    using m assms(3) unfolding mem_inv_def by (metis list.set_intros(1))
  ultimately show ?thesis using guarded_holds [OF inv assms(3,4)] by blast
qed


text \<open>
  C27. A failing \<open>select\<close> ends the loop but not the threads. From the start of a round in which \<open>select\<close> fails, and whatever it
  leaves in the set of descriptors, if nobody holds \<open>PlayerMutex\<close> (the round may have clients to delete) and the round itself
  returns, the network thread can run to the end of the loop without a step of any other thread, after which
  \<open>StartServer\<close> returns and \<open>main\<close> deletes the server. All other threads are where they were, and as the flag
  they loop on is as before, each worker of a server that is online will start another round.
\<close>

theorem select_failure_ends_loop:
  assumes "preach E A s (N_fill 0 [])" and "crash s = None" and "code s Net_thread = []" and "owner s PlayerMutex = None"
    and "A inp" and "activity inp < 0" and "\<not> eintr inp" and "server_iter E inp (mem s) = Inr ((), w')"
  shows "preach E A (s\<lparr>mem := w'\<rparr>) N_end \<and> \<not> srv_isActive w' \<and> ServerOnline w' = ServerOnline (mem s) \<and>
    (ServerOnline (mem s) \<longrightarrow> starts Map_thread (s\<lparr>mem := w'\<rparr>) MapProcess \<and>
      starts Visuality_thread (s\<lparr>mem := w'\<rparr>) VisibilityProcess \<and> starts World_thread (s\<lparr>mem := w'\<rparr>) WorldProcess)"
proof -
  have "\<not> select_works inp" using assms(6,7) by (simp add: select_works_def)
  from failing_round [where A = A, OF assms(1-5) this assms(8)] show ?thesis
    by (auto intro: starts.map_again starts.vis_again starts.world_again)
qed


text \<open>
  C6. The loops race with a disconnect: while a worker thread, a scan for visible objects, or a shutdown is between the test
  of its index and the access to the last client of the list, the network thread, which takes no mutex for it, may
  erase a client; the access then throws, and nobody catches it.
\<close>

theorem erase_race:
  assumes "preach E A s (N_erase a k)" and "crash s = None" and "code s Net_thread = []" and "A inp"
    and "code s t = i # is" and "i = Map_at n \<or> i = Vis_at n \<or> i = See_at b n vs \<or> i = Disc_at n" and "Suc n = length (ClientList (mem s))"
  shows "\<exists>s'. preach E A s' (N_delete a k) \<and> crash s' = Some Out_of_bounds"
  using erased_under_loop [OF assms(1-4) assms(5-7)] .

text \<open>
  C8. A shutdown races with a deletion: it goes through the clients without \<open>PlayerMutex\<close>, so that the
  network thread may delete the client the shutdown has just read from the list, and the shutdown then
  writes to the deleted object.
\<close>

theorem shutdown_race:
  assumes "preach E A s (N_delete a k)" and "crash s = None" and "code s Net_thread = []"
    and "code s (Shutdown_thread j) = Disc a # is" and "owner s PlayerMutex = None"
  shows "\<exists>s'. preach E A s' k \<and> crash s' = Some Dangling"
  using deleted_under_shutdown [OF assms] .

text \<open>The witnesses: a process without clients, and one with two.\<close>

definition empty_world :: world where
  "empty_world = sample_world\<lparr>ClientList := [], clients := Map.empty\<rparr>"

definition one_at :: "world \<Rightarrow> tid \<Rightarrow> tinstr list \<Rightarrow> mstate" where
  "one_at w t is = (OnServerStep w)\<lparr>code := (\<lambda>_. [])(t := is)\<rparr>"

lemma one_at_simps [simp]:
  "mem (one_at w t is) = w" "code (one_at w t is) = (\<lambda>_. [])(t := is)" "crash (one_at w t is) = None"
  "owner (one_at w t is) = (\<lambda>_. None)" "(one_at w t is)\<lparr>code := (\<lambda>_. [])(t := js)\<rparr> = one_at w t js"
  "(one_at w t is)\<lparr>mem := v\<rparr> = one_at v t is"
  by (simp_all add: one_at_def OnServerStep_def)

lemma worlds_ok: "world_ok empty_world" "world_ok sample_world"
  using sample_typed by (auto simp: world_ok_def all_clients_def empty_world_def sample_world_def sample_npc_def split: if_splits)

lemma online:
  "ServerOnline empty_world" "srv_isActive empty_world" "ServerOnline sample_world" "srv_isActive sample_world"
  by (simp_all add: empty_world_def sample_world_def)

lemma process_starts:
  assumes "w = empty_world \<or> w = sample_world"
  shows "preach E A (one_at w t []) (N_fill 0 [])"
proof (rule preach.init)
  show "initial (one_at w t [])"
    using assms online by (auto simp: initial_def one_at_def OnServerStep_def fun_upd_idem)
  show "world_ok (mem (one_at w t []))" using assms worlds_ok by auto
qed

lemma map_starts:
  assumes "w = empty_world \<or> w = sample_world"
  shows "preach E A (one_at w Map_thread MapProcess) (N_fill 0 [])"
  by (rule preach_start [OF process_starts [where t = Map_thread, OF assms], where t = Map_thread])
    (use assms online in \<open>auto intro: starts.intros\<close>)

theorem process_no_deadlock_witness:
  "(\<exists>u i is. code (one_at empty_world Map_thread MapProcess) u = i # is \<and> enabled i (one_at empty_world Map_thread MapProcess)) \<and>
    (\<exists>s' pc'. nstep sample_env (\<lambda>_. True) (one_at empty_world Map_thread MapProcess) (N_fill 0 []) s' pc' \<and>
      (pc' \<noteq> N_fill 0 [] \<or> crash s' \<noteq> None))"
proof -
  let ?s = "one_at empty_world Map_thread MapProcess"
  have "code ?s Map_thread \<noteq> []" "code ?s Net_thread = []" by (simp_all add: MapProcess_def)
  moreover have "preach sample_env (\<lambda>_. True) ?s (N_fill 0 [])" by (rule map_starts) simp
  ultimately show ?thesis using process_no_deadlock [of sample_env "\<lambda>_. True" ?s "N_fill 0 []" connect_round] by fastforce
qed

lemma moving:
  "\<exists>s is. preach sample_env (\<lambda>_. True) s (N_fill 0 []) \<and> crash s = None \<and> code s Map_thread = Move 1 # is"
proof -
  let ?t = Map_thread and ?is = "[Unlock PlayerMutex, Lock MonsterMutex, Unlock MonsterMutex]"
  let ?own = "(\<lambda>_. None)(PlayerMutex \<mapsto> Map_thread)"
  let ?s = "\<lambda>is. (one_at sample_world ?t is)\<lparr>owner := ?own\<rparr>"
  let ?go = "[Lock MainMutex, Move 1, Unlock MainMutex, Map_loop 1]"
  have l: "loop_test Map_at 0 sample_world = [Map_at 0]" by (simp add: loop_test_def sample_world_def)
  have r: "map_round 0 sample_world = Inr (?go, sample_world)"
    by (simp add: round_defs bnd_def ret_def) (simp add: sample_world_def sample_client_def)
  have "preach sample_env (\<lambda>_. True) (one_at sample_world ?t MapProcess) (N_fill 0 [])" by (rule map_starts) simp
  then have "preach sample_env (\<lambda>_. True) (?s (Map_loop 0 # ?is)) (N_fill 0 [])"
    by (rule preach_exec) (auto simp: MapProcess_def)
  then have "preach sample_env (\<lambda>_. True) (?s (Map_at 0 # ?is)) (N_fill 0 [])"
    by (rule preach_exec) (auto simp: run_code_def gets_def l)
  then have "preach sample_env (\<lambda>_. True) (?s (?go @ ?is)) (N_fill 0 [])"
    by (rule preach_exec) (auto simp: run_code_def r)
  then have "preach sample_env (\<lambda>_. True)
      ((?s (Move 1 # Unlock MainMutex # Map_loop 1 # ?is))\<lparr>owner := ?own(MainMutex \<mapsto> Map_thread)\<rparr>) (N_fill 0 [])"
    by (rule preach_exec [where t = ?t]) auto
  then show ?thesis by (intro exI conjI) auto
qed

theorem exclusive_access_witness:
  "\<exists>s. preach sample_env (\<lambda>_. True) s (N_fill 0 []) \<and> owner s PlayerMutex = Some Map_thread \<and> clients (mem s) 1 \<noteq> None"
proof -
  obtain s "is" where s: "preach sample_env (\<lambda>_. True) s (N_fill 0 [])" "crash s = None" "code s Map_thread = Move 1 # is"
    using moving by blast
  have "guarded (Move 1)" by simp
  from exclusive_access [OF s this] s(1) show ?thesis by auto
qed

lemma shutdown_run:
  "preach sample_env select_works (one_at (empty_world\<lparr>ServerOnline := False, srv_isActive := False\<rparr>) (Shutdown_thread 0) []) (N_fill 0 [])"
proof -
  let ?w = empty_world and ?off = "empty_world\<lparr>ServerOnline := False\<rparr>" and ?t = "Shutdown_thread 0"
  let ?joins = "[Join World_thread, Join Visuality_thread, Join Map_thread, Stop_server]"
  let ?r = "\<lambda>w is. preach sample_env select_works (one_at w ?t is) (N_fill 0 [])"
  have st: "starts ?t (one_at ?w ?t []) ShutdownServer" by (rule starts.shut) (simp add: sigterm_def)
  have "?r ?w []" by (rule process_starts) simp
  then have "?r ?w (Disc_loop 0 # Go_offline # ?joins)"
    by (rule preach_start [where t = ?t, OF _ _ _ _ st]) (simp_all add: ShutdownServer_def)
  then have "?r ?w (Go_offline # ?joins)"
    by (rule preach_exec) (auto simp: run_code_def gets_def loop_test_def empty_world_def)
  then have "?r ?off ?joins" by (rule preach_exec) auto
  then have "?r ?off (tl ?joins)" by (rule preach_exec) auto
  then have "?r ?off (tl (tl ?joins))" by (rule preach_exec [where t = ?t]) auto
  then have "?r ?off [Stop_server]" by (rule preach_exec [where t = ?t]) auto
  then show ?thesis by (rule preach_exec [where t = ?t]) auto
qed


text \<open>A \<open>select\<close> that fails, and one that finds a byte from client 1 that claims to be a packet of two bytes.\<close>

definition failed_round :: loop_in where
  "failed_round = \<lparr>activity = -1, eintr = False, readyfds = [50], accepted = INVALID_SOCKET, received = (\<lambda>_. [])\<rparr>"

definition short_round :: loop_in where
  "short_round = \<lparr>activity = 1, eintr = False, readyfds = [101], accepted = INVALID_SOCKET, received = (\<lambda>_. [2])\<rparr>"

theorem select_failure_ends_loop_witness:
  "\<exists>s'. preach sample_env (\<lambda>_. True) s' N_end \<and> code s' Map_thread = MapProcess \<and> starts World_thread s' WorldProcess"
proof -
  let ?s = "one_at empty_world Map_thread MapProcess"
  have r: "preach sample_env (\<lambda>_. True) ?s (N_fill 0 [])" by (rule map_starts) simp
  have "server_iter sample_env failed_round (mem ?s) = Inr ((), empty_world\<lparr>srv_isActive := False\<rparr>)"
    by (simp add: server_iter_def failed_round_def FillFDS_def HandleClients_def fill_fds.simps handle_clients.simps
        empty_world_def whenM_def Let_def ret_def)
  from select_failure_ends_loop [OF r _ _ _ _ _ _ this]
  have "preach sample_env (\<lambda>_. True) (one_at (empty_world\<lparr>srv_isActive := False\<rparr>) Map_thread MapProcess) N_end \<and>
    starts World_thread (one_at (empty_world\<lparr>srv_isActive := False\<rparr>) Map_thread MapProcess) WorldProcess"
    by (simp add: failed_round_def online)
  then show ?thesis by (intro exI conjI) auto
qed

lemma PacketControl_short: "blen P < 6 \<Longrightarrow> PacketControl E this sz P w = Inl Out_of_bounds"
  by (simp add: PacketControl_def liftE_def rd16_def)

lemma short_block_faults: "\<exists>e. ReceiveData sample_env 1 [2] sample_world = Inl e"
proof -
  have r: "rd32 (recv_buffer [2]) 0 = Inr 2" "rd16 (recv_buffer [2]) 0 = Inr 2"
    by (simp_all add: rd32_def rd16_def recv_buffer_def word32_def word16_def)
  have "ReceiveData sample_env 1 [2] sample_world = Inl Out_of_bounds"
    by (simp add: ReceiveData_def OnReceivePacket_def r bnd_liftE Decrypt_def PacketControl_short)
  then show ?thesis by blast
qed


text \<open>Two clients that are not in the game yet, of which the first hangs up.\<close>

definition lobby_world :: world where
  "lobby_world = sample_world\<lparr>clients :=
     [1 \<mapsto> (sample_client 1 ''Ana'' 100 100 [2])\<lparr>ready := False\<rparr>, 2 \<mapsto> (sample_client 2 ''Bob'' 103 104 [1])\<lparr>ready := False\<rparr>]\<rparr>"

definition hangup_round :: loop_in where
  "hangup_round = \<lparr>activity = 1, eintr = False, readyfds = [101], accepted = INVALID_SOCKET, received = (\<lambda>_. [])\<rparr>"

lemma lobby_simps:
  "ClientList lobby_world = [1, 2]" "srv_sock lobby_world = 50"
  "clients lobby_world 1 = Some ((sample_client 1 ''Ana'' 100 100 [2])\<lparr>ready := False\<rparr>)"
  "clients lobby_world 2 = Some ((sample_client 2 ''Bob'' 103 104 [1])\<lparr>ready := False\<rparr>)"
  "clients lobby_world (Suc 0) = Some ((sample_client 1 ''Ana'' 100 100 [2])\<lparr>ready := False\<rparr>)"
  "isActive (sample_client i x a b v)" "sock (sample_client i x a b v) = 100 + i"
  by (simp_all add: lobby_world_def sample_world_def sample_client_def)

lemma lobby_starts: "preach E A (OnServerStep lobby_world) (N_fill 0 [])"
proof (rule preach.init)
  show "initial (OnServerStep lobby_world)" by (simp add: initial_def OnServerStep_def lobby_world_def sample_world_def)
  have "wf_client (c\<lparr>ready := b\<rparr>) = wf_client c" for c b by (simp add: wf_client_def)
  then have "all_clients wf_client lobby_world"
    using sample_typed unfolding all_clients_def lobby_world_def by (auto simp: sample_world_def split: if_splits)
  then show "world_ok (mem (OnServerStep lobby_world))"
    by (auto simp: world_ok_def OnServerStep_def lobby_world_def sample_world_def sample_npc_def)
qed

lemma hangup:
  assumes "preach sample_env (\<lambda>_. True) s (N_fill 0 [])" and s: "mem s = lobby_world" "crash s = None" "code s Net_thread = []"
  shows "\<exists>w. preach sample_env (\<lambda>_. True) (s\<lparr>mem := w\<rparr>) (N_erase 1 (N_handle hangup_round [101] 1)) \<and> ClientList w = [1, 2]"
proof -
  let ?p = "preach sample_env (\<lambda>_. True) s" and ?x = "net_exec sample_env hangup_round"
  have "s\<lparr>mem := mem s\<rparr> = s" by simp
  then have same: "s\<lparr>mem := lobby_world\<rparr> = s" by (simp only: s(1))
  have rec: "received hangup_round x = []" for x by (simp add: hangup_round_def)
  have step: "?p pc \<Longrightarrow> ?x pc lobby_world = Inr (pc', lobby_world) \<Longrightarrow> \<forall>a k. pc \<noteq> N_delete a k \<Longrightarrow> ?p pc'" for pc pc'
    using preach_net [of sample_env "\<lambda>_. True" s pc hangup_round pc' lobby_world] s same by simp
  have "?p (N_fill 1 [101])" by (rule step [OF assms(1)]) (simp_all add: lobby_simps ret_def)
  then have "?p (N_fill 2 [101, 102])" by (rule step) (simp_all add: lobby_simps ret_def)
  then have "?p (N_select [101, 102])" by (rule step) (simp_all add: lobby_simps ret_def)
  then have "?p (N_accept hangup_round [101])"
    by (rule step) (simp_all add: lobby_simps ret_def hangup_round_def whenM_def)
  then have "?p (N_handle hangup_round [101] 0)" by (rule step) (simp_all add: lobby_simps ret_def whenM_def)
  then have c: "?p (N_close 1 (N_handle hangup_round [101] 1))"
    by (rule step) (simp_all add: lobby_simps ReceiveData_def rec ret_apply)
  obtain w where "?x (N_close 1 (N_handle hangup_round [101] 1)) (mem s) = Inr (N_erase 1 (N_handle hangup_round [101] 1), w)"
    "ClientList w = [1, 2]"
    using s lobby_simps(1,3) by (simp add: OnClientDisconnect_def ret_def)
  with preach_net [OF c s(2,3) _ _ this(1)] show ?thesis by auto
qed

lemma one_at_start: "one_at w t [] = OnServerStep w"
  by (simp add: one_at_def OnServerStep_def fun_upd_idem)

theorem erase_race_witness:
  "\<exists>s. preach sample_env (\<lambda>_. True) s (N_delete 1 (N_handle hangup_round [101] 1)) \<and> crash s = Some Out_of_bounds"
proof -
  let ?t = Map_thread and ?is = "[Unlock PlayerMutex, Lock MonsterMutex, Unlock MonsterMutex]"
  let ?s = "\<lambda>is. (one_at lobby_world ?t is)\<lparr>owner := (\<lambda>_. None)(PlayerMutex \<mapsto> Map_thread)\<rparr>"
  let ?p = "\<lambda>s. preach sample_env (\<lambda>_. True) s (N_fill 0 [])"
  have l: "loop_test Map_at 0 lobby_world = [Map_at 0]" "loop_test Map_at 1 lobby_world = [Map_at 1]"
    by (simp_all add: loop_test_def lobby_simps)
  have r: "map_round 0 lobby_world = Inr ([Map_loop 1], lobby_world)" by (simp add: round_defs bnd_def ret_def lobby_simps)
  have "?p (one_at lobby_world ?t [])" unfolding one_at_start by (rule lobby_starts)
  then have "?p (one_at lobby_world ?t MapProcess)"
    by (rule preach_start [where t = ?t]) (auto simp: lobby_world_def sample_world_def intro: starts.intros)
  then have "?p (?s (Map_loop 0 # ?is))" by (rule preach_exec) (auto simp: MapProcess_def)
  then have "?p (?s (Map_at 0 # ?is))" by (rule preach_exec) (auto simp: run_code_def gets_def l)
  then have "?p (?s (Map_loop 1 # ?is))" by (rule preach_exec) (auto simp: run_code_def r)
  then have "?p (?s (Map_at 1 # ?is))" by (rule preach_exec) (auto simp: run_code_def gets_def l [simplified])
  from hangup [OF this] obtain w where
    w: "preach sample_env (\<lambda>_. True) ((?s (Map_at 1 # ?is))\<lparr>mem := w\<rparr>) (N_erase 1 (N_handle hangup_round [101] 1))"
    "ClientList w = [1, 2]" by auto
  have "code ((?s (Map_at 1 # ?is))\<lparr>mem := w\<rparr>) Map_thread = Map_at 1 # ?is" "Suc 1 = length (ClientList w)"
    using w(2) by simp_all
  from erase_race [OF w(1) _ _ _ this(1)] this(2) show ?thesis by auto
qed

theorem shutdown_race_witness:
  "\<exists>s. preach sample_env (\<lambda>_. True) s (N_handle hangup_round [101] 1) \<and> crash s = Some Dangling"
proof -
  let ?t = "Shutdown_thread 0" and ?k = "N_handle hangup_round [101] 1"
  let ?s = "\<lambda>is. one_at lobby_world ?t (is @ tl ShutdownServer)"
  let ?p = "\<lambda>s. preach sample_env (\<lambda>_. True) s (N_fill 0 [])"
  have l: "loop_test Disc_at 0 lobby_world = [Disc_at 0]" by (simp add: loop_test_def lobby_simps)
  have r: "disc_round 0 lobby_world = Inr ([Disc 1, Disc_loop 1], lobby_world)" by (simp add: round_defs bnd_def ret_def lobby_simps)
  have "?p (one_at lobby_world ?t [])" unfolding one_at_start by (rule lobby_starts)
  then have "?p (?s [Disc_loop 0])"
    by (rule preach_start [where t = ?t, OF _ _ _ _ starts.shut])
      (auto simp: lobby_world_def sample_world_def ShutdownServer_def sigterm_def)
  then have "?p (?s [Disc_at 0])" by (rule preach_exec) (auto simp: run_code_def gets_def l)
  then have "?p (?s [Disc 1, Disc_loop 1])" by (rule preach_exec) (auto simp: run_code_def r)
  from hangup [OF this] obtain w where
    w: "preach sample_env (\<lambda>_. True) (one_at w ?t ([Disc 1, Disc_loop 1] @ tl ShutdownServer)) (N_erase 1 ?k)"
    by auto
  let ?w = "w\<lparr>ClientList := remove1 1 (ClientList w)\<rparr>"
  have "net_exec sample_env hangup_round (N_erase 1 ?k) w = Inr (N_delete 1 ?k, ?w)" by (simp add: ret_def)
  with preach_net [OF w, of hangup_round "N_delete 1 ?k" ?w] have
    d: "preach sample_env (\<lambda>_. True) (one_at ?w ?t (Disc 1 # Disc_loop 1 # tl ShutdownServer)) (N_delete 1 ?k)" by simp
  from shutdown_race [OF d, of 0 "Disc_loop 1 # tl ShutdownServer"] show ?thesis by simp
qed

section \<open>Ids of NPCs\<close>

lemma SpawnNPC_new_id:
  assumes run: "SpawnNPC E this a w = Inr (r, w')" and n: "npcs w a = Some n"
    and used: "ClientIDList w (unat (npc_clientid n)) = 0" "npc_clientid n \<noteq> 0"
  shows "\<exists>i. npcs w' = (npcs w)(a \<mapsto> n\<lparr>npc_clientid := i\<rparr>) \<and> i \<noteq> npc_clientid n \<and> NPCList w' = NPCList w"
proof -
  obtain i w1 where i: "alloc_id E For_mob w = Inr (i, w1)"
    using run by (auto simp: SpawnNPC_def bnd_eq_Inr)
  then have base: "id_base w1 = id_base w"
    using id_loop_cases [of E 2000 w i w1] by (auto simp: GetNewMobID_def elim: id_stepE)
  note w1 = id_base_sel [OF base]
  let ?n = "n\<lparr>npc_clientid := ucast i\<rparr>"
  let ?w2 = "w1\<lparr>npcs := (npcs w1)(a \<mapsto> ?n)\<rparr>"
  have "bnd (memoryM E) (\<lambda>fr. bnd (on_packet (spawn_npc_packet ?n fr)) (\<lambda>_. bnd (SendPk E this 172) (\<lambda>_. ret True))) ?w2 = Inr (r, w')"
    using run i n w1 by (simp add: SpawnNPC_def del: memoryM_bnd)
  moreover have "keeps quiet (bnd (memoryM E) (\<lambda>fr. bnd (on_packet (spawn_npc_packet ?n fr)) (\<lambda>_. bnd (SendPk E this 172) (\<lambda>_. ret True))))"
    by (rule qt_intros quiet_keeps)+
  ultimately have "quiet ?w2 w'" by (simp only: keepsD)
  then have w': "npcs w' = (npcs w)(a \<mapsto> ?n)" "NPCList w' = NPCList w" using w1 by (simp_all add: quiet_def)
  have "ucast i \<noteq> npc_clientid n"
  proof
    assume eq: "ucast i = npc_clientid n"
    with used(2) have "i \<noteq> 0" by auto
    note u = id_step_unat [OF alloc_id_step [OF i] this]
    have "unat (ucast i :: u16) = unat i" 
      using u(2) by (simp add: unsigned_ucast_eq take_bit_eq_mod)
    with eq u(3) used(1) show False by simp
  qed
  with w' show ?thesis by blast
qed

text \<open>
  C35. Showing an NPC to another player invalidates the id its customers know: every spawn gives the NPC
  a new id, so that a request for its goods under the old one, which another player may still send, finds
  no NPC and follows a null pointer.
\<close>

theorem stale_npc_id:
  assumes run: "SpawnNPC E this a w = Inr (r, w')" and n: "npcs w a = Some n"
    and used: "ClientIDList w (unat (npc_clientid n)) = 0" "npc_clientid n \<noteq> 0"
    and others: "\<And>b. b \<in> set (NPCList w) \<Longrightarrow> b \<noteq> a \<Longrightarrow> \<exists>m. npcs w b = Some m \<and> npc_clientid m \<noteq> npc_clientid n"
    and P: "14 \<le> blen P" "word16 (bdat P 12) (bdat P 13) = npc_clientid n"
  shows "SendNPCSellItems E that P w' = Inl Null_deref"
proof (rule SendNPCSellItems_unknown [OF P(1)])
  obtain i where i: "npcs w' = (npcs w)(a \<mapsto> n\<lparr>npc_clientid := i\<rparr>)" "i \<noteq> npc_clientid n" "NPCList w' = NPCList w"
    using SpawnNPC_new_id [OF run n used] by blast
  fix b
  assume "b \<in> set (NPCList w')"
  with i others [of b] P(2) show "\<exists>m. npcs w' b = Some m \<and> npc_clientid m \<noteq> word16 (bdat P 12) (bdat P 13)"
    by (cases "b = a") simp_all
qed

definition goods_packet :: cbuf where
  "goods_packet = \<lparr>blen = 14, bdat = (\<lambda>i. if i = 12 then 0xD1 else if i = 13 then 7 else 0)\<rparr>"

theorem stale_npc_id_witness:
  "\<exists>w'. SpawnNPC sample_env 1 5 sample_world = Inr (True, w') \<and> SendNPCSellItems sample_env 2 goods_packet w' = Inl Null_deref"
proof -
  have n: "npcs sample_world 5 = Some sample_npc" and used: "ClientIDList sample_world (unat (npc_clientid sample_npc)) = 0"
      "npc_clientid sample_npc \<noteq> 0"
    and l: "length (npcname sample_npc) \<le> 60000" and c: "clients sample_world 1 = Some (sample_client 1 ''Ana'' 100 100 [2])"
    by (simp_all add: sample_world_def sample_npc_def)
  obtain w' where run: "SpawnNPC sample_env 1 5 sample_world = Inr (True, w')" using SpawnNPC_run [OF c n l] by blast
  have P: "14 \<le> blen goods_packet" "word16 (bdat goods_packet 12) (bdat goods_packet 13) = npc_clientid sample_npc"
    by (simp_all add: goods_packet_def sample_npc_def word16_def push_bit_eq_mult)
  have "\<And>b. b \<in> set (NPCList sample_world) \<Longrightarrow> b \<noteq> 5 \<Longrightarrow> \<exists>m. npcs sample_world b = Some m \<and> npc_clientid m \<noteq> npc_clientid sample_npc"
    by (simp add: sample_world_def)
  from stale_npc_id [OF run n used this P] run show ?thesis by blast
qed

end
